(* ===== verification/Prelude.thy ===== *)
theory Prelude
  imports Main "HOL-Library.Word"
begin

unbundle bit_operations_syntax

text \<open>
  Shared vocabulary of the development: bytes and C strings, the fixed-width
  integers the code puts on the wire, \<open>size_t\<close> arithmetic, the character
  classes of \<open>ctype.h\<close> in the C locale, \<open>strtol\<close>, decimal printing for log
  messages, and the type of computations that may not return normally.

  A byte is a \<open>char\<close> (256 values); a counted buffer is a list of them, and a
  nul-terminated string is such a list without its terminator. Everything here
  models the C language and its standard library as the code under \<^verbatim>\<open>src/\<close>
  uses them on an LP64 platform with a signed plain \<open>char\<close>; the few helpers
  that are code of the repository (\<open>x_strndup\<close>) say so.
\<close>

named_theorems wire \<open>encoding and decoding of the wire format\<close>
named_theorems cstr \<open>C string functions\<close>
named_theorems exec \<open>computations that may fault\<close>

subsection \<open>Types\<close>

type_synonym bytes = "char list"
type_synonym u32 = "32 word"
type_synonym u8 = "8 word"

abbreviation NUL :: char where "NUL \<equiv> CHR 0x00"
abbreviation TAB :: char where "TAB \<equiv> CHR 0x09"
abbreviation NL :: char where "NL \<equiv> CHR 0x0A"

text \<open>
  A C function may end its process instead of returning: by \<open>die\<close> or
  \<open>sysdie\<close>, by running out of stack in an unbounded recursion, or by
  undefined behaviour (here always a read outside an object). Each is a value
  of \<open>fault\<close>, and a computation that may fault has type \<open>fault + 'a\<close>.
\<close>

datatype fault = Undefined | Died string | Stack_exhausted

definition ebind :: "fault + 'a \<Rightarrow> ('a \<Rightarrow> fault + 'b) \<Rightarrow> fault + 'b" where
  "ebind m f = (case m of Inl e \<Rightarrow> Inl e | Inr x \<Rightarrow> f x)"

lemma ebind_simps [simp, exec]:
  "ebind (Inl e) f = Inl e"
  "ebind (Inr x) f = f x"
  by (simp_all add: ebind_def)

lemma ebind_Inr_iff [exec]:
  "ebind m f = Inr y \<longleftrightarrow> (\<exists>x. m = Inr x \<and> f x = Inr y)"
  by (cases m) simp_all

lemma ebind_cong [fundef_cong]:
  "m = m' \<Longrightarrow> (\<And>x. m' = Inr x \<Longrightarrow> f x = f' x) \<Longrightarrow> ebind m f = ebind m' f'"
  by (cases m') simp_all

text \<open>
  A computation that takes a stack depth settles on a value when every large
  enough depth gives that value.
\<close>

definition settled :: "(nat \<Rightarrow> fault + 'a) \<Rightarrow> 'a \<Rightarrow> bool" where
  "settled F x \<longleftrightarrow> (\<exists>n. \<forall>m \<ge> n. F m = Inr x)"

lemma settled_const [simp, intro]: "settled (\<lambda>n. Inr x) x"
  by (simp add: settled_def)

lemma settled_ebind:
  assumes "settled F x" "settled (\<lambda>n. G n x) y"
  shows "settled (\<lambda>n. ebind (F n) (G n)) y"
proof -
  from assms obtain a b where "\<forall>m \<ge> a. F m = Inr x" "\<forall>m \<ge> b. G m x = Inr y"
    by (auto simp: settled_def)
  then have "\<forall>m \<ge> max a b. ebind (F m) (G m) = Inr y" by simp
  then show ?thesis unfolding settled_def by blast
qed

lemma settled_Suc: "settled (\<lambda>n. F (Suc n)) x \<Longrightarrow> settled F x"
  unfolding settled_def by (metis Suc_le_D Suc_le_mono)

lemma settled_unique: "settled F x \<Longrightarrow> settled F y \<Longrightarrow> x = y"
  unfolding settled_def by (metis Inr_inject linorder_linear order_refl)

subsection \<open>Sizes\<close>

definition SIZE_MAX :: nat where "SIZE_MAX = 2 ^ 64 - 1"
definition UINT32_MAX :: nat where "UINT32_MAX = 2 ^ 32 - 1"

text \<open>Subtraction and addition of \<open>size_t\<close> values, which wrap around.\<close>

definition size_sub :: "nat \<Rightarrow> nat \<Rightarrow> nat" where
  "size_sub a b = (2 ^ 64 + a - b) mod 2 ^ 64"

definition size_add :: "nat \<Rightarrow> nat \<Rightarrow> nat" where
  "size_add a b = (a + b) mod 2 ^ 64"

lemma size_sub_le [simp]: "b \<le> a \<Longrightarrow> a < 2 ^ 64 \<Longrightarrow> size_sub a b = a - b"
proof -
  assume "b \<le> a" "a < 2 ^ 64"
  then have "2 ^ 64 + a - b = (a - b) + 2 ^ 64" by simp
  then have "size_sub a b = (a - b) mod 2 ^ 64"
    unfolding size_sub_def by (simp only: mod_add_self2)
  moreover have "a - b < 2 ^ 64" using \<open>a < 2 ^ 64\<close> by linarith
  ultimately show ?thesis by simp
qed

lemma size_sub_wrap: "a < b \<Longrightarrow> b < 2 ^ 64 \<Longrightarrow> size_sub a b = 2 ^ 64 + a - b"
  by (simp add: size_sub_def)

lemma size_add_small [simp]: "a + b < 2 ^ 64 \<Longrightarrow> size_add a b = a + b"
  by (simp add: size_add_def)

subsection \<open>Characters\<close>

definition schar :: "char \<Rightarrow> int" where
  "schar c = (if of_char c < (128::int) then of_char c else of_char c - 256)"

definition isspace :: "char \<Rightarrow> bool" where
  "isspace c = (let n = of_char c :: nat in n = 32 \<or> (9 \<le> n \<and> n \<le> 13))"

definition isupper :: "char \<Rightarrow> bool" where
  "isupper c = (let n = of_char c :: nat in 65 \<le> n \<and> n \<le> 90)"

definition islower :: "char \<Rightarrow> bool" where
  "islower c = (let n = of_char c :: nat in 97 \<le> n \<and> n \<le> 122)"

definition isdigit :: "char \<Rightarrow> bool" where
  "isdigit c = (let n = of_char c :: nat in 48 \<le> n \<and> n \<le> 57)"

definition isalpha :: "char \<Rightarrow> bool" where
  "isalpha c \<longleftrightarrow> isupper c \<or> islower c"

definition isalnum :: "char \<Rightarrow> bool" where
  "isalnum c \<longleftrightarrow> isalpha c \<or> isdigit c"

lemmas ctype_defs = isspace_def isupper_def islower_def isdigit_def isalpha_def isalnum_def

lemma schar_of_nat [simp]: "schar (char_of (n::nat)) = (if n mod 256 < 128 then int (n mod 256) else int (n mod 256) - 256)"
proof -
  have "(of_char (char_of n) :: int) = int (of_char (char_of n))"
    by (simp only: of_nat_of_char)
  then have "(of_char (char_of n) :: int) = int (n mod 256)" by simp
  then show ?thesis unfolding schar_def by auto
qed

subsection \<open>Strings\<close>

text \<open>
  The C string at the start of a buffer; \<open>x_strndup\<close> (\<^verbatim>\<open>src/util/xmalloc.c\<close>)
  copies at most \<open>n\<close> bytes of it; \<open>strchr\<close> is the suffix from the first
  occurrence, \<open>strrchr_tail\<close> what follows the last one.
\<close>

definition c_string :: "bytes \<Rightarrow> string" where
  "c_string bs = takeWhile (\<lambda>c. c \<noteq> NUL) bs"

definition nul_free :: "bytes \<Rightarrow> bool" where
  "nul_free bs \<longleftrightarrow> NUL \<notin> set bs"

definition x_strndup :: "bytes \<Rightarrow> nat \<Rightarrow> string" where
  "x_strndup s n = takeWhile (\<lambda>c. c \<noteq> NUL) (take n s)"

definition strchr :: "string \<Rightarrow> char \<Rightarrow> string option" where
  "strchr s c = (case dropWhile (\<lambda>x. x \<noteq> c) s of [] \<Rightarrow> None | t \<Rightarrow> Some t)"

definition strrchr_tail :: "string \<Rightarrow> char \<Rightarrow> string option" where
  "strrchr_tail s c = (if c \<in> set s then Some (rev (takeWhile (\<lambda>x. x \<noteq> c) (rev s))) else None)"

lemma takeWhile_no: "x \<notin> set xs \<Longrightarrow> takeWhile (\<lambda>c. c \<noteq> x) xs = xs"
  by (induction xs) auto

lemma x_strndup_nul_free [cstr]: "nul_free s \<Longrightarrow> x_strndup s n = take n s"
  unfolding nul_free_def x_strndup_def
  by (rule takeWhile_no) (auto dest: in_set_takeD)

lemma nul_free_x_strndup [simp]: "nul_free (x_strndup s n)"
  unfolding nul_free_def x_strndup_def by (auto dest: set_takeWhileD)

lemma nul_free_simps [simp]:
  "nul_free []"
  "nul_free (c # cs) \<longleftrightarrow> c \<noteq> NUL \<and> nul_free cs"
  "nul_free (xs @ ys) \<longleftrightarrow> nul_free xs \<and> nul_free ys"
  by (auto simp: nul_free_def)

lemma nul_free_sub [cstr]: "nul_free xs \<Longrightarrow> set ys \<subseteq> set xs \<Longrightarrow> nul_free ys"
  by (auto simp: nul_free_def)

lemma strchr_None_iff [cstr]: "strchr s c = None \<longleftrightarrow> c \<notin> set s"
proof -
  have "dropWhile (\<lambda>x. x \<noteq> c) s = [] \<longleftrightarrow> c \<notin> set s"
    by (auto simp: dropWhile_eq_Nil_conv)
  then show ?thesis unfolding strchr_def
    by (cases "dropWhile (\<lambda>x. x \<noteq> c) s") (simp_all del: dropWhile_eq_Nil_conv)
qed

lemma strchr_Some [cstr]:
  "strchr s c = Some t \<Longrightarrow> s = takeWhile (\<lambda>x. x \<noteq> c) s @ t \<and> t \<noteq> [] \<and> hd t = c"
  unfolding strchr_def
  by (auto split: list.splits)
     (metis (mono_tags, lifting) hd_dropWhile list.distinct(1) list.sel(1))

subsection \<open>Numbers in text\<close>

fun digits_value :: "nat \<Rightarrow> string \<Rightarrow> nat \<times> string" where
  "digits_value acc [] = (acc, [])"
| "digits_value acc (c # cs) =
     (if isdigit c then digits_value (10 * acc + (of_char c - 48)) cs else (acc, c # cs))"

definition LONG_MAX :: int where "LONG_MAX = 2 ^ 63 - 1"

text \<open>
  \<open>strtol(s, &end, 10)\<close>: the value, what \<open>end\<close> points at, and whether
  \<open>errno\<close> was set to \<open>ERANGE\<close> (the value is then clamped). Without any
  digit the value is 0 and \<open>end\<close> is the whole string.
\<close>

definition strtol :: "string \<Rightarrow> int \<times> string \<times> bool" where
  "strtol s =
     (let t = dropWhile isspace s;
          neg = (t \<noteq> [] \<and> hd t = CHR ''-'');
          u = (if t \<noteq> [] \<and> (hd t = CHR ''-'' \<or> hd t = CHR ''+'') then tl t else t)
      in if u = [] \<or> \<not> isdigit (hd u) then (0, s, False)
         else let (m, rest) = digits_value 0 u;
                  v = (if neg then - int m else int m)
              in if LONG_MAX < v then (LONG_MAX, rest, True)
                 else if v < - LONG_MAX - 1 then (- LONG_MAX - 1, rest, True)
                 else (v, rest, False))"

fun show_nat :: "nat \<Rightarrow> string" where
  "show_nat n = (if n < 10 then [char_of (48 + n)] else show_nat (n div 10) @ [char_of (48 + n mod 10)])"

declare show_nat.simps [simp del]

definition show_int :: "int \<Rightarrow> string" where
  "show_int i = (if i < 0 then CHR ''-'' # show_nat (nat (- i)) else show_nat (nat i))"

subsection \<open>Integers in network byte order\<close>

text \<open>\<open>htonl\<close> followed by \<open>memcpy\<close> of the four bytes, and \<open>ntohl\<close> of them.\<close>

definition put_u32 :: "u32 \<Rightarrow> bytes" where
  "put_u32 w = [char_of (unat w div 2 ^ 24), char_of (unat w div 2 ^ 16 mod 256),
                char_of (unat w div 2 ^ 8 mod 256), char_of (unat w mod 256)]"

definition get_u32 :: "bytes \<Rightarrow> u32" where
  "get_u32 bs = word_of_nat (of_char (bs ! 0) * 2 ^ 24 + of_char (bs ! 1) * 2 ^ 16
                             + of_char (bs ! 2) * 2 ^ 8 + of_char (bs ! 3))"

lemma length_put_u32 [simp, wire]: "length (put_u32 w) = 4"
  by (simp add: put_u32_def)

lemma put_u32_not_Nil [simp]: "put_u32 w \<noteq> []"
  by (simp add: put_u32_def)

lemma take_put_u32 [simp, wire]: "take 4 (put_u32 w @ bs) = put_u32 w"
  by (simp add: put_u32_def)

lemma drop_put_u32 [simp, wire]: "drop 4 (put_u32 w @ bs) = bs"
  by (simp add: put_u32_def)

lemma get_put_u32_nat:
  assumes "(n::nat) < 2 ^ 32"
  shows "n div 2 ^ 24 mod 256 * 2 ^ 24 + n div 2 ^ 16 mod 256 * 2 ^ 16
         + n div 2 ^ 8 mod 256 * 2 ^ 8 + n mod 256 = n"
proof -
  have 1: "n div 2 ^ 24 mod 256 = n div 2 ^ 24" using assms by simp
  have 2: "n div 2 ^ 8 = n div 256" "n div 2 ^ 16 = n div 256 div 256"
    "n div 2 ^ 24 = n div 256 div 256 div 256"
    by (simp_all flip: div_mult2_eq)
  have 3: "n = 256 * (n div 256) + n mod 256"
    "n div 256 = 256 * (n div 256 div 256) + n div 256 mod 256"
    "n div 256 div 256 = 256 * (n div 256 div 256 div 256) + n div 256 div 256 mod 256"
    by simp_all
  have 4: "(2::nat) ^ 24 = 16777216" "(2::nat) ^ 16 = 65536" "(2::nat) ^ 8 = 256"
    by simp_all
  show ?thesis unfolding 1 unfolding 2 unfolding 4 using 3 by linarith
qed

lemma get_put_u32 [simp, wire]: "get_u32 (put_u32 w @ bs) = w"
proof -
  have "unat w < 2 ^ 32" using unsigned_less [of w, where ?'a = nat] by simp
  then have "get_u32 (put_u32 w @ bs) = word_of_nat (unat w)"
    unfolding get_u32_def put_u32_def using get_put_u32_nat [of "unat w"] by simp
  then show ?thesis by simp
qed

lemma get_put_u32' [simp, wire]: "get_u32 (put_u32 w) = w"
  using get_put_u32 [of w "[]"] by simp

lemma unat_u32_small [simp, wire]: "n < 2 ^ 32 \<Longrightarrow> unat (word_of_nat n :: u32) = n"
  by (simp add: unat_of_nat)

lemma u32_of_digits:
  fixes a b c d :: nat
  assumes lt: "a < 256" "b < 256" "c < 256" "d < 256"
  defines "n \<equiv> a * 2 ^ 24 + b * 2 ^ 16 + c * 2 ^ 8 + d"
  shows "n < 2 ^ 32" "n div 2 ^ 24 = a" "n div 2 ^ 16 mod 256 = b" "n div 2 ^ 8 mod 256 = c"
    "n mod 256 = d"
proof -
  have n: "n = d + 256 * (c + 256 * (b + 256 * a))" by (simp add: n_def)
  have d1: "n div 256 = c + 256 * (b + 256 * a)" unfolding n using lt(4) by simp
  have d2: "n div 256 div 256 = b + 256 * a" unfolding d1 using lt(3) by simp
  have d3: "n div 256 div 256 div 256 = a" unfolding d2 using lt(2) by simp
  show "n < 2 ^ 32" unfolding n using lt by simp
  show "n mod 256 = d" unfolding n mod_mult_self2 using lt(4) by simp
  have p: "n div 2 ^ 8 = n div 256" "n div 2 ^ 16 = n div 256 div 256"
    by (simp_all flip: div_mult2_eq)
  show "n div 2 ^ 8 mod 256 = c" unfolding p d1 mod_mult_self2 using lt(3) by simp
  show "n div 2 ^ 16 mod 256 = b" unfolding p d2 mod_mult_self2 using lt(2) by simp
  show "n div 2 ^ 24 = a" using d3 by (simp flip: div_mult2_eq)
qed

lemma put_get_u32 [wire]: "put_u32 (word_of_nat (unat (get_u32 [a, b, c, d]))) = [a, b, c, d]"
proof -
  let ?n = "of_char a * 2 ^ 24 + of_char b * 2 ^ 16 + of_char c * 2 ^ 8 + of_char d :: nat"
  note dig = u32_of_digits [OF nat_of_char_less_256 [of a] nat_of_char_less_256 [of b]
      nat_of_char_less_256 [of c] nat_of_char_less_256 [of d]]
  have "unat (word_of_nat ?n :: u32) = ?n" by (rule unat_u32_small, rule dig(1))
  moreover have "get_u32 [a, b, c, d] = word_of_nat ?n" by (simp add: get_u32_def)
  ultimately have u: "unat (get_u32 [a, b, c, d]) = ?n" by simp
  have w: "word_of_nat (unat (get_u32 [a, b, c, d])) = get_u32 [a, b, c, d]" by simp
  show ?thesis unfolding w unfolding put_u32_def u unfolding dig(2-) by simp
qed

text \<open>A single octet, as it travels in the flags byte of a token.\<close>

definition put_u8 :: "u8 \<Rightarrow> char" where "put_u8 w = char_of (unat w)"
definition get_u8 :: "char \<Rightarrow> u8" where "get_u8 c = word_of_nat (of_char c)"

lemma get_put_u8 [simp, wire]: "get_u8 (put_u8 w) = w"
proof -
  have "unat w < 256" using unsigned_less [of w, where ?'a = nat] by simp
  then show ?thesis by (simp add: get_u8_def put_u8_def)
qed

lemma put_get_u8 [simp, wire]: "put_u8 (get_u8 c) = c"
  by (simp add: put_u8_def get_u8_def unat_of_nat)

subsection \<open>Lists\<close>

lemma takeWhile_dropWhile_length: "length (takeWhile P xs) + length (dropWhile P xs) = length xs"
  by (metis length_append takeWhile_dropWhile_id)

lemma take_append_exact [simp]: "length xs = n \<Longrightarrow> take n (xs @ ys) = xs"
  by simp

lemma drop_append_exact [simp]: "length xs = n \<Longrightarrow> drop n (xs @ ys) = ys"
  by simp

end
