(* ===== verification/Vector.thy ===== *)
theory Vector
  imports Prelude
begin

text \<open>
  The vectors of \<^verbatim>\<open>src/util/vector.c\<close>. A vector is its \<open>count\<close>, its
  \<open>allocated\<close> size and the table of slots, in which \<open>None\<close> stands for a null,
  freed or uninitialised pointer. Storing outside the table is undefined
  behaviour, so memory safety of the operations is a theorem: the counting pass
  of the split functions always sizes the table for what the second pass
  stores.

  A \<open>vector\<close> holds strings of its own; a \<open>cvector\<close> holds pointers, which for
  the split functions are offsets into the buffer they cut up in place. The
  locale \<open>resizable_vector\<close> is the contract both keep: they behave as lists.
  The components that use vectors rely on that contract and work with lists.
\<close>

subsection \<open>The data\<close>

record 'a vec =
  count :: nat
  allocated :: nat
  strings :: "'a option list"

definition put_slot :: "nat \<Rightarrow> 'a option \<Rightarrow> 'a vec \<Rightarrow> fault + 'a vec" where
  "put_slot i x v =
     (if i < length (strings v) then Inr (v\<lparr>strings := (strings v)[i := x]\<rparr>) else Inl Undefined)"

definition realloc_slots :: "nat \<Rightarrow> 'a option list \<Rightarrow> 'a option list" where
  "realloc_slots n xs = take n xs @ replicate (n - length xs) None"

definition free_slots :: "nat \<Rightarrow> nat \<Rightarrow> 'a option list \<Rightarrow> 'a option list" where
  "free_slots i0 i1 xs =
     map (\<lambda>i. if i0 \<le> i \<and> i < i1 then None else xs ! i) [0..<length xs]"

definition vec_list :: "'a vec \<Rightarrow> 'a list" where
  "vec_list v = map the (take (count v) (strings v))"

definition vec_ok :: "'a vec \<Rightarrow> bool" where
  "vec_ok v \<longleftrightarrow> count v \<le> allocated v \<and> length (strings v) = allocated v \<and> 0 < allocated v
               \<and> None \<notin> set (take (count v) (strings v))"

subsection \<open>Operations\<close>

definition vector_new :: "string vec" where
  "vector_new = \<lparr>count = 0, allocated = 1, strings = [None]\<rparr>"

definition cvector_new :: "'p vec" where
  "cvector_new = \<lparr>count = 0, allocated = 1, strings = [None]\<rparr>"

definition vector_resize :: "nat \<Rightarrow> string vec \<Rightarrow> string vec" where
  "vector_resize n v =
     (let v1 = (if count v > n
                then v\<lparr>strings := free_slots n (count v) (strings v), count := n\<rparr> else v);
          n1 = (if n = 0 then 1 else n)
      in v1\<lparr>strings := realloc_slots n1 (strings v1), allocated := n1\<rparr>)"

definition cvector_resize :: "nat \<Rightarrow> 'p vec \<Rightarrow> 'p vec" where
  "cvector_resize n v =
     (let v1 = (if count v > n then v\<lparr>count := n\<rparr> else v);
          n1 = (if n = 0 then 1 else n)
      in v1\<lparr>strings := realloc_slots n1 (strings v1), allocated := n1\<rparr>)"

definition vector_add :: "string \<Rightarrow> string vec \<Rightarrow> fault + string vec" where
  "vector_add s v =
     (let v1 = (if count v = allocated v then vector_resize (allocated v + 1) v else v)
      in ebind (put_slot (count v1) (Some s) v1) (\<lambda>v2. Inr (v2\<lparr>count := count v2 + 1\<rparr>)))"

definition cvector_add :: "'p \<Rightarrow> 'p vec \<Rightarrow> fault + 'p vec" where
  "cvector_add s v =
     (let v1 = (if count v = allocated v then cvector_resize (allocated v + 1) v else v)
      in ebind (put_slot (count v1) (Some s) v1) (\<lambda>v2. Inr (v2\<lparr>count := count v2 + 1\<rparr>)))"

definition vector_addn :: "string \<Rightarrow> nat \<Rightarrow> string vec \<Rightarrow> fault + string vec" where
  "vector_addn s n v =
     (let v1 = (if count v = allocated v then vector_resize (allocated v + 1) v else v)
      in ebind (put_slot (count v1) (Some (x_strndup s n)) v1)
           (\<lambda>v2. Inr (v2\<lparr>count := count v2 + 1\<rparr>)))"

definition vector_clear :: "string vec \<Rightarrow> string vec" where
  "vector_clear v = v\<lparr>strings := free_slots 0 (count v) (strings v), count := 0\<rparr>"

definition cvector_clear :: "'p vec \<Rightarrow> 'p vec" where
  "cvector_clear v = v\<lparr>count := 0\<rparr>"

definition vector_reuse :: "string vec option \<Rightarrow> string vec" where
  "vector_reuse v = (case v of None \<Rightarrow> vector_new | Some w \<Rightarrow> vector_clear w)"

definition cvector_reuse :: "'p vec option \<Rightarrow> 'p vec" where
  "cvector_reuse v = (case v of None \<Rightarrow> cvector_new | Some w \<Rightarrow> cvector_clear w)"

text \<open>Splitting at one separator.\<close>

primrec split_count_loop :: "char \<Rightarrow> string \<Rightarrow> nat \<Rightarrow> nat" where
  "split_count_loop sep [] n = n"
| "split_count_loop sep (c # p) n = split_count_loop sep p (if c = sep then n + 1 else n)"

definition split_count :: "string \<Rightarrow> char \<Rightarrow> nat" where
  "split_count s sep = (if s = [] then 1 else split_count_loop sep s 1)"

text \<open>\<open>seg\<close> is the text from \<open>start\<close> up to \<open>p\<close>.\<close>

primrec vector_split_loop ::
  "char \<Rightarrow> string \<Rightarrow> string \<Rightarrow> nat \<Rightarrow> string vec \<Rightarrow> fault + nat \<times> string vec" where
  "vector_split_loop sep [] seg i v =
     ebind (put_slot i (Some seg) v) (\<lambda>v1. Inr (i + 1, v1))"
| "vector_split_loop sep (c # p) seg i v =
     (if c = sep
      then ebind (put_slot i (Some seg) v) (\<lambda>v1. vector_split_loop sep p [] (i + 1) v1)
      else vector_split_loop sep p (seg @ [c]) i v)"

definition vector_split :: "string \<Rightarrow> char \<Rightarrow> string vec option \<Rightarrow> fault + string vec" where
  "vector_split s sep reuse =
     (let v = vector_reuse reuse;
          n = split_count s sep;
          v1 = (if allocated v < n then vector_resize n v else v)
      in ebind (vector_split_loop sep s [] 0 v1) (\<lambda>(i, v2). Inr (v2\<lparr>count := i\<rparr>)))"

text \<open>
  The destructive version: \<open>buf\<close> is the string without its terminator, \<open>p\<close>
  and \<open>start\<close> are offsets, and the vector holds offsets.
\<close>

function cvector_split_loop ::
  "char \<Rightarrow> string \<Rightarrow> nat \<Rightarrow> nat \<Rightarrow> nat \<Rightarrow> nat vec \<Rightarrow> fault + string \<times> nat \<times> nat vec" where
  "cvector_split_loop sep buf p start i v =
     (if p < length buf \<and> buf ! p \<noteq> NUL then
        if buf ! p = sep
        then ebind (put_slot i (Some start) v)
               (\<lambda>v1. cvector_split_loop sep (buf[p := NUL]) (p + 1) (p + 1) (i + 1) v1)
        else cvector_split_loop sep buf (p + 1) start i v
      else ebind (put_slot i (Some start) v) (\<lambda>v1. Inr (buf, i + 1, v1)))"
  by pat_completeness auto
termination
  by (relation "measure (\<lambda>(sep, buf, p, start, i, v). length buf - p)") auto

declare cvector_split_loop.simps [simp del]

definition cvector_split ::
  "string \<Rightarrow> char \<Rightarrow> nat vec option \<Rightarrow> fault + string \<times> nat vec" where
  "cvector_split s sep reuse =
     (let v = cvector_reuse reuse;
          n = split_count s sep;
          v1 = (if allocated v < n then cvector_resize n v else v)
      in ebind (cvector_split_loop sep s 0 0 0 v1)
           (\<lambda>(buf, i, v2). Inr (buf, v2\<lparr>count := i\<rparr>)))"

text \<open>Splitting at any of a set of separators; \<open>prev\<close> is \<open>p[-1]\<close>.\<close>

primrec split_multi_count_loop :: "string \<Rightarrow> char \<Rightarrow> string \<Rightarrow> nat \<Rightarrow> nat" where
  "split_multi_count_loop seps prev [] n = (if strchr seps prev \<noteq> None then n - 1 else n)"
| "split_multi_count_loop seps prev (c # p) n =
     split_multi_count_loop seps c p
       (if strchr seps c \<noteq> None \<and> strchr seps prev = None then n + 1 else n)"

definition split_multi_count :: "string \<Rightarrow> string \<Rightarrow> nat" where
  "split_multi_count s seps =
     (case s of [] \<Rightarrow> 0 | c # p \<Rightarrow> split_multi_count_loop seps c p 1)"

primrec vector_split_multi_loop ::
  "string \<Rightarrow> string \<Rightarrow> string \<Rightarrow> nat \<Rightarrow> string vec \<Rightarrow> fault + nat \<times> string vec" where
  "vector_split_multi_loop seps [] seg i v =
     (if seg \<noteq> [] then ebind (put_slot i (Some seg) v) (\<lambda>v1. Inr (i + 1, v1)) else Inr (i, v))"
| "vector_split_multi_loop seps (c # p) seg i v =
     (if strchr seps c \<noteq> None then
        if seg \<noteq> []
        then ebind (put_slot i (Some seg) v) (\<lambda>v1. vector_split_multi_loop seps p [] (i + 1) v1)
        else vector_split_multi_loop seps p [] i v
      else vector_split_multi_loop seps p (seg @ [c]) i v)"

definition vector_split_multi ::
  "string \<Rightarrow> string \<Rightarrow> string vec option \<Rightarrow> fault + string vec" where
  "vector_split_multi s seps reuse =
     (let v = vector_reuse reuse;
          n = split_multi_count s seps;
          v1 = (if allocated v < n then vector_resize n v else v)
      in ebind (vector_split_multi_loop seps s [] 0 v1) (\<lambda>(i, v2). Inr (v2\<lparr>count := i\<rparr>)))"

function cvector_split_multi_loop ::
  "string \<Rightarrow> string \<Rightarrow> nat \<Rightarrow> nat \<Rightarrow> nat \<Rightarrow> nat vec \<Rightarrow> fault + string \<times> nat \<times> nat vec" where
  "cvector_split_multi_loop seps buf p start i v =
     (if p < length buf \<and> buf ! p \<noteq> NUL then
        if strchr seps (buf ! p) \<noteq> None then
          if start \<noteq> p
          then ebind (put_slot i (Some start) v)
                 (\<lambda>v1. cvector_split_multi_loop seps (buf[p := NUL]) (p + 1) (p + 1) (i + 1) v1)
          else cvector_split_multi_loop seps buf (p + 1) (p + 1) i v
        else cvector_split_multi_loop seps buf (p + 1) start i v
      else if start \<noteq> p then ebind (put_slot i (Some start) v) (\<lambda>v1. Inr (buf, i + 1, v1))
      else Inr (buf, i, v))"
  by pat_completeness auto
termination
  by (relation "measure (\<lambda>(seps, buf, p, start, i, v). length buf - p)") auto

declare cvector_split_multi_loop.simps [simp del]

definition cvector_split_multi ::
  "string \<Rightarrow> string \<Rightarrow> nat vec option \<Rightarrow> fault + string \<times> nat vec" where
  "cvector_split_multi s seps reuse =
     (let v = cvector_reuse reuse;
          n = split_multi_count s seps;
          v1 = (if allocated v < n then cvector_resize n v else v)
      in ebind (cvector_split_multi_loop seps s 0 0 0 v1)
           (\<lambda>(buf, i, v2). Inr (buf, v2\<lparr>count := i\<rparr>)))"

definition vector_split_space :: "string \<Rightarrow> string vec option \<Rightarrow> fault + string vec" where
  "vector_split_space s v = vector_split_multi s [CHR '' '', TAB] v"

definition cvector_split_space :: "string \<Rightarrow> nat vec option \<Rightarrow> fault + string \<times> nat vec" where
  "cvector_split_space s v = cvector_split_multi s [CHR '' '', TAB] v"

text \<open>
  Joining. The first pass adds up the length of the result in \<open>size_t\<close> and
  asserts that it does not overflow, the second copies into a buffer of that
  many bytes; \<open>out\<close> is what has been copied, so \<open>offset\<close> is its length.
\<close>

primrec join_size_loop :: "nat \<Rightarrow> string list \<Rightarrow> nat \<Rightarrow> fault + nat" where
  "join_size_loop extra [] n = Inr n"
| "join_size_loop extra (s # ss) n =
     (if SIZE_MAX - n \<ge> size_add (length s) extra then join_size_loop extra ss (n + length s)
      else Inl (Died ''assertion failed''))"

primrec join_copy_loop :: "string \<Rightarrow> nat \<Rightarrow> string list \<Rightarrow> bool \<Rightarrow> string \<Rightarrow> fault + string" where
  "join_copy_loop sep alloc [] first out =
     (if length out < alloc then Inr out else Inl Undefined)"
| "join_copy_loop sep alloc (s # ss) first out =
     (let out1 = (if first then out else out @ sep); out2 = out1 @ s
      in if length out1 > alloc \<or> length out2 > alloc then Inl Undefined
         else if length out2 < alloc then join_copy_loop sep alloc ss False out2
         else Inl (Died ''assertion failed''))"

definition join_with :: "nat \<Rightarrow> string list \<Rightarrow> string \<Rightarrow> fault + string" where
  "join_with extra ss sep =
     (if ss = [] then Inr []
      else ebind (join_size_loop extra ss 0) (\<lambda>n.
        let gap = ((length ss - 1) * length sep + 1) mod 2 ^ 64
        in if SIZE_MAX - n \<ge> gap then join_copy_loop sep (n + gap) ss True []
           else Inl (Died ''assertion failed'')))"

definition vector_join :: "string vec \<Rightarrow> string \<Rightarrow> fault + string" where
  "vector_join v sep = join_with (size_add (length sep) 1) (vec_list v) sep"

definition cvector_join :: "string vec \<Rightarrow> string \<Rightarrow> fault + string" where
  "cvector_join v sep = join_with 0 (vec_list v) sep"

text \<open>
  \<open>vector_exec\<close>: the terminating NULL is stored past the counted strings; the
  result has the vector and the argument list \<open>execv\<close> receives, which ends at
  the first NULL.
\<close>

definition exec_argv :: "'a option list \<Rightarrow> 'a list" where
  "exec_argv xs = map the (takeWhile (\<lambda>x. x \<noteq> None) xs)"

definition vector_exec :: "string vec \<Rightarrow> fault + string list \<times> string vec" where
  "vector_exec v =
     (let v1 = (if allocated v = count v then vector_resize (count v + 1) v else v)
      in ebind (put_slot (count v1) None v1) (\<lambda>v2. Inr (exec_argv (strings v2), v2)))"

definition cvector_exec :: "'p vec \<Rightarrow> fault + 'p list \<times> 'p vec" where
  "cvector_exec v =
     (let v1 = (if allocated v = count v then cvector_resize (count v + 1) v else v)
      in ebind (put_slot (count v1) None v1) (\<lambda>v2. Inr (exec_argv (strings v2), v2)))"

subsection \<open>The contract of a vector\<close>

locale resizable_vector =
  fixes new :: "'a vec" and resize :: "nat \<Rightarrow> 'a vec \<Rightarrow> 'a vec"
    and add :: "'a \<Rightarrow> 'a vec \<Rightarrow> fault + 'a vec" and clear :: "'a vec \<Rightarrow> 'a vec"
  assumes new_ok: "vec_ok new" "vec_list new = []"
    and resize_ok: "vec_ok v \<Longrightarrow> vec_ok (resize n v) \<and> vec_list (resize n v) = take n (vec_list v)
           \<and> allocated (resize n v) = max 1 n"
    and add_ok: "vec_ok v \<Longrightarrow> \<exists>v1. add x v = Inr v1 \<and> vec_ok v1 \<and> vec_list v1 = vec_list v @ [x]"
    and clear_ok: "vec_ok v \<Longrightarrow> vec_ok (clear v) \<and> vec_list (clear v) = []
           \<and> allocated (clear v) = allocated v"
begin

primrec add_all :: "'a list \<Rightarrow> 'a vec \<Rightarrow> fault + 'a vec" where
  "add_all [] v = Inr v"
| "add_all (x # xs) v = ebind (add x v) (add_all xs)"

lemma add_all_ok:
  "vec_ok v \<Longrightarrow> \<exists>v1. add_all xs v = Inr v1 \<and> vec_ok v1 \<and> vec_list v1 = vec_list v @ xs"
proof (induction xs arbitrary: v)
  case (Cons x xs)
  obtain w where "add x v = Inr w" "vec_ok w" "vec_list w = vec_list v @ [x]"
    using add_ok [OF Cons.prems] by blast
  then show ?case using Cons.IH [of w] by auto
qed simp

text \<open>Emptied and resized, a vector has room for \<open>n\<close> strings.\<close>

lemma cleared_room:
  assumes "vec_ok v"
  shows "n \<le> allocated (if allocated (clear v) < n then resize n (clear v) else clear v)
         \<and> vec_ok (if allocated (clear v) < n then resize n (clear v) else clear v)"
  using clear_ok [OF assms] resize_ok [of "clear v" n] by auto

lemma new_room:
  "n \<le> allocated (if allocated new < n then resize n new else new)
   \<and> vec_ok (if allocated new < n then resize n new else new)"
  using new_ok resize_ok [of new n] by auto

end

lemma length_slots [simp]:
  "length (free_slots a b xs) = length xs"
  "length (realloc_slots n xs) = n"
  by (simp_all add: free_slots_def realloc_slots_def)

lemma take_realloc [simp]: "n \<le> m \<Longrightarrow> n \<le> length xs \<Longrightarrow> take n (realloc_slots m xs) = take n xs"
  by (simp add: realloc_slots_def min_def)

lemma take_free_slots [simp]: "n \<le> a \<Longrightarrow> n \<le> length xs \<Longrightarrow> take n (free_slots a b xs) = take n xs"
  by (rule nth_equalityI) (simp_all add: free_slots_def)

lemma not_None_take: "None \<notin> set (take n xs) \<Longrightarrow> m \<le> n \<Longrightarrow> None \<notin> set (take m xs)"
  using set_take_subset_set_take [of m n xs] by blast

lemma put_slot_add:
  assumes "vec_ok v" "count v < allocated v"
  shows "\<exists>v1. put_slot (count v) (Some x) v = Inr v1 \<and> vec_ok (v1\<lparr>count := count v1 + 1\<rparr>)
              \<and> vec_list (v1\<lparr>count := count v1 + 1\<rparr>) = vec_list v @ [x]"
  using assms
  by (auto simp: vec_ok_def put_slot_def vec_list_def take_Suc_conv_app_nth)

lemma vector_resize_ok:
  assumes "vec_ok v"
  shows "vec_ok (vector_resize n v) \<and> vec_list (vector_resize n v) = take n (vec_list v)
         \<and> allocated (vector_resize n v) = max 1 n \<and> (count v \<le> n \<longrightarrow> count (vector_resize n v) = count v)"
  using assms not_None_take [of "count v" "strings v" n]
  by (auto simp: vec_ok_def vector_resize_def vec_list_def Let_def take_map min_def)

lemma cvector_resize_ok:
  assumes "vec_ok v"
  shows "vec_ok (cvector_resize n v) \<and> vec_list (cvector_resize n v) = take n (vec_list v)
         \<and> allocated (cvector_resize n v) = max 1 n \<and> (count v \<le> n \<longrightarrow> count (cvector_resize n v) = count v)"
  using assms not_None_take [of "count v" "strings v" n]
  by (auto simp: vec_ok_def cvector_resize_def vec_list_def Let_def take_map min_def)

lemma vec_count: "vec_ok v \<Longrightarrow> length (vec_list v) = count v"
  by (simp add: vec_ok_def vec_list_def)

lemma grow_one:
  assumes "vec_ok v"
  shows "vec_ok (if count v = allocated v then vector_resize (allocated v + 1) v else v)"
    and "vec_list (if count v = allocated v then vector_resize (allocated v + 1) v else v) = vec_list v"
    and "count (if count v = allocated v then vector_resize (allocated v + 1) v else v)
         < allocated (if count v = allocated v then vector_resize (allocated v + 1) v else v)"
  using assms vector_resize_ok [OF assms, of "allocated v + 1"] vec_count [OF assms]
  by (auto simp: vec_ok_def)

lemma cgrow_one:
  assumes "vec_ok v"
  shows "vec_ok (if count v = allocated v then cvector_resize (allocated v + 1) v else v)"
    and "vec_list (if count v = allocated v then cvector_resize (allocated v + 1) v else v) = vec_list v"
    and "count (if count v = allocated v then cvector_resize (allocated v + 1) v else v)
         < allocated (if count v = allocated v then cvector_resize (allocated v + 1) v else v)"
  using assms cvector_resize_ok [OF assms, of "allocated v + 1"] vec_count [OF assms]
  by (auto simp: vec_ok_def)

interpretation vec: resizable_vector vector_new vector_resize vector_add vector_clear
proof
  show "vec_ok vector_new" "vec_list vector_new = []"
    by (simp_all add: vec_ok_def vec_list_def vector_new_def)
next
  fix v :: "string vec" and n
  assume "vec_ok v"
  then show "vec_ok (vector_resize n v) \<and> vec_list (vector_resize n v) = take n (vec_list v)
             \<and> allocated (vector_resize n v) = max 1 n"
    using vector_resize_ok by blast
next
  fix v :: "string vec" and x
  assume v: "vec_ok v"
  show "\<exists>v1. vector_add x v = Inr v1 \<and> vec_ok v1 \<and> vec_list v1 = vec_list v @ [x]"
    using put_slot_add [OF grow_one(1,3) [OF v], of x] grow_one(2) [OF v]
    by (auto simp: vector_add_def Let_def)
next
  fix v :: "string vec"
  assume "vec_ok v"
  then show "vec_ok (vector_clear v) \<and> vec_list (vector_clear v) = []
             \<and> allocated (vector_clear v) = allocated v"
    by (simp add: vec_ok_def vec_list_def vector_clear_def)
qed

interpretation cvec: resizable_vector cvector_new cvector_resize cvector_add cvector_clear
proof
  show "vec_ok cvector_new" "vec_list cvector_new = []"
    by (simp_all add: vec_ok_def vec_list_def cvector_new_def)
next
  fix v :: "'a vec" and n
  assume "vec_ok v"
  then show "vec_ok (cvector_resize n v) \<and> vec_list (cvector_resize n v) = take n (vec_list v)
             \<and> allocated (cvector_resize n v) = max 1 n"
    using cvector_resize_ok by blast
next
  fix v :: "'a vec" and x
  assume v: "vec_ok v"
  show "\<exists>v1. cvector_add x v = Inr v1 \<and> vec_ok v1 \<and> vec_list v1 = vec_list v @ [x]"
    using put_slot_add [OF cgrow_one(1,3) [OF v], of x] cgrow_one(2) [OF v]
    by (auto simp: cvector_add_def Let_def)
next
  fix v :: "'a vec"
  assume "vec_ok v"
  then show "vec_ok (cvector_clear v) \<and> vec_list (cvector_clear v) = []
             \<and> allocated (cvector_clear v) = allocated v"
    by (simp add: vec_ok_def vec_list_def cvector_clear_def)
qed

lemma vector_addn_ok:
  assumes "vec_ok v"
  shows "\<exists>v1. vector_addn s n v = Inr v1 \<and> vec_ok v1 \<and> vec_list v1 = vec_list v @ [x_strndup s n]"
  using put_slot_add [OF grow_one(1,3) [OF assms], of "x_strndup s n"] grow_one(2) [OF assms]
  by (auto simp: vector_addn_def Let_def)

subsection \<open>Splitting\<close>

text \<open>
  The strings a split stores: all of them go into consecutive slots from \<open>i\<close>
  on. One pass of \<open>put_slot\<close> calls is one \<open>store\<close>.
\<close>

definition store :: "nat \<Rightarrow> 'a list \<Rightarrow> 'a vec \<Rightarrow> 'a vec" where
  "store i xs v = v\<lparr>strings := take i (strings v) @ map Some xs @ drop (i + length xs) (strings v)\<rparr>"

lemma store_Nil [simp]: "store i [] v = v"
  by (simp add: store_def)

lemma put_slot_store: "i < length (strings v) \<Longrightarrow> put_slot i (Some x) v = Inr (store i [x] v)"
  by (simp add: put_slot_def store_def upd_conv_take_nth_drop)

lemma store_store: "i < length (strings v) \<Longrightarrow> store (Suc i) xs (store i [x] v) = store i (x # xs) v"
  by (simp add: store_def take_Cons' add.commute)

lemma length_store [simp]:
  "i + length xs \<le> length (strings v) \<Longrightarrow> length (strings (store i xs v)) = length (strings v)"
  by (simp add: store_def)

lemma store_result:
  assumes "vec_ok v" "length xs \<le> allocated v"
  shows "vec_ok ((store 0 xs v)\<lparr>count := length xs\<rparr>)"
    and "vec_list ((store 0 xs v)\<lparr>count := length xs\<rparr>) = xs"
  using assms by (auto simp: vec_ok_def vec_list_def store_def)

text \<open>Reference functions: the pieces between separators, and the words.\<close>

primrec pieces :: "char \<Rightarrow> string \<Rightarrow> string \<Rightarrow> string list" where
  "pieces sep seg [] = [seg]"
| "pieces sep seg (c # p) = (if c = sep then seg # pieces sep [] p else pieces sep (seg @ [c]) p)"

primrec chunks :: "string \<Rightarrow> string \<Rightarrow> string \<Rightarrow> string list" where
  "chunks seps seg [] = (if seg = [] then [] else [seg])"
| "chunks seps seg (c # p) =
     (if c \<in> set seps then (if seg = [] then [] else [seg]) @ chunks seps [] p
      else chunks seps (seg @ [c]) p)"

definition split_on :: "char \<Rightarrow> string \<Rightarrow> string list" where
  "split_on sep s = pieces sep [] s"

function split_words :: "string \<Rightarrow> string \<Rightarrow> string list" where
  "split_words seps s =
     (let t = dropWhile (\<lambda>c. c \<in> set seps) s
      in if t = [] then []
         else takeWhile (\<lambda>c. c \<notin> set seps) t # split_words seps (dropWhile (\<lambda>c. c \<notin> set seps) t))"
  by pat_completeness auto
termination
proof (relation "measure (\<lambda>(seps, s). length s)", simp)
  fix seps s t
  assume t: "t = dropWhile (\<lambda>c. c \<in> set seps) s" "t \<noteq> []"
  then have "hd t \<notin> set seps" using hd_dropWhile [of "\<lambda>c. c \<in> set seps" s] by auto
  then have "length (dropWhile (\<lambda>c. c \<notin> set seps) t) < length t"
    using t(2) length_dropWhile_le [of "\<lambda>c. c \<notin> set seps" "tl t"] by (cases t) auto
  also have "\<dots> \<le> length s" unfolding t(1) by (rule length_dropWhile_le)
  finally show "((seps, dropWhile (\<lambda>c. c \<notin> set seps) t), (seps, s)) \<in> measure (\<lambda>(seps, s). length s)"
    by simp
qed

declare split_words.simps [simp del]

lemma split_words_simps:
  "split_words seps [] = []"
  "c \<in> set seps \<Longrightarrow> split_words seps (c # p) = split_words seps p"
  "c \<notin> set seps \<Longrightarrow> split_words seps (c # p) =
     (c # takeWhile (\<lambda>c. c \<notin> set seps) p) # split_words seps (dropWhile (\<lambda>c. c \<notin> set seps) p)"
  by (simp_all add: split_words.simps [of seps "c # p"] split_words.simps [of seps "[]"]
      split_words.simps [of seps p])

lemma chunks_seg:
  "seg \<noteq> [] \<Longrightarrow> chunks seps seg p =
     (seg @ takeWhile (\<lambda>c. c \<notin> set seps) p) # chunks seps [] (dropWhile (\<lambda>c. c \<notin> set seps) p)"
  by (induction p arbitrary: seg) auto

lemma chunks_split_words: "chunks seps [] s = split_words seps s"
proof (induction seps s rule: split_words.induct)
  case (1 seps s)
  show ?case
  proof (induction s rule: length_induct)
    case (1 s)
    show ?case
    proof (cases s)
      case (Cons c p)
      show ?thesis
      proof (cases "c \<in> set seps")
        case True
        then show ?thesis using 1 Cons by (simp add: split_words_simps)
      next
        case False
        have "length (dropWhile (\<lambda>c. c \<notin> set seps) p) < length s"
          using Cons length_dropWhile_le [of "\<lambda>c. c \<notin> set seps" p] by simp
        then show ?thesis using 1 Cons False by (simp add: split_words_simps chunks_seg)
      qed
    qed (simp add: split_words_simps)
  qed
qed

lemma strchr_iff [simp]: "strchr seps c \<noteq> None \<longleftrightarrow> c \<in> set seps" "strchr seps c = None \<longleftrightarrow> c \<notin> set seps"
  by (simp_all add: strchr_None_iff del: not_None_eq)

text \<open>The counting passes count exactly the strings stored.\<close>

lemma pieces_length: "length (pieces sep seg s) = split_count_loop sep s 1"
proof -
  have "split_count_loop sep s (Suc n) = n + length (pieces sep seg s)" for n seg
  proof (induction s arbitrary: n seg)
    case (Cons c s)
    show ?case using Cons [of "Suc n" "[]"] Cons [of n "seg @ [c]"] by simp
  qed simp
  from this [of 0 seg] show ?thesis by simp
qed

lemma split_count_pieces: "split_count s sep = length (pieces sep [] s)"
  by (cases s) (simp_all add: split_count_def pieces_length del: pieces.simps(2))

lemma multi_count:
  "split_multi_count_loop seps prev p (Suc n) =
     n + length (chunks seps (if prev \<in> set seps then [] else [prev]) p)"
proof (induction p arbitrary: prev n)
  case (Cons c p)
  have "length (chunks seps (seg @ [c]) p) = length (chunks seps [c] p)" for seg
    by (simp add: chunks_seg)
  with Cons [of c n] Cons [of c "Suc n"] show ?case by simp
qed simp

lemma split_multi_count_chunks: "split_multi_count s seps = length (chunks seps [] s)"
  by (cases s) (simp_all add: split_multi_count_def multi_count [of _ _ _ 0, simplified])

lemma vector_split_loop_ok:
  "i + length (pieces sep seg p) \<le> length (strings v) \<Longrightarrow>
     vector_split_loop sep p seg i v = Inr (i + length (pieces sep seg p), store i (pieces sep seg p) v)"
  by (induction p arbitrary: seg i v) (auto simp: put_slot_store store_store)

lemma vector_split_multi_loop_ok:
  "i + length (chunks seps seg p) \<le> length (strings v) \<Longrightarrow>
     vector_split_multi_loop seps p seg i v
       = Inr (i + length (chunks seps seg p), store i (chunks seps seg p) v)"
  by (induction p arbitrary: seg i v) (auto simp: put_slot_store store_store)

text \<open>A vector to split into: none, or one to reuse.\<close>

definition reuse_ok :: "'a vec option \<Rightarrow> bool" where
  "reuse_ok r = (case r of None \<Rightarrow> True | Some v \<Rightarrow> vec_ok v)"

lemma vector_reuse_room:
  assumes "reuse_ok r"
  shows "n \<le> allocated (if allocated (vector_reuse r) < n then vector_resize n (vector_reuse r) else vector_reuse r)
    \<and> vec_ok (if allocated (vector_reuse r) < n then vector_resize n (vector_reuse r) else vector_reuse r)"
proof (cases r)
  case None
  then show ?thesis unfolding vector_reuse_def using vec.new_room [of n] by (simp only: option.case)
next
  case (Some v)
  with assms have "vec_ok v" by (simp add: reuse_ok_def)
  then show ?thesis
    unfolding Some vector_reuse_def option.case by (rule vec.cleared_room)
qed

lemma cvector_reuse_room:
  assumes "reuse_ok r"
  shows "n \<le> allocated (if allocated (cvector_reuse r) < n then cvector_resize n (cvector_reuse r) else cvector_reuse r)
    \<and> vec_ok (if allocated (cvector_reuse r) < n then cvector_resize n (cvector_reuse r) else cvector_reuse r)"
proof (cases r)
  case None
  then show ?thesis unfolding cvector_reuse_def using cvec.new_room [of n] by (simp only: option.case)
next
  case (Some v)
  with assms have "vec_ok v" by (simp add: reuse_ok_def)
  then show ?thesis
    unfolding Some cvector_reuse_def option.case by (rule cvec.cleared_room)
qed

lemma vec_ok_length: "vec_ok v \<Longrightarrow> length (strings v) = allocated v"
  by (simp add: vec_ok_def)

lemma vector_split_refines:
  assumes "reuse_ok r"
  shows "\<exists>v. vector_split s sep r = Inr v \<and> vec_ok v \<and> vec_list v = split_on sep s"
proof -
  let ?w = "vector_reuse r" and ?n = "split_count s sep"
  let ?v = "if allocated ?w < ?n then vector_resize ?n ?w else ?w"
  have v: "?n \<le> allocated ?v" "vec_ok ?v" using vector_reuse_room [OF assms] by auto
  then have loop: "vector_split_loop sep s [] 0 ?v = Inr (?n, store 0 (pieces sep [] s) ?v)"
    using vector_split_loop_ok [of 0 sep "[]" s ?v] by (simp add: split_count_pieces vec_ok_length)
  have "vector_split s sep r = Inr ((store 0 (pieces sep [] s) ?v)\<lparr>count := ?n\<rparr>)"
    unfolding vector_split_def Let_def loop by simp
  then show ?thesis
    using store_result [OF v(2), of "pieces sep [] s"] v(1)
    unfolding split_count_pieces split_on_def by auto
qed

lemma vector_split_multi_refines:
  assumes "reuse_ok r"
  shows "\<exists>v. vector_split_multi s seps r = Inr v \<and> vec_ok v \<and> vec_list v = split_words seps s"
proof -
  let ?w = "vector_reuse r" and ?n = "split_multi_count s seps"
  let ?v = "if allocated ?w < ?n then vector_resize ?n ?w else ?w"
  have v: "?n \<le> allocated ?v" "vec_ok ?v" using vector_reuse_room [OF assms] by auto
  then have loop: "vector_split_multi_loop seps s [] 0 ?v = Inr (?n, store 0 (chunks seps [] s) ?v)"
    using vector_split_multi_loop_ok [of 0 seps "[]" s ?v]
    by (simp add: split_multi_count_chunks vec_ok_length)
  have "vector_split_multi s seps r = Inr ((store 0 (chunks seps [] s) ?v)\<lparr>count := ?n\<rparr>)"
    unfolding vector_split_multi_def Let_def loop by simp
  then show ?thesis
    using store_result [OF v(2), of "chunks seps [] s"] v(1)
    unfolding split_multi_count_chunks chunks_split_words by auto
qed

text \<open>In place: the offsets stored read back as the pieces.\<close>

definition at_offsets :: "string \<Rightarrow> nat list \<Rightarrow> string list" where
  "at_offsets buf offs = map (\<lambda>off. c_string (drop off buf)) offs"

lemma c_string_terminated:
  "nul_free seg \<Longrightarrow> c_string (seg @ NUL # rest) = seg" "nul_free seg \<Longrightarrow> c_string seg = seg"
  by (auto simp: c_string_def nul_free_def takeWhile_append takeWhile_no)

lemma seg_at:
  assumes "take (Suc p) buf' = take p buf @ [NUL]" "start \<le> p" "p < length buf"
    and "nul_free (drop start (take p buf))"
  shows "c_string (drop start buf') = drop start (take p buf)"
proof -
  have "buf' = (take p buf @ [NUL]) @ drop (Suc p) buf'"
    by (metis append_take_drop_id assms(1))
  then have "drop start buf' = drop start (take p buf) @ NUL # drop (Suc p) buf'"
    using assms(2,3) by (metis (no_types, lifting) append.assoc append_Cons append_Nil drop_append
        diff_is_0_eq drop0 length_take less_imp_le min.absorb2)
  then show ?thesis using c_string_terminated assms(4) by metis
qed

lemma extend_seg:
  assumes "p < length buf" "start \<le> p"
  shows "drop start (take (Suc p) buf) = drop start (take p buf) @ [buf ! p]"
  using assms by (simp add: take_Suc_conv_app_nth)

lemma cut_seg:
  assumes "p < length buf" "take (Suc p) buf' = take (Suc p) (buf[p := NUL])"
  shows "take (Suc p) buf' = take p buf @ [NUL]" "take p buf' = take p buf"
proof -
  show *: "take (Suc p) buf' = take p buf @ [NUL]"
    using assms by (simp add: take_Suc_conv_app_nth)
  from assms(1) have "take p (take (Suc p) buf') = take p (take p buf @ [NUL])" unfolding * by simp
  then show "take p buf' = take p buf" using assms(1) by (simp add: min_def)
qed

lemma nul_free_around:
  assumes "nul_free (drop start buf)" "start \<le> p" "p < length buf"
  shows "buf ! p \<noteq> NUL" "nul_free (drop (Suc p) buf)" "nul_free (drop start (take p buf))"
proof -
  have d: "drop p buf = buf ! p # drop (Suc p) buf" using assms(3) by (simp add: Cons_nth_drop_Suc)
  have "nul_free (drop p buf)"
    using assms(1,2) by (metis drop_drop le_add_diff_inverse2 nul_free_sub set_drop_subset)
  then show "buf ! p \<noteq> NUL" "nul_free (drop (Suc p) buf)" by (auto simp: d nul_free_def)
  show "nul_free (drop start (take p buf))"
    using assms(1) by (metis drop_take nul_free_sub set_take_subset)
qed

lemma kept_prefix: "take (Suc p) b = take (Suc p) buf \<Longrightarrow> take p b = take p buf"
  by (drule arg_cong [of _ _ "take p"]) (simp add: min_def)

text \<open>The piece in front of a separator that was overwritten, in whatever buffer keeps that part.\<close>

lemma cut_piece:
  assumes "take (Suc p) buf' = take (Suc p) (buf[p := NUL])" "nul_free (drop start buf)" "start \<le> p" "p < length buf"
  shows "c_string (drop start buf') = drop start (take p buf)"
  using seg_at [OF cut_seg(1) [OF assms(4,1)] assms(3,4)] nul_free_around(3) [OF assms(2-4)] by blast

lemma cvector_split_loop_ok:
  assumes "start \<le> p" "p \<le> length buf" "nul_free (drop start buf)"
    and "i + length (pieces sep (drop start (take p buf)) (drop p buf)) \<le> length (strings v)"
  shows "\<exists>buf' offs. cvector_split_loop sep buf p start i v = Inr (buf', i + length offs, store i offs v)
           \<and> take p buf' = take p buf \<and> length buf' = length buf
           \<and> at_offsets buf' offs = pieces sep (drop start (take p buf)) (drop p buf)"
  using assms
proof (induction sep buf p start i v rule: cvector_split_loop.induct)
  case (1 sep buf p start i v)
  show ?case
  proof (cases "p < length buf")
    case False
    then have "c_string (drop start buf) = drop start buf" "p = length buf"
      using c_string_terminated(2) "1.prems" by auto
    then show ?thesis
      using "1.prems" by (intro exI [of _ buf] exI [of _ "[start]"])
        (simp add: cvector_split_loop.simps [of sep buf "length buf"] put_slot_store at_offsets_def)
  next
    case True
    have d: "drop p buf = buf ! p # drop (Suc p) buf" using True by (simp add: Cons_nth_drop_Suc)
    note nn = nul_free_around(1) [OF "1.prems"(3,1) True] and tail = nul_free_around(2) [OF "1.prems"(3,1) True]
    show ?thesis
    proof (cases "buf ! p = sep")
      case False
      have "nul_free (drop start buf)" using "1.prems"(3) .
      from "1.IH"(2) [OF conjI [OF True nn] False _ _ this] "1.prems" True False d extend_seg [OF True "1.prems"(1)]
      obtain buf' offs where
        *: "cvector_split_loop sep buf (Suc p) start i v = Inr (buf', i + length offs, store i offs v)"
           "take (Suc p) buf' = take (Suc p) buf" "length buf' = length buf"
           "at_offsets buf' offs = pieces sep (drop start (take p buf) @ [buf ! p]) (drop (Suc p) buf)"
        by (auto simp: Suc_le_eq)
      with True False nn d kept_prefix [OF *(2)] show ?thesis
        by (intro exI [of _ buf'] exI [of _ offs]) (simp add: cvector_split_loop.simps [of sep buf p])
    next
      case sep: True
      let ?b = "buf[p := NUL]" and ?v = "store i [start] v"
      have i: "i < length (strings v)" using "1.prems"(4) d sep by simp
      have len: "Suc i + length (pieces sep [] (drop (Suc p) buf)) \<le> length (strings ?v)"
        using "1.prems"(4) d sep i by simp
      from tail have "nul_free (drop (Suc p) ?b)" by simp
      with "1.IH"(1) [OF conjI [OF True nn] sep, of ?v] put_slot_store [OF i, of start] len True obtain buf' offs where
        *: "cvector_split_loop sep ?b (Suc p) (Suc p) (Suc i) ?v
              = Inr (buf', Suc i + length offs, store (Suc i) offs ?v)"
           "take (Suc p) buf' = take (Suc p) ?b" "length buf' = length buf"
           "at_offsets buf' offs = pieces sep [] (drop (Suc p) buf)"
        by auto
      with cut_piece [OF *(2) "1.prems"(3,1) True] i True sep nn d cut_seg(2) [OF True *(2)] show ?thesis
        by (intro exI [of _ buf'] exI [of _ "start # offs"])
           (simp add: cvector_split_loop.simps [of sep buf p] put_slot_store store_store at_offsets_def)
    qed
  qed
qed

lemma cvector_split_multi_loop_ok:
  assumes "start \<le> p" "p \<le> length buf" "nul_free (drop start buf)"
    and "i + length (chunks seps (drop start (take p buf)) (drop p buf)) \<le> length (strings v)"
  shows "\<exists>buf' offs. cvector_split_multi_loop seps buf p start i v
             = Inr (buf', i + length offs, store i offs v)
           \<and> take p buf' = take p buf \<and> length buf' = length buf
           \<and> at_offsets buf' offs = chunks seps (drop start (take p buf)) (drop p buf)"
  using assms
proof (induction seps buf p start i v rule: cvector_split_multi_loop.induct)
  case (1 seps buf p start i v)
  have seg: "drop start (take p buf) = [] \<longleftrightarrow> start = p" using "1.prems"(1,2) by auto
  show ?case
  proof (cases "p < length buf")
    case False
    then have "c_string (drop start buf) = drop start buf" "p = length buf"
      using c_string_terminated(2) "1.prems" by auto
    then show ?thesis
      using "1.prems" by (intro exI [of _ buf] exI [of _ "if start = p then [] else [start]"])
        (cases "start = length buf", simp_all add: cvector_split_multi_loop.simps [of seps buf p]
            cvector_split_multi_loop.simps [of seps buf "length buf"] put_slot_store at_offsets_def)
  next
    case True
    have d: "drop p buf = buf ! p # drop (Suc p) buf" using True by (simp add: Cons_nth_drop_Suc)
    note nn = nul_free_around(1) [OF "1.prems"(3,1) True] and tail = nul_free_around(2) [OF "1.prems"(3,1) True]
    consider (word) "buf ! p \<notin> set seps" | (skip) "buf ! p \<in> set seps" "start = p"
      | (cut) "buf ! p \<in> set seps" "start \<noteq> p" by blast
    then show ?thesis
    proof cases
      case word
      from "1.IH"(3) [OF conjI [OF True nn] _ _ _ "1.prems"(3)] "1.prems" True word d
        extend_seg [OF True "1.prems"(1)]
      obtain buf' offs where
        *: "cvector_split_multi_loop seps buf (Suc p) start i v = Inr (buf', i + length offs, store i offs v)"
           "take (Suc p) buf' = take (Suc p) buf" "length buf' = length buf"
           "at_offsets buf' offs = chunks seps (drop start (take p buf) @ [buf ! p]) (drop (Suc p) buf)"
        by (auto simp: Suc_le_eq)
      with True word nn d kept_prefix [OF *(2)] show ?thesis
        by (intro exI [of _ buf'] exI [of _ offs])
           (simp add: cvector_split_multi_loop.simps [of seps buf p])
    next
      case skip
      from "1.IH"(2) [OF conjI [OF True nn]] skip "1.prems" True d tail
      obtain buf' offs where
        *: "cvector_split_multi_loop seps buf (Suc p) (Suc p) i v = Inr (buf', i + length offs, store i offs v)"
           "take (Suc p) buf' = take (Suc p) buf" "length buf' = length buf"
           "at_offsets buf' offs = chunks seps [] (drop (Suc p) buf)"
        by (auto simp: Suc_le_eq)
      with True skip nn d kept_prefix [OF *(2)] show ?thesis
        by (intro exI [of _ buf'] exI [of _ offs])
           (simp add: cvector_split_multi_loop.simps [of seps buf p])
    next
      case cut
      let ?b = "buf[p := NUL]" and ?v = "store i [start] v"
      have i: "i < length (strings v)" using "1.prems"(1,4) True d cut seg by simp
      have len: "Suc i + length (chunks seps [] (drop (Suc p) buf)) \<le> length (strings ?v)"
        using "1.prems"(4) d cut i seg by simp
      from tail have "nul_free (drop (Suc p) ?b)" by simp
      with "1.IH"(1) [OF conjI [OF True nn] _ cut(2), of ?v] put_slot_store [OF i, of start] cut len True obtain buf' offs where
        *: "cvector_split_multi_loop seps ?b (Suc p) (Suc p) (Suc i) ?v
              = Inr (buf', Suc i + length offs, store (Suc i) offs ?v)"
           "take (Suc p) buf' = take (Suc p) ?b" "length buf' = length buf"
           "at_offsets buf' offs = chunks seps [] (drop (Suc p) buf)"
        by auto
      with cut_piece [OF *(2) "1.prems"(3,1) True] i True cut nn d seg cut_seg(2) [OF True *(2)] show ?thesis
        by (intro exI [of _ buf'] exI [of _ "start # offs"])
           (simp add: cvector_split_multi_loop.simps [of seps buf p] put_slot_store store_store
             at_offsets_def)
    qed
  qed
qed

lemma cvector_split_refines:
  assumes "reuse_ok r" "nul_free s"
  shows "\<exists>buf v. cvector_split s sep r = Inr (buf, v) \<and> vec_ok v \<and> length buf = length s
           \<and> at_offsets buf (vec_list v) = split_on sep s"
proof -
  let ?w = "cvector_reuse r" and ?n = "split_count s sep"
  let ?v = "if allocated ?w < ?n then cvector_resize ?n ?w else ?w"
  have v: "?n \<le> allocated ?v" "vec_ok ?v" using cvector_reuse_room [OF assms(1)] by auto
  then obtain buf offs where
    loop: "cvector_split_loop sep s 0 0 0 ?v = Inr (buf, length offs, store 0 offs ?v)"
    and b: "length buf = length s" "at_offsets buf offs = split_on sep s"
    using cvector_split_loop_ok [of 0 0 s 0 sep ?v] assms(2)
    by (auto simp: split_count_pieces vec_ok_length split_on_def)
  have "length offs = ?n"
    using arg_cong [OF b(2), of length] by (simp add: at_offsets_def split_count_pieces split_on_def)
  then have *: "length offs \<le> allocated ?v" using v(1) by simp
  have "cvector_split s sep r = Inr (buf, (store 0 offs ?v)\<lparr>count := length offs\<rparr>)"
    unfolding cvector_split_def Let_def loop by simp
  then show ?thesis using store_result [OF v(2) *] b by metis
qed

lemma cvector_split_multi_refines:
  assumes "reuse_ok r" "nul_free s"
  shows "\<exists>buf v. cvector_split_multi s seps r = Inr (buf, v) \<and> vec_ok v \<and> length buf = length s
           \<and> at_offsets buf (vec_list v) = split_words seps s"
proof -
  let ?w = "cvector_reuse r" and ?n = "split_multi_count s seps"
  let ?v = "if allocated ?w < ?n then cvector_resize ?n ?w else ?w"
  have v: "?n \<le> allocated ?v" "vec_ok ?v" using cvector_reuse_room [OF assms(1)] by auto
  then obtain buf offs where
    loop: "cvector_split_multi_loop seps s 0 0 0 ?v = Inr (buf, length offs, store 0 offs ?v)"
    and b: "length buf = length s" "at_offsets buf offs = split_words seps s"
    using cvector_split_multi_loop_ok [of 0 0 s 0 seps ?v] assms(2)
    by (auto simp: split_multi_count_chunks vec_ok_length chunks_split_words)
  have "length offs = ?n"
    using arg_cong [OF b(2), of length]
    by (simp add: at_offsets_def split_multi_count_chunks chunks_split_words)
  then have *: "length offs \<le> allocated ?v" using v(1) by simp
  have "cvector_split_multi s seps r = Inr (buf, (store 0 offs ?v)\<lparr>count := length offs\<rparr>)"
    unfolding cvector_split_multi_def Let_def loop by simp
  then show ?thesis using store_result [OF v(2) *] b by metis
qed

subsection \<open>Joining and executing\<close>

primrec join :: "string \<Rightarrow> string list \<Rightarrow> string" where
  "join sep [] = []"
| "join sep (s # ss) = (if ss = [] then s else s @ sep @ join sep ss)"

definition total_length :: "string list \<Rightarrow> nat" where
  "total_length ss = sum_list (map length ss)"

lemma total_length_Cons [simp]: "total_length [] = 0" "total_length (s # ss) = length s + total_length ss"
  by (simp_all add: total_length_def)

lemma length_join: "ss \<noteq> [] \<Longrightarrow> length (join sep ss) = total_length ss + (length ss - 1) * length sep"
proof (induction ss)
  case (Cons s ss)
  then show ?case by (cases ss) (simp_all add: algebra_simps)
qed simp

lemma join_size_loop_ok:
  "n + total_length ss + extra \<le> SIZE_MAX \<Longrightarrow> join_size_loop extra ss n = Inr (n + total_length ss)"
proof (induction ss arbitrary: n)
  case (Cons s ss)
  have "length s + extra < 2 ^ 64" using Cons.prems by (simp add: SIZE_MAX_def)
  with Cons.prems Cons.IH [of "n + length s"] show ?case by simp
qed simp

lemma join_copy_step:
  "length (out @ (if first then [] else sep) @ s) < alloc \<Longrightarrow>
     join_copy_loop sep alloc (s # ss) first out
       = join_copy_loop sep alloc ss False (out @ (if first then [] else sep) @ s)"
  by (cases first) (simp_all add: Let_def)

lemma join_copy_loop_ok:
  "ss \<noteq> [] \<Longrightarrow> length (out @ (if first then [] else sep) @ join sep ss) < alloc \<Longrightarrow>
   join_copy_loop sep alloc ss first out = Inr (out @ (if first then [] else sep) @ join sep ss)"
proof (induction ss arbitrary: first out)
  case (Cons s ss)
  show ?case
  proof (cases "ss = []")
    case True
    then show ?thesis using Cons.prems join_copy_step [of out first sep s alloc "[]"] by simp
  next
    case False
    let ?g = "if first then [] else sep"
    have "join_copy_loop sep alloc (s # ss) first out = join_copy_loop sep alloc ss False (out @ ?g @ s)"
      using join_copy_step [of out first sep s alloc ss] Cons.prems False by simp
    then show ?thesis using Cons.IH [OF False, of "out @ ?g @ s" False] Cons.prems False by simp
  qed
qed simp

lemma join_with_ok:
  assumes "total_length ss + length sep * length ss + extra + 1 < SIZE_MAX"
  shows "join_with extra ss sep = Inr (join sep ss)"
proof (cases "ss = []")
  case False
  let ?gap = "(length ss - 1) * length sep + 1"
  obtain m where m: "m = (length ss - 1) * length sep" by simp
  then have "m \<le> length sep * length ss" by (simp add: mult.commute)
  then have g: "?gap < 2 ^ 64" "SIZE_MAX - total_length ss \<ge> ?gap" "total_length ss + ?gap = Suc (length (join sep ss))"
    using assms length_join [OF False, of sep] unfolding m [symmetric] SIZE_MAX_def by linarith+
  have "join_size_loop extra ss 0 = Inr (total_length ss)"
    using join_size_loop_ok [of 0 ss extra] assms by simp
  moreover have "join_copy_loop sep (total_length ss + ?gap) ss True [] = Inr (join sep ss)"
    using join_copy_loop_ok [OF False, of "[]" True] unfolding g(3) by simp
  ultimately show ?thesis using False g(1,2) by (simp add: join_with_def Let_def)
qed (simp add: join_with_def)

lemma vector_join_refines:
  assumes "total_length (vec_list v) + length sep * (length (vec_list v) + 1) + 2 < SIZE_MAX"
  shows "vector_join v sep = Inr (join sep (vec_list v))"
    and "cvector_join v sep = Inr (join sep (vec_list v))"
proof -
  have "length sep + 1 < 2 ^ 64" using assms by (simp add: SIZE_MAX_def)
  then have e: "size_add (length sep) 1 = length sep + 1" by (rule size_add_small)
  show "vector_join v sep = Inr (join sep (vec_list v))"
    unfolding vector_join_def e by (rule join_with_ok) (use assms in simp)
  show "cvector_join v sep = Inr (join sep (vec_list v))"
    unfolding cvector_join_def by (rule join_with_ok) (use assms in simp)
qed

lemma exec_argv_ok:
  assumes "vec_ok v" "count v < allocated v"
  shows "exec_argv ((strings v)[count v := None]) = vec_list v"
proof -
  have l: "count v < length (strings v)" using assms by (simp add: vec_ok_def)
  have "\<forall>x \<in> set (take (count v) (strings v)). x \<noteq> None" using assms(1) unfolding vec_ok_def by metis
  then show ?thesis
    unfolding exec_argv_def vec_list_def upd_conv_take_nth_drop [OF l]
    by (subst takeWhile_append2) auto
qed

lemma pieces_not_Nil [simp]: "pieces sep seg s \<noteq> []"
  by (induction s arbitrary: seg) auto

lemma join_split: "join [sep] (pieces sep seg s) = seg @ s"
proof (induction s arbitrary: seg)
qed simp_all

lemma pieces_clean: "x \<in> set (pieces sep seg s) \<Longrightarrow> sep \<notin> set seg \<Longrightarrow> sep \<notin> set x"
proof (induction s arbitrary: seg)
  case (Cons c s)
  show ?case
    using Cons.prems Cons.IH [of "[]"] Cons.IH [of "seg @ [c]"] by (auto split: if_splits)
qed simp

lemma pieces_of_join:
  "ss \<noteq> [] \<Longrightarrow> \<forall>x \<in> set ss. sep \<notin> set x \<Longrightarrow> pieces sep seg (join [sep] ss) = (seg @ hd ss) # tl ss"
proof (induction ss arbitrary: seg)
  case (Cons x ss)
  have step: "sep \<notin> set x \<Longrightarrow> pieces sep seg (x @ r) = pieces sep (seg @ x) r" for r and x seg
    by (induction x arbitrary: seg) auto
  from Cons show ?case by (cases ss) (auto simp: step step [of _ _ "[]", simplified])
qed simp

text \<open>Words joined by a separator split into the same words.\<close>

lemma split_words_word:
  assumes "w \<noteq> []" "set w \<inter> set seps = {}" "rest = [] \<or> hd rest \<in> set seps"
  shows "split_words seps (w @ rest) = w # split_words seps rest"
proof -
  obtain c v where w: "w = c # v" using assms(1) by (cases w) auto
  have "takeWhile (\<lambda>c. c \<notin> set seps) (v @ rest) = v"
    "dropWhile (\<lambda>c. c \<notin> set seps) (v @ rest) = rest"
  proof -
    have v: "\<forall>x \<in> set v. x \<notin> set seps" using assms(2) w by auto
    from assms(3) have "takeWhile (\<lambda>c. c \<notin> set seps) rest = []" "dropWhile (\<lambda>c. c \<notin> set seps) rest = rest"
      by (cases rest; simp)+
    with v show "takeWhile (\<lambda>c. c \<notin> set seps) (v @ rest) = v"
      "dropWhile (\<lambda>c. c \<notin> set seps) (v @ rest) = rest"
      by (simp_all add: takeWhile_append2 dropWhile_append2)
  qed
  then show ?thesis using assms(2) w by (simp add: split_words_simps(3))
qed

lemma split_words_join:
  assumes "\<forall>w \<in> set ws. w \<noteq> [] \<and> set w \<inter> set seps = {}" "sep \<in> set seps"
  shows "split_words seps (join [sep] ws) = ws"
  using assms(1)
proof (induction ws)
  case (Cons w ws)
  then show ?case
    using split_words_word [of w seps "[]"] split_words_word [of w seps "sep # join [sep] ws"] assms(2)
    by (cases ws) (auto simp: split_words_simps)
qed (simp add: split_words_simps)

subsection \<open>Properties\<close>



text \<open>
  \<open>vector_split_multi\<close> returns the words of the string (maximal runs of
  other characters), and the in-place \<open>cvector_split_multi\<close> returns offsets
  at which the modified buffer reads as the same words; neither leaves the
  table.
\<close>

theorem split_multi_words:
  assumes "reuse_ok r" "reuse_ok cr" "nul_free s"
  shows "\<exists>v buf cv. vector_split_multi s seps r = Inr v
           \<and> cvector_split_multi s seps cr = Inr (buf, cv)
           \<and> vec_list v = split_words seps s \<and> at_offsets buf (vec_list cv) = split_words seps s
           \<and> length buf = length s"
  using vector_split_multi_refines [OF assms(1), of s seps]
    cvector_split_multi_refines [OF assms(2,3), of seps] by metis

theorem split_multi_words_witness:
  "\<exists>v buf cv. vector_split_multi '' ls  x'' '' '' None = Inr v
       \<and> cvector_split_multi '' ls  x'' '' '' None = Inr (buf, cv)
       \<and> vec_list v = [''ls'', ''x''] \<and> at_offsets buf (vec_list cv) = [''ls'', ''x'']
       \<and> length buf = length '' ls  x''"
proof -
  have "split_words '' '' '' ls  x'' = [''ls'', ''x'']" by (simp add: split_words.simps)
  with split_multi_words [of None None "'' ls  x''" "'' ''"] show ?thesis
    by (simp add: reuse_ok_def)
qed

text \<open>
  \<open>vector_join\<close> passes its own overflow assertions, stays inside the
  buffer it allocates and returns the strings joined by the separator, as long
  as the result fits in memory; and \<open>vector_exec\<close> hands \<open>execv\<close> exactly the
  strings of the vector.
\<close>

theorem vector_join_exec_exact:
  assumes "vec_ok v"
    and "total_length (vec_list v) + length sep * (length (vec_list v) + 1) + 2 < SIZE_MAX"
  shows "vector_join v sep = Inr (join sep (vec_list v))
         \<and> cvector_join v sep = Inr (join sep (vec_list v))
         \<and> (\<exists>w. vector_exec v = Inr (vec_list v, w))"
proof -
  have "count v \<le> allocated v" using assms(1) by (simp add: vec_ok_def)
  moreover obtain w where w: "w = (if allocated v = count v then vector_resize (count v + 1) v else v)"
    by simp
  ultimately have "vec_ok w" "vec_list w = vec_list v" "count w < allocated w"
    using assms(1) grow_one [OF assms(1)] by (auto split: if_splits)
  then have "vector_exec v = Inr (vec_list v, w\<lparr>strings := (strings w)[count w := None]\<rparr>)"
    using exec_argv_ok [of w] w by (simp add: vector_exec_def Let_def put_slot_def vec_ok_def)
  then show ?thesis using vector_join_refines [OF assms(2)] by blast
qed

theorem vector_join_exec_exact_witness:
  "\<exists>v w. vector_add ''a'' vector_new = Inr v \<and> vector_join v ''; '' = Inr ''a''
         \<and> vector_exec v = Inr ([''a''], w)"
proof -
  obtain v where v: "vector_add ''a'' vector_new = Inr v" "vec_ok v" "vec_list v = [''a'']"
    using vec.add_ok [OF vec.new_ok(1), of "''a''"] by (auto simp: vec.new_ok(2))
  with vector_join_exec_exact [of v "''; ''"] show ?thesis by (auto simp: SIZE_MAX_def)
qed

end
