(* ===== verification/Include.thy ===== *)
theory Include
  imports Vector
begin

text \<open>
  What the configuration reader and the ACL checker of
  \<^verbatim>\<open>src/server/config.c\<close> share: the status codes, the file system, reading
  lines with \<open>fgets\<close>, and \<open>handle_include\<close>, which applies a function to a file
  or to every acceptable file of a directory.

  The file system is a parameter: a partial function from names to files and
  directories. The messages these functions log are not part of the model;
  their results are.
\<close>

subsection \<open>Status codes\<close>

datatype config_status = CONFIG_SUCCESS | CONFIG_NOMATCH | CONFIG_ERROR | CONFIG_DENY

primrec status_code :: "config_status \<Rightarrow> int" where
  "status_code CONFIG_SUCCESS = 0"
| "status_code CONFIG_NOMATCH = -1"
| "status_code CONFIG_ERROR = -2"
| "status_code CONFIG_DENY = -3"

text \<open>The codes are compared as integers, so their order is that of the type.\<close>

lemma status_code_inj: "status_code a = status_code b \<Longrightarrow> a = b"
  by (cases a; cases b) simp_all

instantiation config_status :: linorder
begin

definition less_eq_config_status :: "config_status \<Rightarrow> config_status \<Rightarrow> bool" where
  "less_eq_config_status a b \<longleftrightarrow> status_code a \<le> status_code b"

definition less_config_status :: "config_status \<Rightarrow> config_status \<Rightarrow> bool" where
  "less_config_status a b \<longleftrightarrow> status_code a < status_code b"

instance
  by standard
     (auto simp: less_eq_config_status_def less_config_status_def intro: status_code_inj)

end

lemma below_nomatch [simp]:
  "s < CONFIG_NOMATCH \<longleftrightarrow> s = CONFIG_ERROR \<or> s = CONFIG_DENY"
  "CONFIG_NOMATCH < s \<longleftrightarrow> s = CONFIG_SUCCESS"
  "CONFIG_SUCCESS < s \<longleftrightarrow> False"
  by (cases s; simp add: less_config_status_def)+

subsection \<open>Files\<close>

datatype node = File "bytes option" | Dir "string list option"

text \<open>
  What \<open>stat\<close>, \<open>fopen\<close>, \<open>opendir\<close> and \<open>readdir\<close> see: a name that does not
  exist has no node; a file that cannot be opened and a directory that cannot
  be read have no contents. Opening a readable directory succeeds, and reading
  from it fails at once, which \<open>fgets\<close> reports like the end of the file.
\<close>

type_synonym filesystem = "string \<Rightarrow> node option"

definition fopen_read :: "filesystem \<Rightarrow> string \<Rightarrow> bytes option" where
  "fopen_read fs name =
     (case fs name of
        None \<Rightarrow> None
      | Some (File c) \<Rightarrow> c
      | Some (Dir es) \<Rightarrow> map_option (\<lambda>_. []) es)"

text \<open>
  \<open>fgets(buf, n, file)\<close>: at most \<open>n - 1\<close> octets, up to and including the first
  newline; \<open>None\<close> at end of file. It is never called with \<open>n < 2\<close>.
\<close>

primrec read_line :: "nat \<Rightarrow> bytes \<Rightarrow> bytes \<times> bytes" where
  "read_line 0 s = ([], s)"
| "read_line (Suc n) s =
     (case s of
        [] \<Rightarrow> ([], [])
      | c # t \<Rightarrow> if c = NL then ([c], t) else (case read_line n t of (l, r) \<Rightarrow> (c # l, r)))"

definition fgets :: "nat \<Rightarrow> bytes \<Rightarrow> (bytes \<times> bytes) option" where
  "fgets n s = (if n < 2 \<or> s = [] then None else Some (read_line (n - 1) s))"

lemma read_line_append: "read_line n s = (l, r) \<Longrightarrow> s = l @ r \<and> length l \<le> n"
  by (induction n arbitrary: s l r) (auto split: list.splits if_splits prod.splits)

lemma fgets_Some:
  assumes "fgets n s = Some (l, r)"
  shows "s = l @ r \<and> l \<noteq> [] \<and> length l < n"
proof -
  from assms have n: "2 \<le> n" "s \<noteq> []" and r: "read_line (n - 1) s = (l, r)"
    by (auto simp: fgets_def split: if_splits)
  obtain m where m: "n - 1 = Suc m" using n(1) by (cases "n - 1") auto
  from r n(2) have "l \<noteq> []" unfolding m by (auto split: list.splits if_splits prod.splits)
  with read_line_append [OF r] n(1) show ?thesis by auto
qed

lemma fgets_less: "fgets n s = Some (l, r) \<Longrightarrow> length r < length s"
  using fgets_Some by fastforce

lemma read_line_NL: "NL \<notin> set l \<Longrightarrow> length l < n \<Longrightarrow> read_line n (l @ NL # r) = (l @ [NL], r)"
proof (induction l arbitrary: n)
  case Nil
  then show ?case by (cases n) simp_all
next
  case (Cons c l)
  then show ?case by (cases n) auto
qed

lemma fgets_NL:
  "NL \<notin> set l \<Longrightarrow> length l + 1 < n \<Longrightarrow> fgets n (l @ NL # r) = Some (l @ [NL], r)"
  using read_line_NL [of l "n - 1" r] by (simp add: fgets_def)

subsection \<open>Operations\<close>

primrec valid_filename :: "string \<Rightarrow> bool" where
  "valid_filename [] = True"
| "valid_filename (c # p) =
     (if isupper c then valid_filename p
      else if islower c then valid_filename p
      else if isdigit c then valid_filename p
      else if c = CHR ''_'' \<or> c = CHR ''-'' then valid_filename p
      else False)"

text \<open>
  The callback threads a state \<open>'s\<close> (the C code passes it a \<open>void *\<close>) and may
  fault. \<open>include_dir\<close> is the loop over the directory's entries.
\<close>

type_synonym 's include_fn = "'s \<Rightarrow> string \<Rightarrow> fault + config_status \<times> 's"

primrec include_dir ::
  "'s include_fn \<Rightarrow> string \<Rightarrow> string list \<Rightarrow> config_status \<Rightarrow> 's \<Rightarrow> fault + config_status \<times> 's" where
  "include_dir f dir [] status s = Inr (status, s)"
| "include_dir f dir (e # es) status s =
     (if \<not> valid_filename e then include_dir f dir es status s
      else ebind (f s (dir @ ''/'' @ e)) (\<lambda>(last, s1).
        if last < CONFIG_NOMATCH then Inr (last, s1)
        else include_dir f dir es (if last > status then last else status) s1))"

definition handle_include ::
  "filesystem \<Rightarrow> string \<Rightarrow> string \<Rightarrow> 's include_fn \<Rightarrow> 's \<Rightarrow> fault + config_status \<times> 's" where
  "handle_include fs included file f s =
     (if included = file then Inr (CONFIG_ERROR, s)
      else case fs included of
        None \<Rightarrow> Inr (CONFIG_ERROR, s)
      | Some (File _) \<Rightarrow> f s included
      | Some (Dir None) \<Rightarrow> Inr (CONFIG_ERROR, s)
      | Some (Dir (Some es)) \<Rightarrow> include_dir f included es CONFIG_NOMATCH s)"

subsection \<open>The contract of an include function\<close>

text \<open>
  A client gives \<open>handle_include\<close> a function that keeps an invariant of its
  state and faults only by running out of stack; including does the same. A
  function defined with more fuel is at least as defined, and so is including
  with it.
\<close>

definition safe_result :: "('s \<Rightarrow> bool) \<Rightarrow> fault + config_status \<times> 's \<Rightarrow> bool" where
  "safe_result ok r = (case r of Inl e \<Rightarrow> e = Stack_exhausted | Inr (st, s1) \<Rightarrow> ok s1)"

lemma safe_result_simps [simp]:
  "safe_result ok (Inl e) \<longleftrightarrow> e = Stack_exhausted"
  "safe_result ok (Inr (st, s)) \<longleftrightarrow> ok s"
  by (simp_all add: safe_result_def)

lemma safe_result_ebind:
  "safe_result ok m \<Longrightarrow> (\<And>st s. m = Inr (st, s) \<Longrightarrow> ok s \<Longrightarrow> safe_result ok (k (st, s))) \<Longrightarrow> safe_result ok (ebind m k)"
  by (cases m) auto

locale include_invariant =
  fixes f :: "'s include_fn" and ok :: "'s \<Rightarrow> bool"
  assumes f_keeps: "ok s \<Longrightarrow> safe_result ok (f s p)"
begin

lemma include_dir_keeps: "ok s \<Longrightarrow> safe_result ok (include_dir f d es st s)"
  by (induction es arbitrary: st s) (auto intro!: safe_result_ebind f_keeps)

lemma handle_include_keeps: "ok s \<Longrightarrow> safe_result ok (handle_include fs inc file f s)"
  by (auto simp: handle_include_def intro: f_keeps include_dir_keeps
      split: option.splits node.splits)

end

locale include_refined =
  fixes f f' :: "'s include_fn"
  assumes f_refined: "f s p = Inr r \<Longrightarrow> f' s p = Inr r"
begin

lemma include_dir_refined: "include_dir f d es st s = Inr r \<Longrightarrow> include_dir f' d es st s = Inr r"
proof (induction es arbitrary: st s)
  case (Cons e es)
  show ?case
  proof (cases "valid_filename e")
    case True
    with Cons.prems obtain l s1 where 1: "f s (d @ ''/'' @ e) = Inr (l, s1)"
      by (auto simp: exec split: prod.splits)
    then show ?thesis
      using Cons True f_refined [OF 1] by (auto split: if_splits)
  qed (use Cons in auto)
qed simp

lemma handle_include_refined:
  "handle_include fs inc file f s = Inr r \<Longrightarrow> handle_include fs inc file f' s = Inr r"
  by (auto simp: handle_include_def split: if_splits option.splits node.splits
      dest: f_refined include_dir_refined)

end

text \<open>
  What a directory yields: the first status that is an error or a denial, or
  else the best one. \<open>fs\<close> and the state do not matter to this, so it is stated
  for the statuses of the acceptable entries in order.
\<close>

primrec combine :: "config_status list \<Rightarrow> config_status \<Rightarrow> config_status" where
  "combine [] status = status"
| "combine (x # xs) status =
     (if x < CONFIG_NOMATCH then x else combine xs (max x status))"

lemma combine_success:
  "st \<ge> CONFIG_NOMATCH \<Longrightarrow> combine xs st = CONFIG_SUCCESS \<longleftrightarrow>
     (\<forall>x \<in> set xs. x \<ge> CONFIG_NOMATCH) \<and> (CONFIG_SUCCESS \<in> set xs \<or> st = CONFIG_SUCCESS)"
proof (induction xs arbitrary: st)
  case (Cons x xs)
  show ?case using Cons.prems Cons.IH [of "max x st"]
    by (cases x; cases st) (auto simp: max_def less_eq_config_status_def less_config_status_def)
qed auto

end
