(* ===== verification/Sockets.thy ===== *)
theory Sockets
  imports Prelude
begin

text \<open>
  Socket input and output: \<open>xwrite\<close> of \<^verbatim>\<open>src/util/xwrite.c\<close> and
  \<open>socket_xread\<close>, \<open>network_read\<close>, \<open>network_write\<close> of
  \<^verbatim>\<open>src/util/network.c\<close>.

  The kernel and the peer are the environment. They are a record of scripts:
  what each successive \<open>select\<close>, \<open>read\<close>, \<open>write\<close> and \<open>time\<close> on the
  descriptor returns. When a script runs out the peer has closed the
  connection: \<open>read\<close> returns 0, \<open>write\<close> fails with \<open>EPIPE\<close>,
  \<open>select\<close> reports the descriptor ready and the clock stands still. Every
  finite behaviour of the environment is such a script, and the loops below
  terminate on each of them because every round consumes a script entry.

  Two locales state what the callers rely on: \<open>full_reader\<close> (all the bytes or
  a failure, taken off the incoming stream in order) and \<open>full_writer\<close> (all
  the bytes or a failure after a strict prefix).
\<close>

subsection \<open>The environment\<close>

datatype errno = EPIPE | ECONNRESET | ETIMEDOUT | EINTR | EAGAIN | ENOMEM | EINVAL
  | EAFNOSUPPORT | EINPROGRESS | EOTHER nat

datatype sel_result = Sel_Ready | Sel_Timeout | Sel_Err errno
datatype rd_result = Rd_Data bytes | Rd_Err errno
datatype wr_result = Wr_Room nat | Wr_Err errno

record sock =
  sel :: "sel_result list"
  rd :: "rd_result list"
  wr :: "wr_result list"
  clock :: "int list"
  sent :: bytes
  socket_errno :: errno

definition sys_select :: "('z) sock_scheme \<Rightarrow> sel_result \<times> ('z) sock_scheme" where
  "sys_select s =
     (case sel s of
        [] \<Rightarrow> (Sel_Ready, s)
      | Sel_Err e # r \<Rightarrow> (Sel_Err e, s\<lparr>sel := r, socket_errno := e\<rparr>)
      | x # r \<Rightarrow> (x, s\<lparr>sel := r\<rparr>))"

definition sys_read :: "nat \<Rightarrow> ('z) sock_scheme \<Rightarrow> rd_result \<times> ('z) sock_scheme" where
  "sys_read n s =
     (case rd s of
        [] \<Rightarrow> (Rd_Data [], s)
      | Rd_Err e # r \<Rightarrow> (Rd_Err e, s\<lparr>rd := r, socket_errno := e\<rparr>)
      | Rd_Data bs # r \<Rightarrow>
          if length bs \<le> n then (Rd_Data bs, s\<lparr>rd := r\<rparr>)
          else (Rd_Data (take n bs), s\<lparr>rd := Rd_Data (drop n bs) # r\<rparr>))"

definition sys_write :: "bytes \<Rightarrow> ('z) sock_scheme \<Rightarrow> nat option \<times> ('z) sock_scheme" where
  "sys_write bs s =
     (case wr s of
        [] \<Rightarrow> (None, s\<lparr>socket_errno := EPIPE\<rparr>)
      | Wr_Err e # r \<Rightarrow> (None, s\<lparr>wr := r, socket_errno := e\<rparr>)
      | Wr_Room k # r \<Rightarrow> (Some (min k (length bs)), s\<lparr>wr := r, sent := sent s @ take k bs\<rparr>))"

definition sys_time :: "('z) sock_scheme \<Rightarrow> int \<Rightarrow> int \<times> ('z) sock_scheme" where
  "sys_time s now = (case clock s of [] \<Rightarrow> (now, s) | t # r \<Rightarrow> (t, s\<lparr>clock := r\<rparr>))"

lemmas sys_defs = sys_select_def sys_read_def sys_write_def sys_time_def
lemmas sys_splits = list.splits sel_result.splits rd_result.splits wr_result.splits if_splits

text \<open>What each system call leaves of the scripts; the measures below rest on these.\<close>

lemma sys_read_Data:
  "(Rd_Data bs, s1) = sys_read n s \<Longrightarrow>
     length bs \<le> n \<and> length (rd s1) \<le> length (rd s) \<and> sel s1 = sel s \<and> clock s1 = clock s"
  by (auto simp: sys_read_def split: sys_splits)

lemma sys_read_Err:
  "(Rd_Err e, s1) = sys_read n s \<Longrightarrow>
     length (rd s1) < length (rd s) \<and> sel s1 = sel s \<and> clock s1 = clock s"
  by (auto simp: sys_read_def split: sys_splits)

lemma sys_time_frame:
  "(t, s1) = sys_time s now \<Longrightarrow> sel s1 = sel s \<and> rd s1 = rd s \<and> wr s1 = wr s \<and> sent s1 = sent s"
  by (auto simp: sys_time_def split: sys_splits)

lemma sys_select_frame:
  "(r, s1) = sys_select s \<Longrightarrow>
     rd s1 = rd s \<and> wr s1 = wr s \<and> sent s1 = sent s \<and> length (sel s1) \<le> length (sel s)
     \<and> (r \<noteq> Sel_Ready \<longrightarrow> length (sel s1) < length (sel s))"
  by (auto simp: sys_select_def split: sys_splits)

lemma sys_write_Some:
  "(Some n, s1) = sys_write bs s \<Longrightarrow>
     n \<le> length bs \<and> sent s1 = sent s @ take n bs \<and> sel s1 = sel s \<and> length (wr s1) < length (wr s)"
  by (auto simp: sys_write_def min_def split: sys_splits)

lemma sys_write_None:
  "(None, s1) = sys_write bs s \<Longrightarrow>
     sent s1 = sent s \<and> sel s1 = sel s \<and> (socket_errno s1 = EINTR \<longrightarrow> length (wr s1) < length (wr s))"
  by (auto simp: sys_write_def split: sys_splits)

subsection \<open>Operations\<close>

text \<open>
  \<open>xwrite\<close>: the loop of \<^verbatim>\<open>xwrite.c\<close>, giving up after ten attempts without
  progress. \<open>rest\<close> is what is still to be written and \<open>count\<close> the number of
  attempts since the last progress; the result is whether everything was
  written (the C function returns \<open>total\<close> or -1).
\<close>

function xwrite_loop :: "bytes \<Rightarrow> nat \<Rightarrow> ('z) sock_scheme \<Rightarrow> bool \<times> ('z) sock_scheme" where
  "xwrite_loop rest count s =
     (if rest = [] then (True, s)
      else if Suc count > 10 then (False, s)
      else (case sys_write rest s of
              (Some n, s1) \<Rightarrow>
                if n > 0 then xwrite_loop (drop n rest) 0 s1
                else xwrite_loop rest (Suc count) s1
            | (None, s1) \<Rightarrow>
                if socket_errno s1 \<noteq> EINTR then (False, s1)
                else xwrite_loop rest (Suc count) s1))"
  by pat_completeness auto
termination
  by (relation "measure (\<lambda>(rest, count, s). length (wr s))")
     (auto dest!: sys_write_Some sys_write_None)

definition xwrite :: "bytes \<Rightarrow> ('z) sock_scheme \<Rightarrow> bool \<times> ('z) sock_scheme" where
  "xwrite buffer s = (if buffer = [] then (True, s) else xwrite_loop buffer 0 s)"

text \<open>
  \<open>socket_xread\<close>: \<open>acc\<close> is what has been read, \<open>status0\<close> whether the last
  \<open>status\<close> was 0 (it is initially). On end of file, or after a hundred
  attempts without progress, \<open>errno\<close> becomes \<open>EPIPE\<close>.
\<close>

definition xread_end :: "nat \<Rightarrow> bool \<Rightarrow> bytes \<Rightarrow> ('z) sock_scheme \<Rightarrow> bool \<times> bytes \<times> ('z) sock_scheme" where
  "xread_end n status0 acc s =
     (n \<le> length acc, acc, if status0 \<and> length acc < n then s\<lparr>socket_errno := EPIPE\<rparr> else s)"

function socket_xread_loop ::
  "nat \<Rightarrow> nat \<Rightarrow> bool \<Rightarrow> bytes \<Rightarrow> ('z) sock_scheme \<Rightarrow> bool \<times> bytes \<times> ('z) sock_scheme" where
  "socket_xread_loop n count status0 acc s =
     (if n \<le> length acc then xread_end n status0 acc s
      else if Suc count > 100 then xread_end n status0 acc s
      else (case sys_read (n - length acc) s of
              (Rd_Data bs, s1) \<Rightarrow>
                if bs \<noteq> [] then socket_xread_loop n 0 False (acc @ bs) s1
                else xread_end n True acc s1
            | (Rd_Err e, s1) \<Rightarrow>
                if e \<noteq> EINTR \<and> e \<noteq> EAGAIN then xread_end n False acc s1
                else socket_xread_loop n (Suc count) True acc s1))"
  by pat_completeness auto
termination
proof (relation "measure (\<lambda>(n, count, z, acc, s). (n - length acc) + length (rd s))")
qed (auto dest!: sys_read_Data sys_read_Err simp: neq_Nil_conv)

definition socket_xread :: "nat \<Rightarrow> ('z) sock_scheme \<Rightarrow> bool \<times> bytes \<times> ('z) sock_scheme" where
  "socket_xread n s = socket_xread_loop n 0 True [] s"

text \<open>
  The timed loop of \<open>network_read\<close>. After \<open>EINTR\<close> the \<open>continue\<close> of the
  source jumps to the loop condition without reading the clock again.
\<close>

function network_read_loop ::
  "int \<Rightarrow> int \<Rightarrow> int \<Rightarrow> nat \<Rightarrow> bytes \<Rightarrow> ('z) sock_scheme \<Rightarrow> bool \<times> bytes \<times> ('z) sock_scheme" where
  "network_read_loop timeout start now len got s =
     (case sys_select s of
        (Sel_Err e, s1) \<Rightarrow>
          if e = EINTR then
            (if now - start < timeout then network_read_loop timeout start now len got s1
             else (False, got, s1\<lparr>socket_errno := ETIMEDOUT\<rparr>))
          else (False, got, s1)
      | (Sel_Timeout, s1) \<Rightarrow> (False, got, s1\<lparr>socket_errno := ETIMEDOUT\<rparr>)
      | (Sel_Ready, s1) \<Rightarrow>
          (case sys_read (len - length got) s1 of
             (Rd_Err e, s2) \<Rightarrow>
               if e = EINTR then
                 (if now - start < timeout then network_read_loop timeout start now len got s2
                  else (False, got, s2\<lparr>socket_errno := ETIMEDOUT\<rparr>))
               else (False, got, s2)
           | (Rd_Data bs, s2) \<Rightarrow>
               if bs = [] then (False, got, s2\<lparr>socket_errno := EPIPE\<rparr>)
               else if length (got @ bs) = len then (True, got @ bs, s2)
               else
                 let (now', s3) = sys_time s2 now
                 in if now' - start < timeout
                    then network_read_loop timeout start now' len (got @ bs) s3
                    else (False, got @ bs, s3\<lparr>socket_errno := ETIMEDOUT\<rparr>)))"
  by pat_completeness auto
termination
proof (relation "measure (\<lambda>(timeout, start, now, len, got, s).
                   length (sel s) + length (rd s) + (len - length got))")
qed (auto dest!: sys_read_Data sys_read_Err sys_select_frame sys_time_frame simp: neq_Nil_conv)

definition network_read :: "nat \<Rightarrow> int \<Rightarrow> ('z) sock_scheme \<Rightarrow> bool \<times> bytes \<times> ('z) sock_scheme" where
  "network_read len timeout s =
     (if timeout = 0 then socket_xread len s
      else let (start, s1) = sys_time s 0
           in network_read_loop timeout start start len [] s1)"

function network_write_loop ::
  "int \<Rightarrow> int \<Rightarrow> int \<Rightarrow> bytes \<Rightarrow> ('z) sock_scheme \<Rightarrow> bool \<times> ('z) sock_scheme" where
  "network_write_loop timeout start now rest s =
     (case sys_select s of
        (Sel_Err e, s1) \<Rightarrow>
          if e = EINTR then
            (if now - start < timeout then network_write_loop timeout start now rest s1
             else (False, s1\<lparr>socket_errno := ETIMEDOUT\<rparr>))
          else (False, s1)
      | (Sel_Timeout, s1) \<Rightarrow> (False, s1\<lparr>socket_errno := ETIMEDOUT\<rparr>)
      | (Sel_Ready, s1) \<Rightarrow>
          (case sys_write rest s1 of
             (None, s2) \<Rightarrow>
               if socket_errno s2 = EINTR then
                 (if now - start < timeout then network_write_loop timeout start now rest s2
                  else (False, s2\<lparr>socket_errno := ETIMEDOUT\<rparr>))
               else (False, s2)
           | (Some n, s2) \<Rightarrow>
               if n = length rest then (True, s2)
               else
                 let (now', s3) = sys_time s2 now
                 in if now' - start < timeout
                    then network_write_loop timeout start now' (drop n rest) s3
                    else (False, s3\<lparr>socket_errno := ETIMEDOUT\<rparr>)))"
  by pat_completeness auto
termination
proof (relation "measure (\<lambda>(timeout, start, now, rest, s). length (sel s) + length (wr s))")
qed (auto dest!: sys_write_Some sys_write_None sys_select_frame sys_time_frame)

definition network_write :: "bytes \<Rightarrow> int \<Rightarrow> ('z) sock_scheme \<Rightarrow> bool \<times> ('z) sock_scheme" where
  "network_write buffer timeout s =
     (if timeout = 0 then xwrite buffer s
      else let (start, s1) = sys_time s 0
           in network_write_loop timeout start start buffer s1)"

declare xwrite_loop.simps [simp del] socket_xread_loop.simps [simp del]
  network_read_loop.simps [simp del] network_write_loop.simps [simp del]


subsection \<open>What a read or a write may touch\<close>

text \<open>
  \<open>incoming\<close> is the stream of bytes a read script delivers. A read touches
  only the incoming scripts, the clock and \<open>errno\<close>; a write only the
  outgoing script, the clock, \<open>errno\<close> and the bytes sent.
\<close>

fun incoming :: "rd_result list \<Rightarrow> bytes" where
  "incoming [] = []"
| "incoming (Rd_Data bs # r) = bs @ incoming r"
| "incoming (Rd_Err e # r) = incoming r"

definition rd_frame :: "('z) sock_scheme \<Rightarrow> ('z) sock_scheme \<Rightarrow> bool" where
  "rd_frame s s1 \<longleftrightarrow>
     s1 = s\<lparr>sel := sel s1, rd := rd s1, clock := clock s1, socket_errno := socket_errno s1\<rparr>"

definition wr_frame :: "('z) sock_scheme \<Rightarrow> ('z) sock_scheme \<Rightarrow> bool" where
  "wr_frame s s1 \<longleftrightarrow>
     s1 = s\<lparr>sel := sel s1, wr := wr s1, clock := clock s1, sent := sent s1,
            socket_errno := socket_errno s1\<rparr>"

lemma rd_frame_refl [simp]: "rd_frame s s" and wr_frame_refl [simp]: "wr_frame s s"
  by (simp_all add: rd_frame_def wr_frame_def)

lemma rd_frame_trans: "rd_frame s s1 \<Longrightarrow> rd_frame s1 s2 \<Longrightarrow> rd_frame s s2"
  unfolding rd_frame_def by (cases s; cases s1; cases s2) simp

lemma wr_frame_trans: "wr_frame s s1 \<Longrightarrow> wr_frame s1 s2 \<Longrightarrow> wr_frame s s2"
  unfolding wr_frame_def by (cases s; cases s1; cases s2) simp

lemma frame_errno [simp]:
  "rd_frame s (s1\<lparr>socket_errno := e\<rparr>) \<longleftrightarrow> rd_frame s s1"
  "wr_frame s (s1\<lparr>socket_errno := e\<rparr>) \<longleftrightarrow> wr_frame s s1"
  unfolding rd_frame_def wr_frame_def by (cases s; cases s1; simp)+

lemma rd_frameD:
  "rd_frame s s1 \<Longrightarrow> wr s1 = wr s \<and> sent s1 = sent s \<and> sock.more s1 = sock.more s"
  unfolding rd_frame_def by (cases s; cases s1) simp

lemma wr_frameD: "wr_frame s s1 \<Longrightarrow> rd s1 = rd s \<and> sock.more s1 = sock.more s"
  unfolding wr_frame_def by (cases s; cases s1) simp

lemma sys_frames:
  "(r, s1) = sys_read n s \<Longrightarrow> rd_frame s s1"
  "(q, s1) = sys_select s \<Longrightarrow> rd_frame s s1 \<and> wr_frame s s1"
  "(t, s1) = sys_time s now \<Longrightarrow> rd_frame s s1 \<and> wr_frame s s1"
  "(w, s1) = sys_write bs s \<Longrightarrow> wr_frame s s1"
  by (cases s; auto simp: sys_defs rd_frame_def wr_frame_def split: sys_splits)+

lemma sys_read_incoming:
  "(Rd_Data bs, s1) = sys_read n s \<Longrightarrow> incoming (rd s) = bs @ incoming (rd s1)"
  "(Rd_Err e, s1) = sys_read n s \<Longrightarrow> incoming (rd s) = incoming (rd s1)"
  by (auto simp: sys_read_def split: sys_splits)

subsection \<open>Reading\<close>

text \<open>
  The invariant of both read loops: what they have added to \<open>got\<close> is what
  left the incoming stream, and nothing else of the state has changed.
\<close>

definition reads :: "bytes \<Rightarrow> ('z) sock_scheme \<Rightarrow> bytes \<Rightarrow> ('z) sock_scheme \<Rightarrow> bool" where
  "reads got s data s1 \<longleftrightarrow>
     rd_frame s s1 \<and> (\<exists>d. data = got @ d \<and> incoming (rd s) = d @ incoming (rd s1))"

lemma reads_refl [simp]: "reads got s got s"
  by (simp add: reads_def)

lemma reads_errno [simp]: "reads got s data (s1\<lparr>socket_errno := e\<rparr>) = reads got s data s1"
  by (simp add: reads_def)

lemma reads_trans: "reads got s d1 s1 \<Longrightarrow> reads d1 s1 d2 s2 \<Longrightarrow> reads got s d2 s2"
  unfolding reads_def by (auto intro: rd_frame_trans)

primrec rd_bytes :: "rd_result \<Rightarrow> bytes" where
  "rd_bytes (Rd_Data bs) = bs"
| "rd_bytes (Rd_Err e) = []"

lemma reads_sys:
  "sys_read n s = (r, s1) \<Longrightarrow> reads got s (got @ rd_bytes r) s1"
  "sys_select s = (q, s1) \<Longrightarrow> reads got s got s1"
  "sys_time s now = (t, s1) \<Longrightarrow> reads got s got s1"
  unfolding reads_def
  by (cases r; auto dest!: sym [of "sys_read n s"] intro: sys_frames sys_read_incoming)
     (auto dest!: sym [of _ "(_, _)"] dest: sys_frames sys_select_frame sys_time_frame)

lemma reads_step:
  "reads d1 s1 data s2 \<and> P \<Longrightarrow> reads got s d1 s1 \<Longrightarrow> reads got s data s2 \<and> P"
  by (blast intro: reads_trans)

lemma socket_xread_loop_reads:
  "socket_xread_loop n count z acc s = (ok, data, s1) \<Longrightarrow>
     reads acc s data s1 \<and> ok = (n \<le> length data)"
proof (induction n count z acc s rule: socket_xread_loop.induct)
  case (1 n count z acc s)
  obtain r s' where r: "sys_read (n - length acc) s = (r, s')" by fastforce
  note rs = reads_sys(1) [OF r, of acc]
  note ih = "1.IH" [OF _ _ r [symmetric], THEN reads_step]
  show ?case
    using "1.prems" rs ih unfolding socket_xread_loop.simps [of n count z acc s]
    by (cases r) (auto simp: r xread_end_def split: if_splits)
qed

lemma network_read_loop_reads:
  "network_read_loop timeout start now len got s = (ok, data, s1) \<Longrightarrow>
     reads got s data s1 \<and> (ok \<longrightarrow> length data = len)"
proof (induction timeout start now len got s rule: network_read_loop.induct)
  case (1 timeout start now len got s)
  obtain q s2 where q: "sys_select s = (q, s2)" by fastforce
  obtain r s3 where r: "sys_read (len - length got) s2 = (r, s3)" by fastforce
  obtain now' s4 where t: "sys_time s3 now = (now', s4)" by fastforce
  have rs: "reads got s got s2" "reads got s (got @ rd_bytes r) s3"
    "reads got s (got @ rd_bytes r) s4"
    by (meson q r t reads_sys reads_trans)+
  note ih = "1.IH"(1) [OF q [symmetric] _ r [symmetric] _ _ _ refl t [symmetric], THEN reads_step]
    "1.IH"(2) [OF q [symmetric] _ r [symmetric], THEN reads_step]
    "1.IH"(3) [OF q [symmetric], THEN reads_step]
  note step = "1.prems" [unfolded network_read_loop.simps [of timeout start now len got s] q r t
      Let_def prod.case]
  show ?case
  proof (cases q)
    case Sel_Ready
    show ?thesis
    proof (cases r)
      case (Rd_Data bs)
      show ?thesis using step rs ih(1) unfolding Sel_Ready Rd_Data by (auto split: if_splits)
    next
      case (Rd_Err e)
      show ?thesis using step rs ih(2) unfolding Sel_Ready Rd_Err by (auto split: if_splits)
    qed
  qed (use step rs ih(3) in \<open>auto split: if_splits\<close>)
qed

text \<open>
  A calm connection: nothing interrupts it, and data arrives in nonempty
  chunks of any size. On it a read that the incoming stream can satisfy
  succeeds, whatever the chunking.
\<close>

definition calm :: "('z) sock_scheme \<Rightarrow> bool" where
  "calm s \<longleftrightarrow> sel s = [] \<and> clock s = [] \<and> (\<forall>r \<in> set (rd s). \<exists>b. r = Rd_Data b \<and> b \<noteq> [])"

lemma calm_read:
  assumes "calm s" and "0 < n" and "incoming (rd s) \<noteq> []"
  obtains bs s1 where "sys_read n s = (Rd_Data bs, s1)" and "bs \<noteq> []" and "calm s1"
proof -
  from assms obtain b r where "rd s = Rd_Data b # r" "b \<noteq> []"
    by (cases "rd s") (auto simp: calm_def)
  with assms show thesis
    by (cases "length b \<le> n") (auto simp: sys_read_def calm_def intro!: that)
qed

lemma socket_xread_loop_calm:
  "calm s \<Longrightarrow> n \<le> length acc + length (incoming (rd s)) \<Longrightarrow> count < 100 \<Longrightarrow>
     \<exists>data s1. socket_xread_loop n count z acc s = (True, data, s1) \<and> calm s1
               \<and> length data = max n (length acc)"
proof (induction "n - length acc" arbitrary: acc s count z rule: less_induct)
  case less
  show ?case
  proof (cases "n \<le> length acc")
    case True
    then show ?thesis
      using less.prems by (simp add: socket_xread_loop.simps [of n count z acc s] xread_end_def)
  next
    case False
    then have "0 < n - length acc" "incoming (rd s) \<noteq> []" using less.prems(2) by auto
    then obtain bs s1 where r: "sys_read (n - length acc) s = (Rd_Data bs, s1)" "bs \<noteq> []" "calm s1"
      using calm_read [OF less.prems(1)] by blast
    note rd = sys_read_Data [OF r(1) [symmetric]] sys_read_incoming(1) [OF r(1) [symmetric]]
    have "n - length (acc @ bs) < n - length acc" using False r(2) by (cases bs) auto
    moreover have "n \<le> length (acc @ bs) + length (incoming (rd s1))"
      using less.prems(2) rd by simp
    ultimately obtain data s2 where
      "socket_xread_loop n 0 False (acc @ bs) s1 = (True, data, s2)" "calm s2"
      "length data = max n (length (acc @ bs))"
      using less.hyps r(3) by (metis zero_less_numeral)
    then show ?thesis
      using False r less.prems(3) rd
      by (auto simp: socket_xread_loop.simps [of n count z acc s])
  qed
qed

lemma network_read_loop_calm:
  "calm s \<Longrightarrow> length got < n \<Longrightarrow> n \<le> length got + length (incoming (rd s)) \<Longrightarrow> 0 < timeout \<Longrightarrow>
     \<exists>data s1. network_read_loop timeout start start n got s = (True, data, s1) \<and> calm s1
               \<and> length data = n"
proof (induction "n - length got" arbitrary: got s rule: less_induct)
  case less
  have "0 < n - length got" "incoming (rd s) \<noteq> []" using less.prems by auto
  then obtain bs s1 where r: "sys_read (n - length got) s = (Rd_Data bs, s1)" "bs \<noteq> []" "calm s1"
    using calm_read [OF less.prems(1)] by blast
  note rd = sys_read_Data [OF r(1) [symmetric]] sys_read_incoming(1) [OF r(1) [symmetric]]
  have q: "sys_select s = (Sel_Ready, s)" "sys_time s1 start = (start, s1)"
    using less.prems(1) r(3) by (simp_all add: sys_defs calm_def)
  show ?case
  proof (cases "length (got @ bs) = n")
    case True
    then show ?thesis
      using r q by (simp add: network_read_loop.simps [of timeout start start n got s])
  next
    case False
    have "n - length (got @ bs) < n - length got" using less.prems(2) r(2) by (cases bs) auto
    moreover have "length (got @ bs) < n" "n \<le> length (got @ bs) + length (incoming (rd s1))"
      using False less.prems(2,3) rd by auto
    ultimately obtain data s2 where
      "network_read_loop timeout start start n (got @ bs) s1 = (True, data, s2)" "calm s2"
      "length data = n"
      using less.hyps r(3) less.prems(4) by blast
    then show ?thesis
      using False r q less.prems(4)
      by (simp add: network_read_loop.simps [of timeout start start n got s])
  qed
qed

text \<open>
  The contract of a reader. \<open>network_read\<close> keeps it with and without a
  timeout, and so does \<open>socket_xread\<close>.
\<close>

locale full_reader =
  fixes read_all :: "nat \<Rightarrow> int \<Rightarrow> ('z) sock_scheme \<Rightarrow> bool \<times> bytes \<times> ('z) sock_scheme"
  assumes read_reads: "read_all n t s = (ok, data, s1) \<Longrightarrow> reads [] s data s1"
    and read_length: "0 < n \<Longrightarrow> read_all n t s = (True, data, s1) \<Longrightarrow> length data = n"
    and read_calm: "calm s \<Longrightarrow> 0 < n \<Longrightarrow> n \<le> length (incoming (rd s)) \<Longrightarrow> 0 \<le> t \<Longrightarrow>
          \<exists>data s1. read_all n t s = (True, data, s1) \<and> calm s1"
begin

lemma read_stream:
  assumes "read_all n t s = (ok, data, s1)"
  shows "incoming (rd s) = data @ incoming (rd s1)"
  using read_reads [OF assms] by (auto simp: reads_def)

lemma read_frame: "read_all n t s = (ok, data, s1) \<Longrightarrow> rd_frame s s1"
  using read_reads by (auto simp: reads_def)

lemma read_calm_eq:
  assumes "calm s" "0 < n" "incoming (rd s) = d @ rest" "length d = n" "0 \<le> t"
  shows "\<exists>s1. read_all n t s = (True, d, s1) \<and> calm s1 \<and> rd_frame s s1 \<and> incoming (rd s1) = rest"
proof -
  from assms read_calm obtain data s1 where r: "read_all n t s = (True, data, s1)" "calm s1"
    by (metis le_add1 length_append)
  from read_stream [OF r(1)] read_length [OF assms(2) r(1)] assms(3,4)
  have "data = d" "incoming (rd s1) = rest" by simp_all
  with r read_frame [OF r(1)] show ?thesis by blast
qed

end

lemma network_read_reads: "network_read n t s = (ok, data, s1) \<Longrightarrow> reads [] s data s1"
proof (cases "t = 0")
  case False
  obtain start s0 where c: "sys_time s 0 = (start, s0)" by fastforce
  assume "network_read n t s = (ok, data, s1)"
  with False c have "network_read_loop t start start n [] s0 = (ok, data, s1)"
    by (simp add: network_read_def)
  from network_read_loop_reads [OF this] reads_sys(3) [OF c] show ?thesis
    by (blast intro: reads_trans)
qed (auto simp: network_read_def socket_xread_def dest: socket_xread_loop_reads)

lemma socket_xread_loop_bound:
  "socket_xread_loop n count z acc s = (ok, data, s1) \<Longrightarrow> length acc \<le> n \<Longrightarrow> length data \<le> n"
proof (induction n count z acc s rule: socket_xread_loop.induct)
  case (1 n count z acc s)
  obtain r s' where r: "sys_read (n - length acc) s = (r, s')" by fastforce
  have b: "length acc + length bs \<le> n" if "r = Rd_Data bs" for bs
    using sys_read_Data [of bs s' "n - length acc" s] r that "1.prems"(2) by auto
  note ih = "1.IH" [OF _ _ r [symmetric]]
  show ?case
    using "1.prems" ih b unfolding socket_xread_loop.simps [of n count z acc s]
    by (cases r) (auto simp: r xread_end_def split: if_splits)
qed

interpretation nr: full_reader network_read
proof
  fix n t and s :: "('z) sock_scheme" and ok data s1
  assume r: "network_read n t s = (ok, data, s1)"
  then show "reads [] s data s1" by (rule network_read_reads)
next
  fix n :: nat and t data and s s1 :: "('z) sock_scheme"
  assume n: "0 < n" and r: "network_read n t s = (True, data, s1)"
  show "length data = n"
  proof (cases "t = 0")
    case True
    with r have "socket_xread_loop n 0 True [] s = (True, data, s1)"
      by (simp add: network_read_def socket_xread_def)
    from socket_xread_loop_reads [OF this] socket_xread_loop_bound [OF this] show ?thesis by simp
  next
    case False
    with r show ?thesis
      by (auto simp: network_read_def split: prod.splits dest: network_read_loop_reads)
  qed
next
  fix n :: nat and t :: int and s :: "('z) sock_scheme"
  assume a: "calm s" "0 < n" "n \<le> length (incoming (rd s))" "0 \<le> t"
  then have "sys_time s 0 = (0, s)" by (simp add: calm_def sys_time_def)
  with a socket_xread_loop_calm [of s n "[]" 0 True] network_read_loop_calm [of s "[]" n t 0]
  show "\<exists>data s1. network_read n t s = (True, data, s1) \<and> calm s1"
    by (cases "t = 0") (auto simp: network_read_def socket_xread_def)
qed

subsection \<open>Writing\<close>

text \<open>
  The invariant of both write loops: some prefix of \<open>rest\<close> was sent, all of
  it on success and a strict prefix on failure.
\<close>

definition writes :: "bytes \<Rightarrow> bool \<Rightarrow> ('z) sock_scheme \<Rightarrow> ('z) sock_scheme \<Rightarrow> bool" where
  "writes rest ok s s1 \<longleftrightarrow>
     wr_frame s s1 \<and> (\<exists>k. sent s1 = sent s @ take k rest
       \<and> (if ok then k = length rest else k < length rest \<or> rest = []))"

lemma writes_errno [simp]: "writes rest ok s (s1\<lparr>socket_errno := e\<rparr>) = writes rest ok s s1"
  by (simp add: writes_def)

lemma writes_fail [simp]: "wr_frame s s1 \<Longrightarrow> sent s1 = sent s \<Longrightarrow> writes rest False s s1"
  unfolding writes_def by (auto intro: exI [of _ 0])

lemma writes_done [simp]: "wr_frame s s1 \<Longrightarrow> sent s1 = sent s @ rest \<Longrightarrow> writes rest True s s1"
  unfolding writes_def by simp

lemma writes_cut:
  "wr_frame s s1 \<Longrightarrow> sent s1 = sent s @ take n rest \<Longrightarrow> n < length rest \<Longrightarrow> writes rest False s s1"
  unfolding writes_def by auto

lemma writes_partial:
  assumes "wr_frame s s1" "sent s1 = sent s @ take n rest" "n \<le> length rest"
    and "writes (drop n rest) ok s1 s2" "drop n rest = [] \<longrightarrow> ok"
  shows "writes rest ok s s2"
proof -
  from assms(4) obtain k where k: "sent s2 = sent s1 @ take k (drop n rest)"
    "if ok then k = length (drop n rest) else k < length (drop n rest) \<or> drop n rest = []"
    and f: "wr_frame s1 s2" by (auto simp: writes_def)
  have "sent s2 = sent s @ take (n + k) rest"
    using k(1) assms(2) by (simp add: take_add)
  moreover have "if ok then n + k = length rest else n + k < length rest \<or> rest = []"
    using k(2) assms(3,5) by (auto split: if_splits)
  ultimately show ?thesis
    using wr_frame_trans [OF assms(1) f] unfolding writes_def by blast
qed

lemma writes_same:
  "wr_frame s s1 \<Longrightarrow> sent s1 = sent s \<Longrightarrow> writes rest ok s1 s2 \<Longrightarrow> writes rest ok s s2"
  unfolding writes_def by (auto intro: wr_frame_trans)

lemma xwrite_loop_Nil [simp]: "xwrite_loop [] count s = (True, s)"
  by (simp add: xwrite_loop.simps)

lemma xwrite_loop_writes: "xwrite_loop rest count s = (ok, s1) \<Longrightarrow> writes rest ok s s1"
proof (induction rest count s rule: xwrite_loop.induct)
  case (1 rest count s)
  obtain w s' where w: "sys_write rest s = (w, s')" by fastforce
  note f = sys_frames(4) [OF w [symmetric]]
  note step = "1.prems" [unfolded xwrite_loop.simps [of rest count s] w prod.case]
  show ?case
  proof (cases "rest = [] \<or> Suc count > 10")
    case True
    with step show ?thesis by (auto simp: writes_def split: if_splits)
  next
    case False
    show ?thesis
    proof (cases w)
      case None
      note n = sys_write_None [OF w [symmetric, unfolded None]]
      show ?thesis
        using step False f n "1.IH"(1) [OF _ _ w [symmetric] None]
          writes_same [of s s' rest ok s1] unfolding None by (auto split: if_splits)
    next
      case (Some n)
      note n = sys_write_Some [OF w [symmetric, unfolded Some]]
      show ?thesis
        using step False f n "1.IH"(2,3) [OF _ _ w [symmetric] Some]
          writes_partial [of s s' n rest ok s1] writes_same [of s s' rest ok s1] unfolding Some
        by (cases "n = length rest") (auto split: if_splits)
    qed
  qed
qed

lemma network_write_loop_writes:
  "network_write_loop timeout start now rest s = (ok, s1) \<Longrightarrow> writes rest ok s s1"
proof (induction timeout start now rest s rule: network_write_loop.induct)
  case (1 timeout start now rest s)
  obtain q s2 where q: "sys_select s = (q, s2)" by fastforce
  obtain w s3 where w: "sys_write rest s2 = (w, s3)" by fastforce
  obtain now' s4 where t: "sys_time s3 now = (now', s4)" by fastforce
  have f2: "wr_frame s s2" "sent s2 = sent s"
    using sys_frames(2) [OF q [symmetric]] sys_select_frame [OF q [symmetric]] by auto
  have f3: "wr_frame s s3" using f2(1) sys_frames(4) [OF w [symmetric]] by (rule wr_frame_trans)
  have f4: "wr_frame s s4" "sent s4 = sent s3"
    using wr_frame_trans [OF f3] sys_frames(3) [OF t [symmetric]] sys_time_frame [OF t [symmetric]]
    by auto
  note ih = "1.IH"(1) [OF q [symmetric] _ w [symmetric]]
    "1.IH"(2) [OF q [symmetric] _ w [symmetric] _ _ refl t [symmetric]] "1.IH"(3) [OF q [symmetric]]
  note step = "1.prems" [unfolded network_write_loop.simps [of timeout start now rest s] q w t
      Let_def prod.case]
  show ?case
  proof (cases q)
    case Sel_Ready
    show ?thesis
    proof (cases w)
      case None
      note n = sys_write_None [OF w [symmetric, unfolded None]]
      show ?thesis
        using step f2 f3 n ih(1) writes_same [of s s3 rest ok s1]
        unfolding Sel_Ready None by (auto split: if_splits)
    next
      case (Some n)
      note n = sys_write_Some [OF w [symmetric, unfolded Some]]
      show ?thesis
        using step f2 f3 f4 n ih(2) writes_partial [of s s4 n rest ok s1]
          writes_cut [of s s4 n rest]
        unfolding Sel_Ready Some by (auto split: if_splits)
    qed
  qed (use step f2 ih(3) writes_same [of s s2 rest ok s1] in \<open>auto split: if_splits\<close>)
qed

locale full_writer =
  fixes write_all :: "bytes \<Rightarrow> int \<Rightarrow> ('z) sock_scheme \<Rightarrow> bool \<times> ('z) sock_scheme"
  assumes write_writes: "write_all bs t s = (ok, s1) \<Longrightarrow> writes bs ok s s1"
    and write_room: "wr s = Wr_Room k # r \<Longrightarrow> sel s = [] \<Longrightarrow> clock s = [] \<Longrightarrow> bs \<noteq> [] \<Longrightarrow>
          length bs \<le> k \<Longrightarrow> 0 \<le> t \<Longrightarrow>
          write_all bs t s = (True, s\<lparr>wr := r, sent := sent s @ bs\<rparr>)"
begin

lemma write_ok: "write_all bs t s = (True, s1) \<Longrightarrow> wr_frame s s1 \<and> sent s1 = sent s @ bs"
  using write_writes by (fastforce simp: writes_def)

lemma write_fail:
  assumes "write_all bs t s = (False, s1)" "bs \<noteq> []"
  shows "wr_frame s s1 \<and> (\<exists>k < length bs. sent s1 = sent s @ take k bs)"
  using write_writes [OF assms(1)] assms(2) by (auto simp: writes_def)

end

lemma network_write_writes: "network_write bs t s = (ok, s1) \<Longrightarrow> writes bs ok s s1"
proof (cases "t = 0")
  case True
  assume "network_write bs t s = (ok, s1)"
  with True show ?thesis
    by (auto simp: network_write_def xwrite_def writes_def dest!: xwrite_loop_writes split: if_splits)
next
  case False
  obtain start s0 where c: "sys_time s 0 = (start, s0)" by fastforce
  note f = sys_frames(3) [OF c [symmetric]] sys_time_frame [OF c [symmetric]]
  assume "network_write bs t s = (ok, s1)"
  with False c have "network_write_loop t start start bs s0 = (ok, s1)"
    by (simp add: network_write_def)
  from network_write_loop_writes [OF this] f show ?thesis
    by (auto simp: writes_def dest: wr_frame_trans)
qed

interpretation nw: full_writer network_write
proof
  fix bs t and s :: "('z) sock_scheme" and ok s1
  show "network_write bs t s = (ok, s1) \<Longrightarrow> writes bs ok s s1" by (rule network_write_writes)
next
  fix s :: "('z) sock_scheme" and k r and bs :: bytes and t :: int
  assume a: "wr s = Wr_Room k # r" "sel s = []" "clock s = []" "bs \<noteq> []" "length bs \<le> k" "0 \<le> t"
  then show "network_write bs t s = (True, s\<lparr>wr := r, sent := sent s @ bs\<rparr>)"
    by (cases "t = 0")
       (simp_all add: network_write_def xwrite_def sys_defs xwrite_loop.simps
          network_write_loop.simps [of t])
qed

text \<open>Whatever is sent uses up the write script, so a finite script bounds the sends.\<close>

definition spends :: "('z) sock_scheme \<Rightarrow> ('z) sock_scheme \<Rightarrow> bool" where
  "spends s s1 \<longleftrightarrow>
     length (wr s1) \<le> length (wr s) \<and> (sent s1 \<noteq> sent s \<longrightarrow> length (wr s1) < length (wr s))"

lemma spends_refl [simp]: "spends s s"
  by (simp add: spends_def)

lemma spends_trans: "spends s s1 \<Longrightarrow> spends s1 s2 \<Longrightarrow> spends s s2"
  unfolding spends_def by (metis order.strict_trans1 order.strict_trans2 order.trans)

lemma spends_errno [simp]: "spends s (s1\<lparr>socket_errno := e\<rparr>) = spends s s1"
  by (simp add: spends_def)

lemma sys_spends:
  "sys_write bs s = (w, s1) \<Longrightarrow> spends s s1"
  "sys_select s = (q, s1) \<Longrightarrow> spends s s1"
  "sys_time s now = (t, s1) \<Longrightarrow> spends s s1"
  by (auto simp: spends_def sys_defs split: sys_splits)

lemma xwrite_loop_spends: "xwrite_loop rest count s = (ok, s1) \<Longrightarrow> spends s s1"
proof (induction rest count s rule: xwrite_loop.induct)
  case (1 rest count s)
  obtain w s' where w: "sys_write rest s = (w, s')" by fastforce
  note ih = "1.IH" [OF _ _ w [symmetric]]
  show ?case
    using "1.prems" ih sys_spends(1) [OF w] spends_trans [of s s' s1]
    unfolding xwrite_loop.simps [of rest count s] w
    by (cases w) (auto split: if_splits)
qed

lemma network_write_loop_spends:
  "network_write_loop timeout start now rest s = (ok, s1) \<Longrightarrow> spends s s1"
proof (induction timeout start now rest s rule: network_write_loop.induct)
  case (1 timeout start now rest s)
  show ?case
    using "1.prems" "1.IH" unfolding network_write_loop.simps [of timeout start now rest s]
    by (auto split: if_splits prod.splits sel_result.splits option.splits dest!: sys_spends intro: spends_trans)
       (blast intro: spends_trans)+
qed

lemma network_write_spends:
  assumes "network_write bs t s = (ok, s1)"
  shows "spends s s1"
  using assms
  by (auto simp: network_write_def xwrite_def split: if_splits prod.splits
      dest!: sys_spends xwrite_loop_spends network_write_loop_spends intro: spends_trans)

end
