(* ===== verification/Tokens.thy ===== *)
theory Tokens
  imports Sockets
begin

text \<open>
  Tokens on the wire: \<^verbatim>\<open>src/util/tokens.c\<close> (flags octet, length, data) and
  \<^verbatim>\<open>src/util/gss-tokens.c\<close> (the same with GSS-API protection of the data and,
  for protocol one, an exchange of a MIC).

  The GSS-API library is not part of the repository: it is the parameter
  \<open>'c gss\<close> of the functions that call it, a record of the four calls with the
  security context as explicit state. A call returns the new context and
  either a (major, minor) status or its result.
\<close>

subsection \<open>Constants\<close>

definition TOKEN_NOOP :: u8 where "TOKEN_NOOP = 1"
definition TOKEN_CONTEXT :: u8 where "TOKEN_CONTEXT = 2"
definition TOKEN_DATA :: u8 where "TOKEN_DATA = 4"
definition TOKEN_MIC :: u8 where "TOKEN_MIC = 8"
definition TOKEN_CONTEXT_NEXT :: u8 where "TOKEN_CONTEXT_NEXT = 16"
definition TOKEN_SEND_MIC :: u8 where "TOKEN_SEND_MIC = 32"
definition TOKEN_PROTOCOL :: u8 where "TOKEN_PROTOCOL = 64"

lemmas token_flags = TOKEN_NOOP_def TOKEN_CONTEXT_def TOKEN_DATA_def TOKEN_MIC_def
  TOKEN_CONTEXT_NEXT_def TOKEN_SEND_MIC_def TOKEN_PROTOCOL_def

datatype token_status = TOKEN_OK | TOKEN_FAIL_SYSTEM | TOKEN_FAIL_SOCKET | TOKEN_FAIL_INVALID
  | TOKEN_FAIL_LARGE | TOKEN_FAIL_EOF | TOKEN_FAIL_GSSAPI | TOKEN_FAIL_TIMEOUT

definition TOKEN_MAX_LENGTH :: nat where "TOKEN_MAX_LENGTH = 1024 * 1024"
definition TOKEN_MAX_DATA :: nat where "TOKEN_MAX_DATA = 64 * 1024"
definition TOKEN_MAX_OUTPUT :: nat where "TOKEN_MAX_OUTPUT = TOKEN_MAX_DATA - 1 - 1 - 1 - 4"
definition TOKEN_MAX_OUTPUT_V1 :: nat where "TOKEN_MAX_OUTPUT_V1 = TOKEN_MAX_DATA - 4 - 4"

subsection \<open>Plain tokens\<close>

definition map_socket_error :: "errno \<Rightarrow> token_status" where
  "map_socket_error err =
     (case err of
        EPIPE \<Rightarrow> TOKEN_FAIL_EOF
      | ECONNRESET \<Rightarrow> TOKEN_FAIL_EOF
      | ETIMEDOUT \<Rightarrow> TOKEN_FAIL_TIMEOUT
      | _ \<Rightarrow> TOKEN_FAIL_SOCKET)"

text \<open>The frame \<open>token_send\<close> assembles in its buffer.\<close>

definition token_frame :: "u8 \<Rightarrow> bytes \<Rightarrow> bytes" where
  "token_frame flags tok = put_u8 flags # put_u32 (word_of_nat (length tok)) @ tok"

definition token_send ::
  "u8 \<Rightarrow> bytes \<Rightarrow> int \<Rightarrow> ('z) sock_scheme \<Rightarrow> token_status \<times> ('z) sock_scheme" where
  "token_send flags tok timeout s =
     (if length tok > UINT32_MAX - 1 - 4 then (TOKEN_FAIL_SYSTEM, s\<lparr>socket_errno := ENOMEM\<rparr>)
      else case network_write (token_frame flags tok) timeout s of
             (True, s1) \<Rightarrow> (TOKEN_OK, s1)
           | (False, s1) \<Rightarrow> (map_socket_error (socket_errno s1), s1))"

text \<open>
  The out parameters of \<open>token_recv\<close> are read by its callers only after
  \<open>TOKEN_OK\<close>, so the result is either a failure status or the flags and the
  data. A token of length 0 has no value pointer; it is the empty list.
\<close>

definition token_recv ::
  "nat \<Rightarrow> int \<Rightarrow> ('z) sock_scheme \<Rightarrow> (token_status + u8 \<times> bytes) \<times> ('z) sock_scheme" where
  "token_recv max_len timeout s =
     (case network_read 1 timeout s of
        (False, _, s1) \<Rightarrow> (Inl (map_socket_error (socket_errno s1)), s1)
      | (True, fl, s1) \<Rightarrow>
          (case network_read 4 timeout s1 of
             (False, _, s2) \<Rightarrow> (Inl (map_socket_error (socket_errno s2)), s2)
           | (True, lenb, s2) \<Rightarrow>
               let len = unat (get_u32 lenb)
               in if len > max_len then (Inl TOKEN_FAIL_LARGE, s2)
                  else if len = 0 then (Inr (get_u8 (hd fl), []), s2)
                  else case network_read len timeout s2 of
                         (False, _, s3) \<Rightarrow> (Inl (map_socket_error (socket_errno s3)), s3)
                       | (True, val, s3) \<Rightarrow> (Inr (get_u8 (hd fl), val), s3)))"

subsection \<open>Protected tokens\<close>

type_synonym gss_status = "nat \<times> nat"

record 'c gss =
  gss_wrap :: "'c \<Rightarrow> bytes \<Rightarrow> 'c \<times> (gss_status + bytes)"
  gss_unwrap :: "'c \<Rightarrow> bytes \<Rightarrow> 'c \<times> (gss_status + bytes)"
  gss_get_mic :: "'c \<Rightarrow> bytes \<Rightarrow> 'c \<times> (gss_status + bytes)"
  gss_verify_mic :: "'c \<Rightarrow> bytes \<Rightarrow> bytes \<Rightarrow> 'c \<times> (gss_status + unit)"

text \<open>
  A connection: the socket, the negotiated context and the status variables
  \<open>major\<close> and \<open>minor\<close> of the last GSS-API failure.
\<close>

record 'c chan = sock +
  context_id :: 'c
  gss_error :: gss_status

definition wants_mic :: "u8 \<Rightarrow> bool" where
  "wants_mic flags \<longleftrightarrow> flags AND TOKEN_SEND_MIC \<noteq> 0 \<and> flags AND TOKEN_PROTOCOL = 0"

definition token_send_priv ::
  "'c gss \<Rightarrow> u8 \<Rightarrow> bytes \<Rightarrow> int \<Rightarrow> ('c, 'z) chan_scheme \<Rightarrow> token_status \<times> ('c, 'z) chan_scheme" where
  "token_send_priv g flags tok timeout s =
     (if length tok > TOKEN_MAX_DATA then (TOKEN_FAIL_LARGE, s)
      else case gss_wrap g (context_id s) tok of
        (c1, Inl e) \<Rightarrow> (TOKEN_FAIL_GSSAPI, s\<lparr>context_id := c1, gss_error := e\<rparr>)
      | (c1, Inr out) \<Rightarrow>
          (case token_send flags out timeout (s\<lparr>context_id := c1\<rparr>) of
             (status, s1) \<Rightarrow>
               if status \<noteq> TOKEN_OK then (status, s1)
               else if wants_mic flags then
                 (case token_recv (10 * 1024) timeout s1 of
                    (Inl status, s2) \<Rightarrow> (status, s2)
                  | (Inr (micflags, mic), s2) \<Rightarrow>
                      if micflags \<noteq> TOKEN_MIC then (TOKEN_FAIL_INVALID, s2)
                      else case gss_verify_mic g (context_id s2) tok mic of
                             (c2, Inl e) \<Rightarrow>
                               (TOKEN_FAIL_GSSAPI, s2\<lparr>context_id := c2, gss_error := e\<rparr>)
                           | (c2, Inr _) \<Rightarrow> (TOKEN_OK, s2\<lparr>context_id := c2\<rparr>))
               else (TOKEN_OK, s1)))"

definition token_recv_priv ::
  "'c gss \<Rightarrow> nat \<Rightarrow> int \<Rightarrow> ('c, 'z) chan_scheme
     \<Rightarrow> (token_status + u8 \<times> bytes) \<times> ('c, 'z) chan_scheme" where
  "token_recv_priv g max_len timeout s =
     (case token_recv max_len timeout s of
        (Inl status, s1) \<Rightarrow> (Inl status, s1)
      | (Inr (flags, inb), s1) \<Rightarrow>
          (case gss_unwrap g (context_id s1) inb of
             (c1, Inl e) \<Rightarrow> (Inl TOKEN_FAIL_GSSAPI, s1\<lparr>context_id := c1, gss_error := e\<rparr>)
           | (c1, Inr tok) \<Rightarrow>
               let s2 = s1\<lparr>context_id := c1\<rparr>
               in if wants_mic flags then
                    (case gss_get_mic g (context_id s2) tok of
                       (c2, Inl e) \<Rightarrow>
                         (Inl TOKEN_FAIL_GSSAPI, s2\<lparr>context_id := c2, gss_error := e\<rparr>)
                     | (c2, Inr mic) \<Rightarrow>
                         (case token_send TOKEN_MIC mic timeout (s2\<lparr>context_id := c2\<rparr>) of
                            (status, s3) \<Rightarrow>
                              if status \<noteq> TOKEN_OK then (Inl status, s3)
                              else (Inr (flags AND NOT TOKEN_SEND_MIC, tok), s3)))
                  else (Inr (flags, tok), s2)))"

subsection \<open>Properties of plain tokens\<close>

lemma length_token_frame [simp]: "length (token_frame flags tok) = 5 + length tok"
  by (simp add: token_frame_def)

lemma token_frame_not_Nil [simp]: "token_frame flags tok \<noteq> []"
  by (simp add: token_frame_def)

text \<open>On success exactly the frame was sent; on failure less than the frame.\<close>

lemma token_send_ok:
  assumes "token_send flags tok timeout s = (TOKEN_OK, s1)"
  shows "wr_frame s s1 \<and> sent s1 = sent s @ token_frame flags tok"
proof -
  obtain ok s2 where w: "network_write (token_frame flags tok) timeout s = (ok, s2)" by fastforce
  have "map_socket_error e \<noteq> TOKEN_OK" for e by (simp add: map_socket_error_def split: errno.splits)
  with assms w have "ok" "s2 = s1" by (auto simp: token_send_def split: if_splits bool.splits)
  with w show ?thesis by (auto dest: nw.write_ok)
qed

lemma token_send_fail:
  assumes "token_send flags tok timeout s = (st, s1)" "st \<noteq> TOKEN_OK"
  shows "wr_frame s s1 \<and> (\<exists>k < 5 + length tok. sent s1 = sent s @ take k (token_frame flags tok))"
proof (cases "length tok > UINT32_MAX - 1 - 4")
  case True
  with assms show ?thesis by (auto simp: token_send_def intro: exI [of _ 0])
next
  case False
  obtain ok s2 where w: "network_write (token_frame flags tok) timeout s = (ok, s2)" by fastforce
  with assms False have "\<not> ok" "s2 = s1" by (auto simp: token_send_def split: bool.splits)
  with w nw.write_fail [of "token_frame flags tok" timeout s s2] show ?thesis by auto
qed

lemma token_send_room:
  assumes "wr s = Wr_Room k # r" "sel s = []" "clock s = []" "5 + length tok \<le> k"
    and "length tok \<le> UINT32_MAX - 5" "0 \<le> timeout"
  shows "token_send flags tok timeout s =
           (TOKEN_OK, s\<lparr>wr := r, sent := sent s @ token_frame flags tok\<rparr>)"
  using nw.write_room [of s k r "token_frame flags tok" timeout] assms
  by (simp add: token_send_def)

text \<open>The receiver takes one frame off a calm stream, whatever its chunking.\<close>

lemma token_recv_frame:
  assumes calm: "calm s" and inc: "incoming (rd s) = token_frame flags tok @ rest"
    and len: "length tok \<le> max_len" "length tok < 2 ^ 32" and t: "0 \<le> timeout"
  shows "\<exists>s1. token_recv max_len timeout s = (Inr (flags, tok), s1) \<and> calm s1 \<and> rd_frame s s1
              \<and> incoming (rd s1) = rest"
proof -
  let ?l = "put_u32 (word_of_nat (length tok))"
  have "incoming (rd s) = [put_u8 flags] @ (?l @ tok @ rest)" using inc by (simp add: token_frame_def)
  from nr.read_calm_eq [OF calm _ this _ t, of 1] obtain s1 where
    1: "network_read 1 timeout s = (True, [put_u8 flags], s1)" "calm s1" "rd_frame s s1"
      "incoming (rd s1) = ?l @ tok @ rest" by auto
  from nr.read_calm_eq [OF 1(2) _ 1(4) _ t, of 4] obtain s2 where
    2: "network_read 4 timeout s1 = (True, ?l, s2)" "calm s2" "rd_frame s1 s2"
      "incoming (rd s2) = tok @ rest" by auto
  have u: "unat (get_u32 ?l) = length tok" using len(2) by simp
  show ?thesis
  proof (cases "tok = []")
    case True
    with 1 2 u show ?thesis
      by (auto simp: token_recv_def intro: rd_frame_trans)
  next
    case False
    from nr.read_calm_eq [OF 2(2) _ 2(4) refl t] False obtain s3 where
      3: "network_read (length tok) timeout s2 = (True, tok, s3)" "calm s3" "rd_frame s2 s3"
        "incoming (rd s3) = rest" by auto
    with 1 2 u len(1) False show ?thesis
      by (auto simp: token_recv_def intro: rd_frame_trans)
  qed
qed

lemma token_recv_Inr:
  assumes "token_recv max_len timeout s = (Inr (flags, tok), s1)"
  shows "length tok \<le> max_len \<and> rd_frame s s1
         \<and> incoming (rd s) = token_frame flags tok @ incoming (rd s1)"
proof -
  from assms obtain fl s2 lenb s3 where
    1: "network_read 1 timeout s = (True, fl, s2)" and
    2: "network_read 4 timeout s2 = (True, lenb, s3)" and
    f: "flags = get_u8 (hd fl)" and
    cs: "unat (get_u32 lenb) \<le> max_len"
        "if unat (get_u32 lenb) = 0 then tok = [] \<and> s1 = s3
         else network_read (unat (get_u32 lenb)) timeout s3 = (True, tok, s1)"
    by (auto simp: token_recv_def Let_def split: prod.splits bool.splits if_splits)
  obtain c where fl: "fl = [c]" using nr.read_length [OF _ 1] by (cases fl) auto
  obtain a b d e where lb: "lenb = [a, b, d, e]"
    using nr.read_length [OF _ 2] by (auto simp: numeral_eq_Suc length_Suc_conv)
  have tok: "length tok = unat (get_u32 lenb)"
    using cs(2) nr.read_length [of "unat (get_u32 lenb)" timeout s3 tok s1] by (auto split: if_splits)
  have frame: "rd_frame s3 s1 \<and> incoming (rd s3) = tok @ incoming (rd s1)"
    using cs(2) nr.read_frame nr.read_stream by (fastforce split: if_splits)
  have lbe: "put_u32 (word_of_nat (length tok)) = lenb" unfolding tok lb by (rule put_get_u32)
  have "incoming (rd s) = token_frame flags tok @ incoming (rd s1)"
    using nr.read_stream [OF 1] nr.read_stream [OF 2] frame f fl lbe by (simp add: token_frame_def)
  moreover have "rd_frame s s1"
    using nr.read_frame [OF 1] nr.read_frame [OF 2] frame by (blast intro: rd_frame_trans)
  ultimately show ?thesis using tok cs(1) by simp
qed

subsection \<open>Properties of protected tokens\<close>

text \<open>
  What the protocol relies on of GSS-API, as documented for \<open>gss_wrap\<close> and
  \<open>gss_unwrap\<close>: between the two ends of an established context (related by
  \<open>R\<close>) unwrapping gives back what was wrapped, and wrapping adds at most
  \<open>overhead\<close> bytes.
\<close>

definition gss_sealed :: "'c gss \<Rightarrow> ('c \<Rightarrow> 'c \<Rightarrow> bool) \<Rightarrow> nat \<Rightarrow> bool" where
  "gss_sealed g R overhead \<longleftrightarrow>
     (\<forall>c d m. R c d \<longrightarrow>
        (\<exists>c' d' w. gss_wrap g c m = (c', Inr w) \<and> gss_unwrap g d w = (d', Inr m) \<and> R c' d'
                   \<and> length w \<le> length m + overhead))"

text \<open>Only the fields of the connection itself change; whatever extends it is kept.\<close>

lemma frames_more:
  "wr_frame s s1 \<Longrightarrow> chan.more s1 = chan.more s \<and> context_id s1 = context_id s \<and> gss_error s1 = gss_error s"
  "rd_frame s s1 \<Longrightarrow> chan.more s1 = chan.more s \<and> context_id s1 = context_id s \<and> gss_error s1 = gss_error s"
  for s s1 :: "('c, 'z) chan_scheme"
  by (cases s; cases s1; simp add: wr_frame_def rd_frame_def)+

lemma map_socket_error_not_OK [simp]: "map_socket_error e \<noteq> TOKEN_OK"
  by (simp add: map_socket_error_def split: errno.splits)

lemma token_recv_not_OK [simp]: "token_recv m t s \<noteq> (Inl TOKEN_OK, s1)"
  by (auto simp: token_recv_def Let_def split: prod.splits bool.splits if_splits)

lemma token_send_more:
  "token_send flags tok t s = (st, s1) \<Longrightarrow> wr_frame s s1"
  using token_send_ok token_send_fail by (metis (full_types))

lemma token_recv_more:
  assumes "token_recv m t s = (r, s1)"
  shows "rd_frame s s1"
proof -
  obtain o1 d1 s2 where 1: "network_read 1 t s = (o1, d1, s2)" by (metis surj_pair)
  obtain o2 d2 s3 where 2: "network_read 4 t s2 = (o2, d2, s3)" by (metis surj_pair)
  obtain o3 d3 s4 where 3: "network_read (unat (get_u32 d2)) t s3 = (o3, d3, s4)" by (metis surj_pair)
  note f = nr.read_frame [OF 1] rd_frame_trans [OF nr.read_frame [OF 1] nr.read_frame [OF 2]]
  show ?thesis
    using assms 1 2 3 f rd_frame_trans [OF f(2) nr.read_frame [OF 3]]
    by (auto simp: token_recv_def Let_def split: bool.splits if_splits)
qed

lemma token_recv_sent: "token_recv m t s = (r, s1) \<Longrightarrow> sent s1 = sent s"
  using token_recv_more rd_frameD by blast

lemma token_send_priv_more:
  assumes "token_send_priv g flags tok t s = (st, s1)"
  shows "chan.more s1 = chan.more s"
proof -
  obtain c1 w where w: "gss_wrap g (context_id s) tok = (c1, w)" by fastforce
  note m = frames_more(1) [OF token_send_more] frames_more(2) [OF token_recv_more]
  show ?thesis
    using assms w
    by (auto simp: token_send_priv_def split: prod.splits sum.splits if_splits dest!: m)
qed

lemma token_recv_priv_more:
  assumes "token_recv_priv g n t s = (r, s1)"
  shows "chan.more s1 = chan.more s"
proof -
  note m = frames_more(1) [OF token_send_more] frames_more(2) [OF token_recv_more]
  show ?thesis
    using assms
    by (auto simp: token_recv_priv_def Let_def split: prod.splits sum.splits if_splits dest!: m)
qed

lemma token_send_priv_rd:
  assumes "token_send_priv g flags tok t s = (st, s1)" "\<not> wants_mic flags"
  shows "rd s1 = rd s"
proof -
  obtain c1 w where w: "gss_wrap g (context_id s) tok = (c1, w)" by fastforce
  show ?thesis
    using assms w
    by (auto simp: token_send_priv_def split: prod.splits sum.splits if_splits
        dest!: token_send_more dest: wr_frameD)
qed

lemma mic_flags [simp]: "\<not> wants_mic (TOKEN_DATA OR TOKEN_PROTOCOL)" "\<not> wants_mic TOKEN_DATA"
  by (simp_all add: wants_mic_def token_flags)

text \<open>A token that was sent used up part of the write script.\<close>

lemma token_send_spends:
  assumes "token_send flags tok t s = (TOKEN_OK, s1)"
  shows "length (wr s1) < length (wr s)"
proof -
  from assms have "network_write (token_frame flags tok) t s = (True, s1)"
    by (auto simp: token_send_def split: if_splits prod.splits bool.splits)
  from network_write_spends [OF this] nw.write_ok [OF this] show ?thesis by (simp add: spends_def)
qed

lemma token_send_priv_spends:
  assumes "token_send_priv g flags tok t s = (TOKEN_OK, s1)"
  shows "length (wr s1) < length (wr s)"
proof -
  obtain c1 w where w: "gss_wrap g (context_id s) tok = (c1, w)" by fastforce
  show ?thesis
    using assms w
    by (auto simp: token_send_priv_def split: prod.splits sum.splits if_splits
        dest!: token_send_spends token_recv_more dest: rd_frameD)
qed

text \<open>No frame above the limit is ever put on the wire.\<close>

lemma token_send_priv_ok:
  assumes "token_send_priv g flags tok t s = (TOKEN_OK, s1)"
  shows "\<exists>c out. length tok \<le> TOKEN_MAX_DATA \<and> gss_wrap g (context_id s) tok = (c, Inr out)
           \<and> sent s1 = sent s @ token_frame flags out"
proof -
  obtain c1 w where w: "gss_wrap g (context_id s) tok = (c1, w)" by fastforce
  show ?thesis
    using assms w
    by (auto simp: token_send_priv_def split: prod.splits sum.splits if_splits
        dest!: token_recv_sent token_send_ok)
qed

text \<open>A wrapped token that arrives is unwrapped.\<close>

lemma recv_wrapped:
  assumes g: "gss_sealed g R ov" and R: "R x (context_id r)"
    and w: "gss_wrap g x tok = (x1, Inr w)"
    and fl: "\<not> wants_mic flags" and len: "length tok + ov \<le> max_len" "max_len < 2 ^ 32"
    and calm: "calm r" and t': "0 \<le> t'" and inc: "incoming (rd r) = token_frame flags w @ rest"
  shows "\<exists>r1. token_recv_priv g max_len t' r = (Inr (flags, tok), r1)
           \<and> R x1 (context_id r1) \<and> calm r1 \<and> incoming (rd r1) = rest
           \<and> chan.more r1 = chan.more r \<and> sent r1 = sent r \<and> wr r1 = wr r"
proof -
  from g R obtain d where u: "gss_unwrap g (context_id r) w = (d, Inr tok)" "R x1 d"
    "length w \<le> length tok + ov"
    unfolding gss_sealed_def by (metis w prod.inject sum.inject(2))
  from token_recv_frame [OF calm inc _ _ t', of max_len] u(3) len obtain r1 where
    r1: "token_recv max_len t' r = (Inr (flags, w), r1)" "calm r1" "rd_frame r r1"
      "incoming (rd r1) = rest" by auto
  have "calm (r1\<lparr>context_id := d\<rparr>)" using r1(2) by (simp add: calm_def)
  with r1 u fl frames_more(2) [OF r1(3)] rd_frameD [OF r1(3)] show ?thesis
    by (auto simp: token_recv_priv_def)
qed

text \<open>One protected token carried from a sender \<open>s\<close> to a receiver \<open>r\<close>.\<close>

lemma token_send_priv_wraps:
  assumes "token_send_priv g flags tok t s = (TOKEN_OK, s1)" "\<not> wants_mic flags"
  shows "\<exists>w. gss_wrap g (context_id s) tok = (context_id s1, Inr w)
           \<and> sent s1 = sent s @ token_frame flags w"
proof -
  obtain c1 w where w: "gss_wrap g (context_id s) tok = (c1, w)" by fastforce
  show ?thesis
    using assms w
    by (auto simp: token_send_priv_def split: prod.splits sum.splits if_splits
        dest!: token_send_ok dest: frames_more)
qed

lemma priv_transfer:
  assumes g: "gss_sealed g R ov" and R: "R (context_id s) (context_id r)"
    and fl: "\<not> wants_mic flags" and len: "length tok + ov \<le> max_len" "max_len < 2 ^ 32"
    and send: "token_send_priv g flags tok t s = (TOKEN_OK, s1)"
    and calm: "calm r" and t': "0 \<le> t'"
    and inc: "sent s @ incoming (rd r) = sent s1 @ rest"
  shows "\<exists>r1. token_recv_priv g max_len t' r = (Inr (flags, tok), r1)
           \<and> R (context_id s1) (context_id r1) \<and> calm r1 \<and> incoming (rd r1) = rest
           \<and> chan.more r1 = chan.more r \<and> sent r1 = sent r \<and> wr r1 = wr r"
proof -
  from token_send_priv_wraps [OF send fl] obtain w where
    w: "gss_wrap g (context_id s) tok = (context_id s1, Inr w)" "sent s1 = sent s @ token_frame flags w"
    by blast
  with inc have "incoming (rd r) = token_frame flags w @ rest" by simp
  from recv_wrapped [OF g R w(1) fl len calm t' this] show ?thesis .
qed

subsection \<open>Round trips over the wire\<close>

text \<open>
  C8: a token sent with \<open>token_send\<close> is the token that \<open>token_recv\<close> returns.
  The receiver's incoming stream is what the sender added to the wire followed
  by anything else, cut into chunks of any size; the rest of the stream is left
  for the next token.
\<close>

theorem token_roundtrip:
  assumes "token_send flags tok t s = (TOKEN_OK, s1)"
    and "calm r" and "sent s @ incoming (rd r) = sent s1 @ rest"
    and "length tok \<le> max_len" and "0 \<le> t'"
  shows "\<exists>r1. token_recv max_len t' r = (Inr (flags, tok), r1) \<and> calm r1
              \<and> incoming (rd r1) = rest \<and> sent r1 = sent r"
proof -
  have "length tok < 2 ^ 32"
    using assms(1) by (auto simp: token_send_def UINT32_MAX_def split: if_splits)
  moreover have "incoming (rd r) = token_frame flags tok @ rest"
    using assms(3) token_send_ok [OF assms(1)] by simp
  ultimately obtain r1 where "token_recv max_len t' r = (Inr (flags, tok), r1)" "calm r1"
    "rd_frame r r1" "incoming (rd r1) = rest"
    using token_recv_frame [OF assms(2) _ assms(4) _ assms(5)] by blast
  then show ?thesis using rd_frameD by blast
qed

definition idle :: sock where
  "idle = \<lparr>sel = [], rd = [], wr = [], clock = [], sent = [], socket_errno = EINTR\<rparr>"

lemma idle_simps [simp]:
  "sel idle = []" "rd idle = []" "wr idle = []" "clock idle = []" "sent idle = []"
  by (simp_all add: idle_def)

theorem token_roundtrip_witness:
  "\<exists>r1. token_recv 100 60
          (idle\<lparr>rd := [Rd_Data (take 3 (token_frame TOKEN_DATA ''hello'')),
                      Rd_Data (drop 3 (token_frame TOKEN_DATA ''hello'') @ ''next'')]\<rparr>)
        = (Inr (TOKEN_DATA, ''hello''), r1) \<and> calm r1
        \<and> incoming (rd r1) = ''next'' \<and> sent r1 = []"
proof -
  let ?s = "idle\<lparr>wr := [Wr_Room 100]\<rparr>"
  have "token_send TOKEN_DATA ''hello'' 60 ?s =
      (TOKEN_OK, ?s\<lparr>wr := [], sent := token_frame TOKEN_DATA ''hello''\<rparr>)"
    using token_send_room [of ?s 100 "[]" "''hello''" 60 TOKEN_DATA]
    by (simp add: UINT32_MAX_def)
  from token_roundtrip [OF this,
      of "idle\<lparr>rd := [Rd_Data (take 3 (token_frame TOKEN_DATA ''hello'')),
                     Rd_Data (drop 3 (token_frame TOKEN_DATA ''hello'') @ ''next'')]\<rparr>"
         "''next''" 100 60]
  show ?thesis by (simp add: calm_def)
qed

text \<open>
  C9: whatever the network does (short reads, interruptions, errors, time-outs),
  a token that \<open>token_recv\<close> returns is the one framed at the head of the
  incoming stream, it respects the caller's limit, and exactly its frame has
  been consumed.
\<close>

theorem token_recv_sound:
  assumes "token_recv max_len t s = (Inr (flags, tok), s1)"
  shows "incoming (rd s) = token_frame flags tok @ incoming (rd s1)
         \<and> length tok \<le> max_len \<and> sent s1 = sent s \<and> wr s1 = wr s"
  using token_recv_Inr [OF assms] rd_frameD by blast

theorem token_recv_sound_witness:
  "\<exists>s1. token_recv 10 0 (idle\<lparr>rd := [Rd_Err EINTR, Rd_Data (token_frame TOKEN_MIC ''xy'')]\<rparr>)
          = (Inr (TOKEN_MIC, ''xy''), s1) \<and> token_frame TOKEN_MIC ''xy'' @ incoming (rd s1)
          = token_frame TOKEN_MIC ''xy''"
proof -
  let ?s = "idle\<lparr>rd := [Rd_Err EINTR, Rd_Data (token_frame TOKEN_MIC ''xy'')]\<rparr>"
  let ?f = "idle\<lparr>rd := [], socket_errno := EINTR\<rparr>"
  have "token_recv 10 0 ?s = (Inr (TOKEN_MIC, ''xy''), ?f)"
    by (simp add: token_recv_def network_read_def socket_xread_def socket_xread_loop.simps
        sys_read_def token_frame_def xread_end_def put_u32_def get_u32_def)
  with token_recv_sound [of 10 0 ?s TOKEN_MIC "''xy''" ?f] show ?thesis by simp
qed


text \<open>A library to try the statements on: the context counts messages, wrapping
  prefixes one octet, unwrapping checks that it is there.\<close>

definition demo_gss :: "nat gss" where
  "demo_gss = \<lparr>gss_wrap = (\<lambda>c m. (Suc c, Inr (CHR ''#'' # m))),
     gss_unwrap = (\<lambda>c w. if w = [] then (c, Inl (1, 0)) else (Suc c, Inr (tl w))),
     gss_get_mic = (\<lambda>c m. (c, Inr ''mic'')),
     gss_verify_mic = (\<lambda>c m k. (c, if k = ''mic'' then Inr () else Inl (1, 0)))\<rparr>"

lemma demo_sealed: "gss_sealed demo_gss (=) 1"
  by (simp add: gss_sealed_def demo_gss_def)

definition demo_chan :: "nat chan" where
  "demo_chan = sock.extend idle \<lparr>context_id = 0, gss_error = (0, 0)\<rparr>"

lemma demo_chan_simps [simp]:
  "sel demo_chan = []" "rd demo_chan = []" "wr demo_chan = []" "clock demo_chan = []"
  "sent demo_chan = []" "context_id demo_chan = 0"
  by (simp_all add: demo_chan_def idle_def sock.extend_def)

lemma demo_send_priv:
  assumes "wr s = Wr_Room k # r" "sel s = []" "clock s = []" "6 + length tok \<le> k"
    and "length tok \<le> TOKEN_MAX_DATA" "\<not> wants_mic flags" "0 \<le> t"
  shows "token_send_priv demo_gss flags tok t s =
           (TOKEN_OK, s\<lparr>context_id := Suc (context_id s), wr := r,
                        sent := sent s @ token_frame flags (CHR ''#'' # tok)\<rparr>)"
proof -
  let ?s = "s\<lparr>context_id := Suc (context_id s)\<rparr>"
  have "token_send flags (CHR ''#'' # tok) t ?s =
      (TOKEN_OK, ?s\<lparr>wr := r, sent := sent s @ token_frame flags (CHR ''#'' # tok)\<rparr>)"
    using token_send_room [of ?s k r "CHR ''#'' # tok" t flags] assms
    by (simp add: UINT32_MAX_def TOKEN_MAX_DATA_def)
  then show ?thesis using assms by (simp add: token_send_priv_def demo_gss_def)
qed


end
