(* ===== verification/Server_Types.thy ===== *)
theory Server_Types
  imports Tokens
begin

text \<open>
  The data the server parts share (\<^verbatim>\<open>src/server/internal.h\<close>,
  \<^verbatim>\<open>src/util/protocol.h\<close>): message types, error codes, the client, a
  configuration rule, and the log.

  The client struct extends the connection of theory \<open>Tokens\<close> (its \<open>fd\<close> and
  \<open>context\<close>). Its three callbacks are determined by how the client was
  created, so they are represented by \<open>backend\<close> and dispatched by functions of
  the same names. A log message is a value; messages that print \<open>errno\<close> or a
  GSS-API status keep that value beside their text.
\<close>

subsection \<open>Constants of the protocol\<close>

definition MESSAGE_COMMAND :: nat where "MESSAGE_COMMAND = 1"
definition MESSAGE_QUIT :: nat where "MESSAGE_QUIT = 2"
definition MESSAGE_OUTPUT :: nat where "MESSAGE_OUTPUT = 3"
definition MESSAGE_STATUS :: nat where "MESSAGE_STATUS = 4"
definition MESSAGE_ERROR :: nat where "MESSAGE_ERROR = 5"
definition MESSAGE_VERSION :: nat where "MESSAGE_VERSION = 6"
definition MESSAGE_NOOP :: nat where "MESSAGE_NOOP = 7"

lemmas message_types = MESSAGE_COMMAND_def MESSAGE_QUIT_def MESSAGE_OUTPUT_def MESSAGE_STATUS_def
  MESSAGE_ERROR_def MESSAGE_VERSION_def MESSAGE_NOOP_def

datatype error_codes = ERROR_INTERNAL | ERROR_BAD_TOKEN | ERROR_UNKNOWN_MESSAGE
  | ERROR_BAD_COMMAND | ERROR_UNKNOWN_COMMAND | ERROR_ACCESS | ERROR_TOOMANY_ARGS
  | ERROR_TOOMUCH_DATA | ERROR_UNEXPECTED_MESSAGE | ERROR_NO_HELP

primrec error_number :: "error_codes \<Rightarrow> nat" where
  "error_number ERROR_INTERNAL = 1"
| "error_number ERROR_BAD_TOKEN = 2"
| "error_number ERROR_UNKNOWN_MESSAGE = 3"
| "error_number ERROR_BAD_COMMAND = 4"
| "error_number ERROR_UNKNOWN_COMMAND = 5"
| "error_number ERROR_ACCESS = 6"
| "error_number ERROR_TOOMANY_ARGS = 7"
| "error_number ERROR_TOOMUCH_DATA = 8"
| "error_number ERROR_UNEXPECTED_MESSAGE = 9"
| "error_number ERROR_NO_HELP = 10"

definition COMMAND_MAX_ARGS :: nat where "COMMAND_MAX_ARGS = 4 * 1024"
definition COMMAND_MAX_DATA :: nat where "COMMAND_MAX_DATA = 100 * 1024 * 1024"
definition TIMEOUT :: int where "TIMEOUT = 60 * 60"

subsection \<open>The log\<close>

datatype log_level = Notice | Warn

datatype log_entry =
    Log log_level string
  | Log_errno log_level string errno
  | Log_gssapi log_level string gss_status

subsection \<open>The client and the configuration\<close>

datatype backend = V1 | V2 | Ssh

record 'c client = "'c chan" +
  protocol :: nat
  backend :: backend
  user :: string
  hostname :: "string option"
  ipaddress :: string
  anonymous :: bool
  ctx_flags :: u32
  expires :: int
  keepalive :: bool
  fatal :: bool
  stderr_sock :: sock
  logs :: "log_entry list"

record rule =
  rule_file :: string
  lineno :: nat
  line :: "string list"
  command :: string
  subcommand :: string
  program :: string
  logmask :: "nat list option"
  stdin_arg :: int
  rule_user :: "string option"
  sudo_user :: "string option"
  uid :: nat
  gid :: nat
  summary :: "string option"
  rule_help :: "string option"
  acls :: "string list"

definition log_msg :: "log_entry \<Rightarrow> ('c, 'z) client_scheme \<Rightarrow> ('c, 'z) client_scheme" where
  "log_msg e c = c\<lparr>logs := logs c @ [e]\<rparr>"

abbreviation warn :: "string \<Rightarrow> ('c, 'z) client_scheme \<Rightarrow> ('c, 'z) client_scheme" where
  "warn m \<equiv> log_msg (Log Warn m)"

abbreviation notice :: "string \<Rightarrow> ('c, 'z) client_scheme \<Rightarrow> ('c, 'z) client_scheme" where
  "notice m \<equiv> log_msg (Log Notice m)"

abbreviation syswarn :: "string \<Rightarrow> ('c, 'z) client_scheme \<Rightarrow> ('c, 'z) client_scheme" where
  "syswarn m c \<equiv> log_msg (Log_errno Warn m (socket_errno c)) c"

definition warn_token ::
  "string \<Rightarrow> token_status \<Rightarrow> ('c, 'z) client_scheme \<Rightarrow> ('c, 'z) client_scheme" where
  "warn_token error status c =
     (case status of
        TOKEN_OK \<Rightarrow> warn (''error '' @ error) c
      | TOKEN_FAIL_SYSTEM \<Rightarrow> syswarn (''error '' @ error) c
      | TOKEN_FAIL_SOCKET \<Rightarrow> syswarn (''error '' @ error) c
      | TOKEN_FAIL_INVALID \<Rightarrow> warn (''error '' @ error @ '': invalid token format'') c
      | TOKEN_FAIL_LARGE \<Rightarrow> warn (''error '' @ error @ '': token too large'') c
      | TOKEN_FAIL_EOF \<Rightarrow> warn (''error '' @ error @ '': unexpected end of file'') c
      | TOKEN_FAIL_GSSAPI \<Rightarrow> log_msg (Log_gssapi Warn error (gss_error c)) c
      | TOKEN_FAIL_TIMEOUT \<Rightarrow> warn (''error '' @ error @ '': timed out'') c)"

text \<open>
  A log call touches nothing but the log. Logging is independent of every other
  component, so what the lemmas below need of it is this one equation.
\<close>

lemma log_msg_simps [simp]:
  "sel (log_msg e c) = sel c" "rd (log_msg e c) = rd c" "wr (log_msg e c) = wr c"
  "clock (log_msg e c) = clock c" "sent (log_msg e c) = sent c"
  "socket_errno (log_msg e c) = socket_errno c" "context_id (log_msg e c) = context_id c"
  "gss_error (log_msg e c) = gss_error c" "protocol (log_msg e c) = protocol c"
  "backend (log_msg e c) = backend c" "user (log_msg e c) = user c"
  "hostname (log_msg e c) = hostname c" "ipaddress (log_msg e c) = ipaddress c"
  "anonymous (log_msg e c) = anonymous c" "ctx_flags (log_msg e c) = ctx_flags c"
  "expires (log_msg e c) = expires c" "keepalive (log_msg e c) = keepalive c"
  "fatal (log_msg e c) = fatal c" "stderr_sock (log_msg e c) = stderr_sock c"
  "client.more (log_msg e c) = client.more c" "logs (log_msg e c) = logs c @ [e]"
  by (simp_all add: log_msg_def)

lemma warn_token_is_log: "\<exists>e. warn_token m st c = log_msg e c"
  unfolding warn_token_def by (cases st) auto

text \<open>
  What nothing on the server ever changes: who the client is and which protocol
  it speaks. What no reply changes either: whether the connection is kept
  alive, what the client has yet to send, and whatever extends the client.
\<close>

definition ident ::
  "('c, 'z) client_scheme \<Rightarrow>
     nat \<times> backend \<times> string \<times> string option \<times> string \<times> bool \<times> u32 \<times> int" where
  "ident c = (protocol c, backend c, user c, hostname c, ipaddress c, anonymous c, ctx_flags c, expires c)"

definition who ::
  "('c, 'z) client_scheme \<Rightarrow>
     (nat \<times> backend \<times> string \<times> string option \<times> string \<times> bool \<times> u32 \<times> int) \<times> bool \<times> rd_result list" where
  "who c = (ident c, keepalive c, rd c)"

definition client_same :: "('c, 'z) client_scheme \<Rightarrow> ('c, 'z) client_scheme \<Rightarrow> bool" where
  "client_same c c1 \<longleftrightarrow> who c1 = who c \<and> client.more c1 = client.more c"

lemma client_same_refl [simp]: "client_same c c"
  by (simp add: client_same_def)

lemma client_same_trans: "client_same c c1 \<Longrightarrow> client_same c1 c2 \<Longrightarrow> client_same c c2"
  by (simp add: client_same_def)

lemma stderr_sock_rd: "rd (c\<lparr>stderr_sock := k\<rparr>) = rd c"
  by (cases c) simp

lemma who_update [simp]:
  "who (log_msg e c) = who c" "who (c\<lparr>fatal := b\<rparr>) = who c" "who (c\<lparr>stderr_sock := k\<rparr>) = who c"
  "ident (log_msg e c) = ident c" "ident (c\<lparr>fatal := b\<rparr>) = ident c"
  "ident (c\<lparr>stderr_sock := k\<rparr>) = ident c" "ident (c\<lparr>keepalive := b\<rparr>) = ident c"
  by (simp_all add: who_def ident_def log_msg_def stderr_sock_rd)

lemma ident_eqD:
  "ident c1 = ident c \<Longrightarrow> protocol c1 = protocol c \<and> backend c1 = backend c \<and> user c1 = user c
     \<and> hostname c1 = hostname c \<and> ipaddress c1 = ipaddress c \<and> anonymous c1 = anonymous c
     \<and> ctx_flags c1 = ctx_flags c \<and> expires c1 = expires c"
  by (simp add: ident_def)

lemma who_ident: "who c1 = who c \<Longrightarrow> ident c1 = ident c"
  by (simp add: who_def)

lemma who_eqD:
  "who c1 = who c \<Longrightarrow> protocol c1 = protocol c \<and> backend c1 = backend c \<and> user c1 = user c
     \<and> hostname c1 = hostname c \<and> ipaddress c1 = ipaddress c \<and> anonymous c1 = anonymous c
     \<and> ctx_flags c1 = ctx_flags c \<and> expires c1 = expires c \<and> keepalive c1 = keepalive c \<and> rd c1 = rd c"
  by (simp add: who_def ident_def)

lemma client_same_update [simp]:
  "client_same c (log_msg e c1) \<longleftrightarrow> client_same c c1"
  "client_same c (c1\<lparr>fatal := b\<rparr>) \<longleftrightarrow> client_same c c1"
  "client_same c (c1\<lparr>stderr_sock := k\<rparr>) \<longleftrightarrow> client_same c c1"
  by (simp_all add: client_same_def)

lemma client_same_warn_token [simp]: "client_same c (warn_token m st c1) \<longleftrightarrow> client_same c c1"
  using warn_token_is_log [of m st c1] by auto

lemma chan_more_client:
  fixes c c1 :: "('c, 'z) client_scheme"
  assumes "chan.more c1 = chan.more c" "rd c1 = rd c"
  shows "client_same c c1 \<and> fatal c1 = fatal c \<and> logs c1 = logs c \<and> stderr_sock c1 = stderr_sock c"
  using assms by (cases c; cases c1) (simp add: client_same_def who_def ident_def)

lemma chan_more_ident:
  fixes c c1 :: "('c, 'z) client_scheme"
  assumes "chan.more c1 = chan.more c"
  shows "ident c1 = ident c \<and> keepalive c1 = keepalive c \<and> fatal c1 = fatal c \<and> logs c1 = logs c
         \<and> client.more c1 = client.more c"
  using assms by (cases c; cases c1) (simp add: ident_def)

end
