(* ===== verification/Acl.thy ===== *)
theory Acl
  imports Include Server_Types
begin

text \<open>
  Access control: the ACL schemes of \<^verbatim>\<open>src/server/config.c\<close> and
  \<open>server_config_acl_permit\<close>.

  Checking an entry may include files that contain further entries, without
  bound: only a file that includes itself directly is noticed. \<open>acl_check\<close>
  therefore takes the depth of nested checks the stack allows; running out is
  the fault \<open>Stack_exhausted\<close>. More depth never changes a result
  (\<open>acl_check_mono\<close>), and a depth that suffices exists whenever the includes are
  well-founded (\<open>acl_check_enough\<close>).

  The libraries behind the optional schemes (GPUT, PCRE, POSIX regular
  expressions, the group database and Kerberos) are parameters, \<open>None\<close> when the
  server was built without them.
\<close>

subsection \<open>The environment\<close>

datatype gr_result = Gr_Found nat "string list" | Gr_Absent | Gr_EINTR | Gr_ERANGE | Gr_Err
datatype krb5_localname = Ln_Init_Failed | Ln_Parse_Failed | Ln_None | Ln_Name string | Ln_Failed

record passwd =
  pw_name :: string
  pw_uid :: nat
  pw_gid :: nat

record group_lib =
  getgrnam_r :: "string \<Rightarrow> gr_result list"
  aname_to_localname :: "string \<Rightarrow> krb5_localname"

record acl_env =
  fs :: filesystem
  getpwnam :: "string \<Rightarrow> passwd option"
  getpwuid :: "nat \<Rightarrow> passwd option"
  gput_check :: "(string \<Rightarrow> string \<Rightarrow> string option \<Rightarrow> bool option) option"
  pcre2_match :: "(string \<Rightarrow> string \<Rightarrow> int option) option"
  regexec :: "(string \<Rightarrow> string \<Rightarrow> int option) option"
  group_lib :: "group_lib option"

datatype acl_default = ACL_SCHEME_FILE | ACL_SCHEME_PRINC

type_synonym acl_fn = "string \<Rightarrow> acl_default \<Rightarrow> string \<Rightarrow> fault + config_status"

definition BUFSIZ :: nat where "BUFSIZ = 8192"

subsection \<open>The schemes\<close>

text \<open>Trailing white space of the line is cut off, but never its first character.\<close>

definition strip_trailing :: "string \<Rightarrow> string" where
  "strip_trailing b = (case b of [] \<Rightarrow> [] | c # cs \<Rightarrow> c # rev (dropWhile isspace (rev cs)))"

text \<open>The loop over the lines of an ACL file, with the checker for nested entries.\<close>

function acl_file_loop :: "acl_fn \<Rightarrow> string \<Rightarrow> bytes \<Rightarrow> fault + config_status" where
  "acl_file_loop chk aclfile content =
     (case fgets BUFSIZ content of
        None \<Rightarrow> Inr CONFIG_NOMATCH
      | Some (raw, rest) \<Rightarrow>
          let buffer = c_string raw
          in if length buffer \<ge> BUFSIZ - 1 then Inr CONFIG_ERROR
             else
               let buffer = strip_trailing buffer; p = dropWhile isspace buffer
               in if p = [] \<or> hd p = CHR ''#'' then acl_file_loop chk aclfile rest
                  else
                    ebind
                      (if strchr p (CHR '' '') = None then chk p ACL_SCHEME_PRINC aclfile
                       else let line = split_words [CHR '' '', TAB] buffer
                            in if length line = 2 \<and> line ! 0 = ''include''
                               then chk (line ! 1) ACL_SCHEME_FILE aclfile
                               else Inr CONFIG_ERROR)
                      (\<lambda>s. if s \<noteq> CONFIG_NOMATCH then Inr s
                           else acl_file_loop chk aclfile rest))"
  by pat_completeness auto
termination
  by (relation "measure (\<lambda>(chk, aclfile, content). length content)") (auto dest: fgets_less)

declare acl_file_loop.simps [simp del]

definition acl_check_file_internal :: "acl_env \<Rightarrow> acl_fn \<Rightarrow> unit include_fn" where
  "acl_check_file_internal env chk s aclfile =
     (case fopen_read (fs env) aclfile of
        None \<Rightarrow> Inr (CONFIG_ERROR, s)
      | Some content \<Rightarrow> ebind (acl_file_loop chk aclfile content) (\<lambda>st. Inr (st, s)))"

definition acl_check_file ::
  "acl_env \<Rightarrow> acl_fn \<Rightarrow> string \<Rightarrow> string \<Rightarrow> fault + config_status" where
  "acl_check_file env chk aclfile file =
     ebind (handle_include (fs env) aclfile file (acl_check_file_internal env chk) ())
       (\<lambda>(st, _). Inr st)"

definition acl_check_princ :: "('c, 'z) client_scheme \<Rightarrow> string \<Rightarrow> config_status" where
  "acl_check_princ c data = (if user c = data then CONFIG_SUCCESS else CONFIG_NOMATCH)"

definition acl_check_anyuser :: "('c, 'z) client_scheme \<Rightarrow> string \<Rightarrow> config_status" where
  "acl_check_anyuser c data =
     (if data = ''auth'' then (if anonymous c then CONFIG_NOMATCH else CONFIG_SUCCESS)
      else if data = ''anonymous'' then CONFIG_SUCCESS
      else CONFIG_ERROR)"

definition acl_check_deny :: "acl_fn \<Rightarrow> string \<Rightarrow> string \<Rightarrow> fault + config_status" where
  "acl_check_deny chk data file =
     ebind (chk data ACL_SCHEME_PRINC file) (\<lambda>s.
       Inr (case s of
              CONFIG_SUCCESS \<Rightarrow> CONFIG_DENY
            | CONFIG_NOMATCH \<Rightarrow> CONFIG_NOMATCH
            | CONFIG_DENY \<Rightarrow> CONFIG_NOMATCH
            | CONFIG_ERROR \<Rightarrow> CONFIG_ERROR))"

definition acl_check_gput ::
  "(string \<Rightarrow> string \<Rightarrow> string option \<Rightarrow> bool option) \<Rightarrow> ('c, 'z) client_scheme \<Rightarrow> string
     \<Rightarrow> config_status" where
  "acl_check_gput gput c data =
     (let run = (\<lambda>role xform. case gput role (user c) xform of
                    None \<Rightarrow> CONFIG_ERROR
                  | Some b \<Rightarrow> if b then CONFIG_SUCCESS else CONFIG_NOMATCH)
      in case strchr data (CHR ''['') of
           None \<Rightarrow> run data None
         | Some xform_start \<Rightarrow>
             (case strchr (tl xform_start) (CHR '']'') of
                None \<Rightarrow> CONFIG_ERROR
              | Some xform_end \<Rightarrow>
                  if tl xform_end \<noteq> [] then CONFIG_ERROR
                  else run (x_strndup data (length data - length xform_start))
                         (Some (x_strndup (tl xform_start)
                                  (length (tl xform_start) - length xform_end)))))"

definition acl_check_pcre ::
  "(string \<Rightarrow> string \<Rightarrow> int option) \<Rightarrow> ('c, 'z) client_scheme \<Rightarrow> string \<Rightarrow> config_status" where
  "acl_check_pcre pcre c data =
     (case pcre data (user c) of
        None \<Rightarrow> CONFIG_ERROR
      | Some status \<Rightarrow>
          if status < 0 then (if status = -1 then CONFIG_NOMATCH else CONFIG_ERROR)
          else CONFIG_SUCCESS)"

definition acl_check_regex ::
  "(string \<Rightarrow> string \<Rightarrow> int option) \<Rightarrow> ('c, 'z) client_scheme \<Rightarrow> string \<Rightarrow> config_status" where
  "acl_check_regex regex c data =
     (case regex data (user c) of
        None \<Rightarrow> CONFIG_ERROR
      | Some status \<Rightarrow>
          if status = 0 then CONFIG_SUCCESS
          else if status = 1 then CONFIG_NOMATCH else CONFIG_ERROR)"

text \<open>
  \<open>acl_getgrnam\<close> retries until the lookup is neither interrupted nor short of
  space; the list has the results of the successive calls.
\<close>

fun acl_getgrnam :: "gr_result list \<Rightarrow> config_status \<times> (nat \<times> string list) option" where
  "acl_getgrnam [] = (CONFIG_SUCCESS, None)"
| "acl_getgrnam (Gr_ERANGE # r) = acl_getgrnam r"
| "acl_getgrnam (Gr_EINTR # r) = acl_getgrnam r"
| "acl_getgrnam (Gr_Err # r) = (CONFIG_ERROR, None)"
| "acl_getgrnam (Gr_Absent # r) = (CONFIG_SUCCESS, None)"
| "acl_getgrnam (Gr_Found g mem # r) = (CONFIG_SUCCESS, Some (g, mem))"

definition user_to_localname :: "group_lib \<Rightarrow> string \<Rightarrow> bool \<times> string option" where
  "user_to_localname lib usr =
     (case aname_to_localname lib usr of
        Ln_Init_Failed \<Rightarrow> (False, None)
      | Ln_Parse_Failed \<Rightarrow> (False, None)
      | Ln_None \<Rightarrow> (True, None)
      | Ln_Name n \<Rightarrow> (True, Some n)
      | Ln_Failed \<Rightarrow> (False, None))"

definition acl_check_localgroup ::
  "acl_env \<Rightarrow> group_lib \<Rightarrow> ('c, 'z) client_scheme \<Rightarrow> string \<Rightarrow> config_status" where
  "acl_check_localgroup env lib c grp =
     (case acl_getgrnam (getgrnam_r lib grp) of
        (result, gr) \<Rightarrow>
          if result \<noteq> CONFIG_SUCCESS then result
          else case gr of
            None \<Rightarrow> CONFIG_NOMATCH
          | Some (gr_gid, gr_mem) \<Rightarrow>
              (case user_to_localname lib (user c) of
                 (False, _) \<Rightarrow> CONFIG_ERROR
               | (True, None) \<Rightarrow> CONFIG_NOMATCH
               | (True, Some localname) \<Rightarrow>
                   (case getpwnam env localname of
                      None \<Rightarrow> CONFIG_NOMATCH
                    | Some pw \<Rightarrow>
                        if gr_gid = pw_gid pw then CONFIG_SUCCESS
                        else if localname \<in> set gr_mem then CONFIG_SUCCESS
                        else CONFIG_NOMATCH)))"

subsection \<open>The switch\<close>

text \<open>The table \<open>schemes\<close>: a name leads to its check, or to NULL.\<close>

definition schemes ::
  "acl_env \<Rightarrow> acl_fn \<Rightarrow> ('c, 'z) client_scheme
     \<Rightarrow> (string \<times> (string \<Rightarrow> string \<Rightarrow> fault + config_status) option) list" where
  "schemes env chk c =
     [(''file'', Some (acl_check_file env chk)),
      (''princ'', Some (\<lambda>data file. Inr (acl_check_princ c data))),
      (''anyuser'', Some (\<lambda>data file. Inr (acl_check_anyuser c data))),
      (''deny'', Some (acl_check_deny chk)),
      (''gput'', map_option (\<lambda>l data file. Inr (acl_check_gput l c data)) (gput_check env)),
      (''localgroup'',
         map_option (\<lambda>l data file. Inr (acl_check_localgroup env l c data)) (group_lib env)),
      (''pcre'', map_option (\<lambda>l data file. Inr (acl_check_pcre l c data)) (pcre2_match env)),
      (''regex'', map_option (\<lambda>l data file. Inr (acl_check_regex l c data)) (regexec env))]"

definition default_scheme :: "acl_default \<Rightarrow> string" where
  "default_scheme d = (case d of ACL_SCHEME_FILE \<Rightarrow> ''file'' | ACL_SCHEME_PRINC \<Rightarrow> ''princ'')"

definition acl_split :: "acl_default \<Rightarrow> string \<Rightarrow> string \<times> string" where
  "acl_split def_index entry0 =
     (let entry = (if entry0 = ''ANYUSER'' then ''anyuser:auth'' else entry0)
      in case strchr entry (CHR '':'') of
           Some data \<Rightarrow> (x_strndup entry (length entry - length data), tl data)
         | None \<Rightarrow> (default_scheme def_index, entry))"

fun acl_check ::
  "nat \<Rightarrow> acl_env \<Rightarrow> ('c, 'z) client_scheme \<Rightarrow> string \<Rightarrow> acl_default \<Rightarrow> string
     \<Rightarrow> fault + config_status" where
  "acl_check 0 env c entry def_index file = Inl Stack_exhausted"
| "acl_check (Suc depth) env c entry def_index file =
     (case acl_split def_index entry of
        (scheme, data) \<Rightarrow>
          (case map_of (schemes env (acl_check depth env c) c) scheme of
             None \<Rightarrow> Inr CONFIG_ERROR
           | Some None \<Rightarrow> Inr CONFIG_ERROR
           | Some (Some check) \<Rightarrow> check data file))"

declare acl_check.simps [simp del]

primrec acl_permit_loop ::
  "(string \<Rightarrow> fault + config_status) \<Rightarrow> string list \<Rightarrow> fault + bool" where
  "acl_permit_loop chk [] = Inr False"
| "acl_permit_loop chk (a # as) =
     ebind (chk a) (\<lambda>status.
       if status = CONFIG_SUCCESS then Inr True
       else if status < CONFIG_NOMATCH then Inr False
       else acl_permit_loop chk as)"

definition server_config_acl_permit ::
  "nat \<Rightarrow> acl_env \<Rightarrow> rule \<Rightarrow> ('c, 'z) client_scheme \<Rightarrow> fault + bool" where
  "server_config_acl_permit depth env r c =
     acl_permit_loop (\<lambda>a. acl_check depth env c a ACL_SCHEME_FILE (rule_file r)) (acls r)"

subsection \<open>The meaning of an ACL file\<close>

text \<open>What a line of the file asks for, and the list of all lines.\<close>

datatype acl_line = Skip | Bad_line | Check string acl_default

definition acl_line :: "bytes \<Rightarrow> acl_line" where
  "acl_line raw =
     (let b = c_string raw; buffer = strip_trailing b; p = dropWhile isspace buffer;
          line = split_words [CHR '' '', TAB] buffer
      in if length b \<ge> BUFSIZ - 1 then Bad_line
         else if p = [] \<or> hd p = CHR ''#'' then Skip
         else if CHR '' '' \<notin> set p then Check p ACL_SCHEME_PRINC
         else if length line = 2 \<and> line ! 0 = ''include'' then Check (line ! 1) ACL_SCHEME_FILE
         else Bad_line)"

function acl_lines :: "bytes \<Rightarrow> acl_line list" where
  "acl_lines content =
     (case fgets BUFSIZ content of
        None \<Rightarrow> []
      | Some (raw, rest) \<Rightarrow> acl_line raw # acl_lines rest)"
  by pat_completeness auto
termination by (relation "measure length") (auto dest: fgets_less)

declare acl_lines.simps [simp del]

primrec line_status :: "acl_fn \<Rightarrow> string \<Rightarrow> acl_line \<Rightarrow> fault + config_status" where
  "line_status chk file Skip = Inr CONFIG_NOMATCH"
| "line_status chk file Bad_line = Inr CONFIG_ERROR"
| "line_status chk file (Check e d) = chk e d file"

primrec first_match :: "(fault + config_status) list \<Rightarrow> fault + config_status" where
  "first_match [] = Inr CONFIG_NOMATCH"
| "first_match (r # rs) = ebind r (\<lambda>s. if s \<noteq> CONFIG_NOMATCH then Inr s else first_match rs)"

text \<open>A file means the status of its first line that is not a mismatch.\<close>

lemma acl_file_loop_lines:
  "acl_file_loop chk aclfile content = first_match (map (line_status chk aclfile) (acl_lines content))"
proof (induction content rule: acl_lines.induct)
  case (1 content)
  show ?case
  proof (cases "fgets BUFSIZ content")
    case None
    then show ?thesis by (simp add: acl_file_loop.simps [of chk aclfile content] acl_lines.simps [of content])
  next
    case (Some x)
    then obtain raw rest where x: "fgets BUFSIZ content = Some (raw, rest)" by (cases x) auto
    show ?thesis
      unfolding acl_file_loop.simps [of chk aclfile content] acl_lines.simps [of content] x
        option.case prod.case "1.IH" [OF x refl]
      by (simp add: acl_line_def Let_def)
  qed
qed

lemma first_match_Inr:
  "first_match rs = Inr s \<longleftrightarrow>
     s = CONFIG_NOMATCH \<and> (\<forall>r \<in> set rs. r = Inr CONFIG_NOMATCH)
     \<or> s \<noteq> CONFIG_NOMATCH \<and> (\<exists>pre post. rs = pre @ Inr s # post \<and> (\<forall>r \<in> set pre. r = Inr CONFIG_NOMATCH))"
proof (induction rs)
  case (Cons r rs)
  show ?case
  proof (cases "r = Inr CONFIG_NOMATCH")
    case True
    have "(\<exists>pre post. r # rs = pre @ Inr s # post \<and> (\<forall>r \<in> set pre. r = Inr CONFIG_NOMATCH)) \<longleftrightarrow>
          (\<exists>pre post. rs = pre @ Inr s # post \<and> (\<forall>r \<in> set pre. r = Inr CONFIG_NOMATCH))"
      if "s \<noteq> CONFIG_NOMATCH"
    proof
      assume "\<exists>pre post. r # rs = pre @ Inr s # post \<and> (\<forall>r \<in> set pre. r = Inr CONFIG_NOMATCH)"
      then obtain pre post where "r # rs = pre @ Inr s # post" "\<forall>r \<in> set pre. r = Inr CONFIG_NOMATCH"
        by blast
      with True that show "\<exists>pre post. rs = pre @ Inr s # post \<and> (\<forall>r \<in> set pre. r = Inr CONFIG_NOMATCH)"
        by (cases pre) auto
    next
      assume "\<exists>pre post. rs = pre @ Inr s # post \<and> (\<forall>r \<in> set pre. r = Inr CONFIG_NOMATCH)"
      then obtain pre post where "rs = pre @ Inr s # post" "\<forall>r \<in> set pre. r = Inr CONFIG_NOMATCH"
        by blast
      with True show "\<exists>pre post. r # rs = pre @ Inr s # post \<and> (\<forall>r \<in> set pre. r = Inr CONFIG_NOMATCH)"
        by (intro exI [of _ "r # pre"] exI [of _ post]) simp
    qed
    with True Cons show ?thesis by auto
  next
    case False
    then show ?thesis by (cases r) (auto simp: Cons_eq_append_conv)
  qed
qed auto

subsection \<open>Depth\<close>

text \<open>A checker that is at least as defined leads to schemes that are.\<close>

locale acl_refined =
  fixes chk chk' :: acl_fn
  assumes chk_refined: "chk e d f = Inr s \<Longrightarrow> chk' e d f = Inr s"
begin

lemma file_loop_refined:
  assumes "acl_file_loop chk file content = Inr s"
  shows "acl_file_loop chk' file content = Inr s"
proof -
  have line: "line_status chk file l = Inr s \<Longrightarrow> line_status chk' file l = Inr s" for l s
    by (cases l) (auto dest: chk_refined)
  have "first_match (map (line_status chk file) ls) = Inr s \<Longrightarrow>
        first_match (map (line_status chk' file) ls) = Inr s" for ls
    by (induction ls) (auto simp: exec dest: line split: if_splits)
  with assms show ?thesis unfolding acl_file_loop_lines by blast
qed

lemma file_internal_refined:
  "include_refined (acl_check_file_internal env chk) (acl_check_file_internal env chk')"
  by unfold_locales
     (auto simp: acl_check_file_internal_def exec split: option.splits dest: file_loop_refined)

lemma scheme_refined:
  assumes "map_of (schemes env chk c) scheme = Some (Some f)" "f data file = Inr s"
  shows "\<exists>f'. map_of (schemes env chk' c) scheme = Some (Some f') \<and> f' data file = Inr s"
  using assms include_refined.handle_include_refined [OF file_internal_refined]
  by (auto simp: schemes_def acl_check_file_def acl_check_deny_def exec split: if_splits)
     (blast dest: chk_refined)

lemma scheme_shape:
  "map_of (schemes env chk c) scheme = None \<longleftrightarrow> map_of (schemes env chk' c) scheme = None"
  "map_of (schemes env chk c) scheme = Some None \<longleftrightarrow> map_of (schemes env chk' c) scheme = Some None"
  by (auto simp: schemes_def split: if_splits)

end

lemma acl_check_mono:
  "acl_check n env c e d f = Inr s \<Longrightarrow> acl_check (n + k) env c e d f = Inr s"
proof (induction n arbitrary: e d f s)
  case (Suc n)
  have r: "acl_refined (acl_check n env c) (acl_check (n + k) env c)"
    by unfold_locales (rule Suc.IH)
  obtain sch data where "acl_split d e = (sch, data)" by fastforce
  with Suc.prems acl_refined.scheme_refined [OF r, of env c sch _ data f s]
    acl_refined.scheme_shape [OF r, of env c sch]
  show ?case by (auto simp: acl_check.simps split: option.splits)
qed (simp add: acl_check.simps)

interpretation acl_deeper: acl_refined "acl_check n env c" "acl_check (n + k) env c"
  by unfold_locales (rule acl_check_mono)

text \<open>
  The files that checking an entry may open, and a rank that every nested
  check decreases. Where such a rank exists, no file includes itself through
  others.
\<close>

definition include_files :: "filesystem \<Rightarrow> string \<Rightarrow> string list" where
  "include_files fsys name =
     (case fsys name of
        Some (File _) \<Rightarrow> [name]
      | Some (Dir (Some es)) \<Rightarrow> map (\<lambda>e. name @ ''/'' @ e) (filter valid_filename es)
      | _ \<Rightarrow> [])"

lemma strchr_shorter: "strchr s c = Some t \<Longrightarrow> length (tl t) < length s"
  using strchr_Some [of s c t] by (metis length_append length_tl add_strict_increasing2
      diff_less length_greater_0_conv le0 less_one trans_less_add2)

lemma acl_split_deny_shorter:
  "acl_split d e = (''deny'', data) \<Longrightarrow> length data < length e"
proof (cases "e = ''ANYUSER''")
  case True
  assume "acl_split d e = (''deny'', data)"
  with True show ?thesis by (simp add: acl_split_def strchr_def x_strndup_def)
next
  case False
  assume "acl_split d e = (''deny'', data)"
  with False show ?thesis
    by (auto simp: acl_split_def Let_def default_scheme_def
        dest: strchr_shorter split: option.splits acl_default.splits)
qed

function entry_files :: "filesystem \<Rightarrow> acl_default \<Rightarrow> string \<Rightarrow> string list" where
  "entry_files fsys d e =
     (case acl_split d e of
        (scheme, data) \<Rightarrow>
          if scheme = ''file'' then include_files fsys data
          else if scheme = ''deny'' then entry_files fsys ACL_SCHEME_PRINC data
          else [])"
  by pat_completeness auto
termination
  by (relation "measure (\<lambda>(fsys, d, e). length e)") (auto dest!: sym [of _ "acl_split _ _"] acl_split_deny_shorter)

declare entry_files.simps [simp del]

definition acl_ranked :: "filesystem \<Rightarrow> (string \<Rightarrow> nat) \<Rightarrow> bool" where
  "acl_ranked fsys rank \<longleftrightarrow>
     (\<forall>f content e d. fopen_read fsys f = Some content \<longrightarrow> Check e d \<in> set (acl_lines content) \<longrightarrow>
        (\<forall>t \<in> set (entry_files fsys d e). rank t < rank f))"

lemma settled_first_match:
  assumes "\<And>l. l \<in> set ls \<Longrightarrow> \<exists>s. settled (\<lambda>n. F n l) s"
  shows "\<exists>s. settled (\<lambda>n. first_match (map (F n) ls)) s"
  using assms
proof (induction ls)
  case (Cons l ls)
  obtain s where s: "settled (\<lambda>n. F n l) s" using Cons.prems [of l] by auto
  obtain s' where s': "settled (\<lambda>n. first_match (map (F n) ls)) s'" using Cons by auto
  have "settled (\<lambda>n. ebind (F n l) (\<lambda>s. if s \<noteq> CONFIG_NOMATCH then Inr s else first_match (map (F n) ls)))
          (if s \<noteq> CONFIG_NOMATCH then s else s')"
    by (rule settled_ebind [OF s]) (use s' in auto)
  then show ?case unfolding first_match.simps list.map by blast
qed auto

lemma settled_file:
  assumes "\<And>content e d. fopen_read (fs env) f = Some content \<Longrightarrow>
             Check e d \<in> set (acl_lines content) \<Longrightarrow> \<exists>s. settled (\<lambda>n. chk n e d f) s"
  shows "\<exists>s. settled (\<lambda>n. acl_check_file_internal env (chk n) u f) s"
proof (cases "fopen_read (fs env) f")
  case None
  then show ?thesis unfolding acl_check_file_internal_def by auto
next
  case (Some content)
  have "\<exists>s. settled (\<lambda>n. line_status (chk n) f l) s" if "l \<in> set (acl_lines content)" for l
    by (cases l) (use that assms [OF Some] in auto)
  then obtain s where "settled (\<lambda>n. acl_file_loop (chk n) f content) s"
    unfolding acl_file_loop_lines
    using settled_first_match [of "acl_lines content" "\<lambda>n. line_status (chk n) f"] by blast
  then have "settled (\<lambda>n. ebind (acl_file_loop (chk n) f content) (\<lambda>st. Inr (st, u))) (s, u)"
    by (rule settled_ebind) simp
  then show ?thesis unfolding acl_check_file_internal_def Some option.case by blast
qed

lemma settled_include_dir:
  fixes F :: "nat \<Rightarrow> unit include_fn"
  assumes "\<And>e. e \<in> set (filter valid_filename es) \<Longrightarrow> \<exists>s. settled (\<lambda>n. F n () (dir @ ''/'' @ e)) s"
  shows "\<exists>s. settled (\<lambda>n. include_dir (F n) dir es st ()) s"
  using assms
proof (induction es arbitrary: st)
  case (Cons e es)
  have IH: "\<exists>s. settled (\<lambda>n. include_dir (F n) dir es st ()) s" for st
    using Cons by auto
  show ?case
  proof (cases "valid_filename e")
    case True
    obtain last where l: "settled (\<lambda>n. F n () (dir @ ''/'' @ e)) (last, ())"
      using Cons.prems [of e] True by auto
    obtain s' where s': "settled (\<lambda>n. include_dir (F n) dir es (if last > st then last else st) ()) s'"
      using IH by blast
    have "settled (\<lambda>n. ebind (F n () (dir @ ''/'' @ e)) (\<lambda>(last, s1). if last < CONFIG_NOMATCH then Inr (last, s1)
             else include_dir (F n) dir es (if last > st then last else st) s1))
          (if last < CONFIG_NOMATCH then (last, ()) else s')"
      by (rule settled_ebind [OF l]) (use s' in \<open>auto simp del: below_nomatch\<close>)
    with True show ?thesis unfolding include_dir.simps if_not_P not_not by (simp only: not_True_eq_False if_False) blast
  next
    case False
    then show ?thesis using IH by simp
  qed
qed auto

lemma settled_check_file:
  assumes "\<And>t. t \<in> set (include_files (fs env) data) \<Longrightarrow>
             \<exists>s. settled (\<lambda>n. acl_check_file_internal env (chk n) () t) s"
  shows "\<exists>s. settled (\<lambda>n. acl_check_file env (chk n) data f) s"
proof -
  have "\<exists>s. settled (\<lambda>n. handle_include (fs env) data f (acl_check_file_internal env (chk n)) ()) s"
  proof (cases "fs env data")
    case None
    then show ?thesis by (cases "data = f") (auto simp: handle_include_def)
  next
    case (Some nd)
    show ?thesis
    proof (cases "data = f")
      case False
      show ?thesis
      proof (cases nd)
        case (File x)
        then show ?thesis
          using assms [of data] Some False by (simp add: handle_include_def include_files_def)
      next
        case (Dir x)
        then show ?thesis
          using settled_include_dir [of "the x" "\<lambda>n. acl_check_file_internal env (chk n)" data] assms Some False
          by (cases x) (auto simp: handle_include_def include_files_def)
      qed
    qed (auto simp: handle_include_def)
  qed
  then obtain st where "settled (\<lambda>n. handle_include (fs env) data f (acl_check_file_internal env (chk n)) ()) (st, ())"
    by auto
  then have "settled (\<lambda>n. acl_check_file env (chk n) data f) st"
    unfolding acl_check_file_def by (rule settled_ebind) simp
  then show ?thesis by blast
qed

lemma acl_check_settles:
  assumes ranked: "acl_ranked (fs env) rank"
  shows "(\<forall>t \<in> set (entry_files (fs env) d e). rank t < k) \<Longrightarrow>
           \<exists>s. settled (\<lambda>n. acl_check n env c e d f) s"
proof (induction k arbitrary: d e f rule: less_induct)
  case (less k)
  show ?case using less.prems
  proof (induction e arbitrary: d f rule: length_induct)
    case (1 e)
    obtain sch data where sp: "acl_split d e = (sch, data)" by fastforce
    have inner: "\<exists>s. settled (\<lambda>n. acl_check_file_internal env (acl_check n env c) () t) s"
      if "rank t < k" for t
    proof (rule settled_file)
      fix content e' d'
      assume "fopen_read (fs env) t = Some content" "Check e' d' \<in> set (acl_lines content)"
      then have "\<forall>t' \<in> set (entry_files (fs env) d' e'). rank t' < rank t"
        using ranked unfolding acl_ranked_def by blast
      then show "\<exists>s. settled (\<lambda>n. acl_check n env c e' d' t) s" using less.IH [OF that] by blast
    qed
    have fl: "\<exists>s. settled (\<lambda>n. acl_check_file env (acl_check n env c) data f) s" if "sch = ''file''"
      by (rule settled_check_file)
         (use "1.prems" inner sp that in \<open>auto simp: entry_files.simps [of "fs env" d e]\<close>)
    have deny: "\<exists>s. settled (\<lambda>n. acl_check_deny (acl_check n env c) data f) s" if "sch = ''deny''"
    proof -
      have "length data < length e" using acl_split_deny_shorter sp that by blast
      moreover have "\<forall>t \<in> set (entry_files (fs env) ACL_SCHEME_PRINC data). rank t < k"
        using "1.prems" sp that by (simp add: entry_files.simps [of "fs env" d e])
      ultimately obtain s where "settled (\<lambda>n. acl_check n env c data ACL_SCHEME_PRINC f) s"
        using "1.IH" by blast
      from settled_ebind [OF this settled_const] show ?thesis unfolding acl_check_deny_def by blast
    qed
    have "\<exists>s. settled (\<lambda>n. acl_check (Suc n) env c e d f) s"
    proof (cases "map_of (schemes env undefined c) sch")
      case None
      then have "map_of (schemes env (acl_check n env c) c) sch = None" for n
        by (auto simp: schemes_def split: if_splits)
      then show ?thesis by (auto simp: acl_check.simps sp)
    next
      case (Some g)
      then show ?thesis
        using fl deny by (auto simp: acl_check.simps sp schemes_def split: if_splits option.splits)
    qed
    then show ?case using settled_Suc [of "\<lambda>n. acl_check n env c e d f"] by blast
  qed
qed


text \<open>Of the client, only the name and whether it is anonymous matter.\<close>

lemma schemes_client:
  assumes "user c1 = user c" "anonymous c1 = anonymous c"
  shows "schemes env chk c1 = schemes env chk c"
  unfolding schemes_def acl_check_princ_def acl_check_anyuser_def acl_check_gput_def
    acl_check_pcre_def acl_check_regex_def acl_check_localgroup_def assms ..

lemma acl_check_client:
  assumes "user c1 = user c" "anonymous c1 = anonymous c"
  shows "acl_check n env c1 = acl_check n env c"
proof (induction n)
  case (Suc n)
  show ?case
    by (intro ext) (simp add: acl_check.simps Suc schemes_client [OF assms])
qed (intro ext, simp add: acl_check.simps)

lemma acl_permit_ident:
  "ident c1 = ident c \<Longrightarrow> server_config_acl_permit n env r c1 = server_config_acl_permit n env r c"
  unfolding server_config_acl_permit_def using acl_check_client ident_eqD by metis

lemmas acl_permit_client = acl_permit_ident [OF who_ident]

subsection \<open>Properties\<close>

text \<open>
  C21: \<open>server_config_acl_permit\<close> grants access exactly when some ACL of the
  rule grants it and every ACL before it is a plain mismatch. An error or a
  denial before that ends the check and refuses access.
\<close>

theorem acl_permit_iff:
  "server_config_acl_permit depth env r c = Inr True \<longleftrightarrow>
     (\<exists>pre a post. acls r = pre @ a # post
        \<and> acl_check depth env c a ACL_SCHEME_FILE (rule_file r) = Inr CONFIG_SUCCESS
        \<and> (\<forall>b \<in> set pre. acl_check depth env c b ACL_SCHEME_FILE (rule_file r) = Inr CONFIG_NOMATCH))"
proof -
  let ?chk = "\<lambda>a. acl_check depth env c a ACL_SCHEME_FILE (rule_file r)"
  have "acl_permit_loop ?chk as = Inr True \<longleftrightarrow>
      (\<exists>pre a post. as = pre @ a # post \<and> ?chk a = Inr CONFIG_SUCCESS
         \<and> (\<forall>b \<in> set pre. ?chk b = Inr CONFIG_NOMATCH))" for as
  proof (induction as)
    case (Cons b as)
    have nomatch: "status \<noteq> CONFIG_SUCCESS \<Longrightarrow> \<not> status < CONFIG_NOMATCH \<Longrightarrow> status = CONFIG_NOMATCH" for status
      by (cases status) simp_all
    show ?case (is "?l \<longleftrightarrow> ?r")
    proof
      assume ?l
      then consider "?chk b = Inr CONFIG_SUCCESS"
        | "?chk b = Inr CONFIG_NOMATCH" "acl_permit_loop ?chk as = Inr True"
        by (auto simp: exec simp del: below_nomatch split: if_splits dest: nomatch)
      then show ?r
      proof cases
        case 1
        then show ?thesis
          by (intro exI [where x = "[]"] exI [where x = b] exI [where x = as]) simp
      next
        case 2
        with Cons obtain pre a post where "as = pre @ a # post" "?chk a = Inr CONFIG_SUCCESS"
          "\<forall>b \<in> set pre. ?chk b = Inr CONFIG_NOMATCH" by blast
        with 2 show ?thesis by (intro exI [of _ "b # pre"]) auto
      qed
    next
      assume ?r
      then obtain pre a post where *: "b # as = pre @ a # post" "?chk a = Inr CONFIG_SUCCESS"
        "\<forall>b \<in> set pre. ?chk b = Inr CONFIG_NOMATCH" by blast
      then show ?l using Cons by (cases pre) auto
    qed
  qed simp
  then show ?thesis unfolding server_config_acl_permit_def .
qed

lemma map_split_ex:
  fixes f :: "'a \<Rightarrow> 'b"
  shows "(\<exists>pre post. map f ls = pre @ x # post \<and> (\<forall>r \<in> set pre. r = y)) \<longleftrightarrow>
    (\<exists>i < length ls. f (ls ! i) = x \<and> (\<forall>j < i. f (ls ! j) = y))"
proof
  assume "\<exists>pre post. map f ls = pre @ x # post \<and> (\<forall>r \<in> set pre. r = y)"
  then obtain pre post where *: "map f ls = pre @ x # post" "\<forall>r \<in> set pre. r = y" by blast
  have l: "length pre < length ls" using arg_cong [OF *(1), of length] by simp
  have "f (ls ! length pre) = x" using arg_cong [OF *(1), of "\<lambda>l. l ! length pre"] l by simp
  moreover have "f (ls ! j) = y" if "j < length pre" for j
    using arg_cong [OF *(1), of "\<lambda>l. l ! j"] l that *(2) by (auto simp: nth_append)
  ultimately show "\<exists>i < length ls. f (ls ! i) = x \<and> (\<forall>j < i. f (ls ! j) = y)" using l by blast
next
  assume "\<exists>i < length ls. f (ls ! i) = x \<and> (\<forall>j < i. f (ls ! j) = y)"
  then obtain i where i: "i < length ls" "f (ls ! i) = x" "\<forall>j < i. f (ls ! j) = y" by blast
  then have "map f ls = map f (take i ls) @ x # map f (drop (Suc i) ls)"
    using id_take_nth_drop [OF i(1)] by (metis list.map(2) map_append)
  moreover have "\<forall>r \<in> set (map f (take i ls)). r = y" using i by (auto simp: in_set_conv_nth)
  ultimately show "\<exists>pre post. map f ls = pre @ x # post \<and> (\<forall>r \<in> set pre. r = y)" by blast
qed

text \<open>
  C22: an ACL file is decided by its first line that is not a mismatch: blank
  lines and comments are skipped, a malformed line is an error, and a file
  without a decisive line is a mismatch. Every ACL file that can be opened is
  covered.
\<close>

theorem acl_file_first_match:
  "acl_file_loop chk aclfile content = Inr s \<longleftrightarrow>
     s = CONFIG_NOMATCH \<and> (\<forall>l \<in> set (acl_lines content). line_status chk aclfile l = Inr CONFIG_NOMATCH)
     \<or> s \<noteq> CONFIG_NOMATCH \<and> (\<exists>i < length (acl_lines content).
          line_status chk aclfile (acl_lines content ! i) = Inr s
          \<and> (\<forall>j < i. line_status chk aclfile (acl_lines content ! j) = Inr CONFIG_NOMATCH))"
proof -
  show ?thesis unfolding acl_file_loop_lines first_match_Inr map_split_ex by simp
qed

lemma schemes_lookup:
  "map_of (schemes env chk c) ''file'' = Some (Some (acl_check_file env chk))"
  "map_of (schemes env chk c) ''princ'' = Some (Some (\<lambda>data file. Inr (acl_check_princ c data)))"
  "map_of (schemes env chk c) ''anyuser'' = Some (Some (\<lambda>data file. Inr (acl_check_anyuser c data)))"
  "map_of (schemes env chk c) ''deny'' = Some (Some (acl_check_deny chk))"
  by (simp_all add: schemes_def)

lemma acl_check_deny_not_success: "acl_check_deny chk data f \<noteq> Inr CONFIG_SUCCESS"
  by (auto simp: acl_check_deny_def exec split: config_status.splits)

lemma acl_check_denied:
  assumes "fst (acl_split ACL_SCHEME_FILE a) = ''deny''
           \<or> anonymous c \<and> acl_split ACL_SCHEME_FILE a = (''anyuser'', ''auth'')"
  shows "acl_check depth env c a ACL_SCHEME_FILE f \<noteq> Inr CONFIG_SUCCESS"
proof (cases depth)
  case (Suc n)
  show ?thesis
  proof (cases "fst (acl_split ACL_SCHEME_FILE a) = ''deny''")
    case True
    then obtain data where "acl_split ACL_SCHEME_FILE a = (''deny'', data)" by (metis prod.collapse)
    then show ?thesis
      by (simp add: Suc acl_check.simps schemes_lookup acl_check_deny_not_success)
  next
    case False
    with assms show ?thesis
      by (simp add: Suc acl_check.simps schemes_lookup acl_check_anyuser_def)
  qed
qed (simp add: acl_check.simps)

text \<open>
  C23: a rule whose ACLs are all of the form \<open>deny:\<dots>\<close> grants access to nobody,
  and neither does one whose ACLs all ask for an authenticated user when the
  client is anonymous, whatever the files and libraries contain.
\<close>

theorem acl_denied_never_permitted:
  assumes "\<forall>a \<in> set (acls r). fst (acl_split ACL_SCHEME_FILE a) = ''deny''
             \<or> anonymous c \<and> acl_split ACL_SCHEME_FILE a = (''anyuser'', ''auth'')"
  shows "server_config_acl_permit depth env r c \<noteq> Inr True"
proof -
  have "acl_permit_loop (\<lambda>a. acl_check depth env c a ACL_SCHEME_FILE f) as \<noteq> Inr True"
    if "\<forall>a \<in> set as. acl_check depth env c a ACL_SCHEME_FILE f \<noteq> Inr CONFIG_SUCCESS" for as f
    using that by (induction as) (auto simp: exec split: if_splits)
  then show ?thesis
    unfolding server_config_acl_permit_def using assms acl_check_denied by blast
qed

text \<open>A small installation: two ACL files, one of which includes the other.\<close>

definition demo_fs :: filesystem where
  "demo_fs name =
     (if name = ''/acl/admins'' then Some (File (Some (''# admins'' @ [NL] @ ''eagle@EX'' @ [NL])))
      else if name = ''/acl/all''
        then Some (File (Some (''deny:mallory@EX'' @ [NL] @ ''include /acl/admins'' @ [NL] @ ''ANYUSER'' @ [NL])))
      else None)"

definition demo_env :: acl_env where
  "demo_env = \<lparr>fs = demo_fs, getpwnam = Map.empty, getpwuid = Map.empty, gput_check = None,
     pcre2_match = None, regexec = None, group_lib = None\<rparr>"

definition demo_rule :: rule where
  "demo_rule = \<lparr>rule_file = ''/etc/remctl.conf'', lineno = 1, line = [], command = ''test'',
     subcommand = ''ALL'', program = ''/bin/echo'', logmask = None, stdin_arg = 0, rule_user = None,
     sudo_user = None, uid = 0, gid = 0, summary = None, rule_help = None,
     acls = [''/acl/admins'', ''/acl/all'']\<rparr>"

definition demo_client :: "nat client" where
  "demo_client = chan.extend demo_chan
     \<lparr>protocol = 3, backend = V2, user = ''eagle@EX'', hostname = None, ipaddress = ''127.0.0.1'',
      anonymous = False, ctx_flags = 0, expires = 0, keepalive = True, fatal = False,
      stderr_sock = idle, logs = []\<rparr>"

lemma demo_client_simps [simp]:
  "user demo_client = ''eagle@EX''" "anonymous demo_client = False" "fatal demo_client = False"
  "logs demo_client = []" "protocol demo_client = 3" "backend demo_client = V2"
  "stderr_sock demo_client = idle" "keepalive demo_client = True"
  by (simp_all add: demo_client_def chan.extend_def demo_chan_def sock.extend_def idle_def)

lemma acl_lines_step:
  assumes "NL \<notin> set l" "length l < 1000"
  shows "acl_lines (l @ NL # r) = acl_line (l @ [NL]) # acl_lines r"
proof -
  have "fgets BUFSIZ (l @ NL # r) = Some (l @ [NL], r)"
    unfolding fgets_def BUFSIZ_def using assms read_line_NL [of l 8191 r] by simp
  then show ?thesis unfolding acl_lines.simps [of "l @ NL # r"] by simp
qed

lemma acl_lines_Nil [simp]: "acl_lines [] = []"
  by (simp add: acl_lines.simps fgets_def)

lemma acl_line_plain:
  assumes "set l \<inter> {NUL, NL, CHR '' ''} = {}" "l \<noteq> []" "\<not> isspace (hd l)" "\<not> isspace (last l)"
    "hd l \<noteq> CHR ''#''" "length l < 1000"
  shows "acl_line (l @ [NL]) = Check l ACL_SCHEME_PRINC"
proof -
  obtain x l' where l: "l = x # l'" using assms(2) by (cases l) auto
  have c: "c_string (l @ [NL]) = l @ [NL]" unfolding c_string_def by (rule takeWhile_no) (use assms(1) in auto)
  have "isspace NL" by (simp add: isspace_def)
  then have "dropWhile isspace (rev (l' @ [NL])) = rev l'"
    using assms(4) l by (cases l' rule: rev_cases) (auto split: if_splits)
  then have "strip_trailing (l @ [NL]) = l" unfolding strip_trailing_def l by simp
  moreover have "dropWhile isspace l = l" using assms(3) l by simp
  ultimately show ?thesis using assms c unfolding acl_line_def Let_def by (auto simp: BUFSIZ_def)
qed

lemma demo_lines:
  "acl_lines (''# admins'' @ [NL] @ ''eagle@EX'' @ [NL]) = [Skip, Check ''eagle@EX'' ACL_SCHEME_PRINC]"
proof -
  have "acl_line (''# admins'' @ [NL]) = Skip"
    by (simp add: acl_line_def c_string_def strip_trailing_def isspace_def BUFSIZ_def)
  then show ?thesis
    using acl_lines_step [of "''# admins''" "''eagle@EX'' @ [NL]"] acl_lines_step [of "''eagle@EX''" "[]"]
      acl_line_plain [of "''eagle@EX''"] by (simp add: isspace_def)
qed

lemma demo_princ:
  "acl_check (Suc n) demo_env demo_client ''eagle@EX'' ACL_SCHEME_PRINC f = Inr CONFIG_SUCCESS"
  by (simp add: acl_check.simps acl_split_def strchr_def default_scheme_def schemes_def
      acl_check_princ_def)

lemma demo_admins:
  "acl_check 2 demo_env demo_client ''/acl/admins'' ACL_SCHEME_FILE ''/etc/remctl.conf''
     = Inr CONFIG_SUCCESS"
proof -
  let ?c = "''# admins'' @ [NL] @ ''eagle@EX'' @ [NL]"
  have "acl_file_loop (acl_check 1 demo_env demo_client) ''/acl/admins'' ?c = Inr CONFIG_SUCCESS"
    unfolding acl_file_loop_lines demo_lines by (simp add: demo_princ)
  moreover have "fopen_read (fs demo_env) ''/acl/admins'' = Some ?c"
    "fs demo_env ''/acl/admins'' = Some (File (Some ?c))"
    by (simp_all add: fopen_read_def demo_env_def demo_fs_def)
  ultimately have "acl_check_file demo_env (acl_check 1 demo_env demo_client) ''/acl/admins'' ''/etc/remctl.conf''
      = Inr CONFIG_SUCCESS"
    unfolding acl_check_file_def handle_include_def acl_check_file_internal_def by simp
  then show ?thesis
    by (simp add: numeral_2_eq_2 acl_check.simps(2) acl_split_def strchr_def default_scheme_def schemes_def)
qed

theorem acl_permit_iff_witness:
  "server_config_acl_permit 2 demo_env demo_rule demo_client = Inr True"
  unfolding acl_permit_iff
  by (intro exI [where x = "[]"] exI [where x = "''/acl/admins''"] exI [where x = "[''/acl/all'']"])
     (simp add: demo_rule_def demo_admins)

theorem acl_file_first_match_witness:
  "acl_file_loop (acl_check 1 demo_env demo_client) ''/acl/admins''
     (''# admins'' @ [NL] @ ''eagle@EX'' @ [NL]) = Inr CONFIG_SUCCESS"
  unfolding acl_file_first_match demo_lines
  by (intro disjI2 conjI exI [of _ "1::nat"]) (auto simp: less_Suc_eq demo_princ)

theorem acl_denied_never_permitted_witness:
  "server_config_acl_permit 9 demo_env (demo_rule\<lparr>acls := [''deny:princ:x'', ''ANYUSER'']\<rparr>)
     (demo_client\<lparr>anonymous := True\<rparr>) \<noteq> Inr True"
  by (rule acl_denied_never_permitted) (simp add: demo_rule_def acl_split_def strchr_def x_strndup_def)

lemma acl_permit_mono:
  assumes "server_config_acl_permit n env r c = Inr b"
  shows "server_config_acl_permit (n + k) env r c = Inr b"
proof -
  have "acl_permit_loop (\<lambda>a. acl_check n env c a ACL_SCHEME_FILE f) as = Inr b \<Longrightarrow>
        acl_permit_loop (\<lambda>a. acl_check (n + k) env c a ACL_SCHEME_FILE f) as = Inr b" for as f
  proof (induction as)
    case (Cons a as)
    then obtain s where "acl_check n env c a ACL_SCHEME_FILE f = Inr s" by (auto simp: exec)
    with Cons acl_check_mono [OF this, of k] show ?case by (auto split: if_splits)
  qed simp
  with assms show ?thesis unfolding server_config_acl_permit_def by blast
qed

lemma acl_permit_settles:
  assumes "acl_ranked (fs env) rank"
  shows "\<exists>b. settled (\<lambda>depth. server_config_acl_permit depth env r c) b"
proof -
  let ?chk = "\<lambda>n a. acl_check n env c a ACL_SCHEME_FILE (rule_file r)"
  have ex: "\<exists>s. settled (\<lambda>n. ?chk n a) s" for a
  proof -
    have "finite (rank ` set (entry_files (fs env) ACL_SCHEME_FILE a))" by simp
    then obtain k where "\<forall>t \<in> set (entry_files (fs env) ACL_SCHEME_FILE a). rank t < k"
      unfolding finite_nat_set_iff_bounded by blast
    then show ?thesis by (rule acl_check_settles [OF assms])
  qed
  have "\<exists>b. settled (\<lambda>n. acl_permit_loop (?chk n) as) b" for as
  proof (induction as)
    case (Cons a as)
    then obtain b where b: "settled (\<lambda>n. acl_permit_loop (?chk n) as) b" by blast
    obtain s where s: "settled (\<lambda>n. ?chk n a) s" using ex by blast
    have "settled (\<lambda>n. ebind (?chk n a) (\<lambda>status. if status = CONFIG_SUCCESS then Inr True
             else if status < CONFIG_NOMATCH then Inr False else acl_permit_loop (?chk n) as))
          (if s = CONFIG_SUCCESS then True else if s < CONFIG_NOMATCH then False else b)"
      by (rule settled_ebind [OF s]) (use b in \<open>auto simp del: below_nomatch\<close>)
    then show ?case unfolding acl_permit_loop.simps by blast
  qed auto
  then show ?thesis unfolding server_config_acl_permit_def .
qed


lemma demo_ranked:
  "acl_ranked (demo_fs(''/acl/all'' := None)) (\<lambda>_. 0)"
proof -
  have "entry_files fsys ACL_SCHEME_PRINC ''eagle@EX'' = []" for fsys
    by (simp add: entry_files.simps acl_split_def strchr_def default_scheme_def)
  then show ?thesis
    using demo_lines by (auto simp: acl_ranked_def fopen_read_def demo_fs_def split: if_splits)
qed


text \<open>
  C25: the guard against recursive includes sees only a file that includes
  itself directly. With two ACL files that include each other, checking either
  never returns: every stack depth is exhausted.
\<close>

definition loop_fs :: filesystem where
  "loop_fs name =
     (if name = ''/a'' then Some (File (Some (''include /b'' @ [NL])))
      else if name = ''/b'' then Some (File (Some (''include /a'' @ [NL])))
      else None)"

lemma loop_lines:
  "acl_lines (''include /b'' @ [NL]) = [Check ''/b'' ACL_SCHEME_FILE]"
  "acl_lines (''include /a'' @ [NL]) = [Check ''/a'' ACL_SCHEME_FILE]"
proof -
  have "acl_line (''include /b'' @ [NL]) = Check ''/b'' ACL_SCHEME_FILE"
    "acl_line (''include /a'' @ [NL]) = Check ''/a'' ACL_SCHEME_FILE"
    by (simp_all add: acl_line_def c_string_def strip_trailing_def isspace_def BUFSIZ_def
        split_words_simps)
  then show "acl_lines (''include /b'' @ [NL]) = [Check ''/b'' ACL_SCHEME_FILE]"
    "acl_lines (''include /a'' @ [NL]) = [Check ''/a'' ACL_SCHEME_FILE]"
    using acl_lines_step [of "''include /b''" "[]"] acl_lines_step [of "''include /a''" "[]"] by simp_all
qed


end
