(* ===== verification/Config.thy ===== *)
theory Config
  imports Acl
begin

text \<open>
  The configuration: options, rules and \<open>read_conf_file\<close> of
  \<^verbatim>\<open>src/server/config.c\<close>, up to \<open>server_config_load\<close>.

  The strings of a rule are those of its split line. \<open>logmask\<close> is the array the
  option builds, terminator included, so that a mask that becomes 0 when it is
  narrowed to \<open>unsigned int\<close> ends the list early, as it does in the code. Reading
  is recursive through \<open>include\<close>, with the same bound on the stack as for ACLs.
\<close>

subsection \<open>Options\<close>

primrec is_option_loop :: "bool \<Rightarrow> string \<Rightarrow> bool" where
  "is_option_loop first [] = False"
| "is_option_loop first (c # p) =
     (if c = CHR ''='' \<and> \<not> first \<and> p \<noteq> [] then True
      else if \<not> isalnum c \<and> c \<noteq> CHR ''-'' then False
      else is_option_loop False p)"

definition is_option :: "string \<Rightarrow> bool" where
  "is_option opt = (if opt = [] \<or> \<not> isalpha (hd opt) then False else is_option_loop True opt)"

definition convert_number :: "string \<Rightarrow> int option" where
  "convert_number s =
     (case strtol s of
        (arg, end, erange) \<Rightarrow> if erange \<or> end \<noteq> [] \<or> arg \<le> 0 then None else Some arg)"

text \<open>The masks, each narrowed to an \<open>unsigned int\<close>; \<open>None\<close> on the first that is no number.\<close>

primrec logmask_loop :: "string list \<Rightarrow> nat list option" where
  "logmask_loop [] = Some [0]"
| "logmask_loop (s # ss) =
     (case convert_number s of
        None \<Rightarrow> None
      | Some m \<Rightarrow>
          if m < 0 then None
          else map_option (\<lambda>ms. nat (m mod 2 ^ 32) # ms) (logmask_loop ss))"

definition option_logmask :: "rule \<Rightarrow> string \<Rightarrow> config_status \<times> rule" where
  "option_logmask r value =
     (case logmask_loop (split_on (CHR '','') value) of
        None \<Rightarrow> (CONFIG_ERROR, r\<lparr>logmask := None\<rparr>)
      | Some masks \<Rightarrow> (CONFIG_SUCCESS, r\<lparr>logmask := Some masks\<rparr>))"

definition option_stdin :: "rule \<Rightarrow> string \<Rightarrow> config_status \<times> rule" where
  "option_stdin r value =
     (if value = ''last'' then (CONFIG_SUCCESS, r\<lparr>stdin_arg := -1\<rparr>)
      else case convert_number value of
             None \<Rightarrow> (CONFIG_ERROR, r)
           | Some arg \<Rightarrow> (CONFIG_SUCCESS, r\<lparr>stdin_arg := arg\<rparr>))"

definition option_sudo :: "rule \<Rightarrow> string \<Rightarrow> config_status \<times> rule" where
  "option_sudo r value = (CONFIG_SUCCESS, r\<lparr>sudo_user := Some value\<rparr>)"

definition option_user :: "acl_env \<Rightarrow> rule \<Rightarrow> string \<Rightarrow> config_status \<times> rule" where
  "option_user env r value =
     (case (case convert_number value of
              Some u \<Rightarrow> getpwuid env (nat (u mod 2 ^ 32))
            | None \<Rightarrow> getpwnam env value) of
        None \<Rightarrow> (CONFIG_ERROR, r)
      | Some pw \<Rightarrow>
          (CONFIG_SUCCESS, r\<lparr>rule_user := Some (pw_name pw), uid := pw_uid pw, gid := pw_gid pw\<rparr>))"

definition option_summary :: "rule \<Rightarrow> string \<Rightarrow> config_status \<times> rule" where
  "option_summary r value = (CONFIG_SUCCESS, r\<lparr>summary := Some value\<rparr>)"

definition option_help :: "rule \<Rightarrow> string \<Rightarrow> config_status \<times> rule" where
  "option_help r value = (CONFIG_SUCCESS, r\<lparr>rule_help := Some value\<rparr>)"

text \<open>The table \<open>options\<close>.\<close>

definition options :: "acl_env \<Rightarrow> (string \<times> (rule \<Rightarrow> string \<Rightarrow> config_status \<times> rule)) list" where
  "options env =
     [(''help'', option_help), (''logmask'', option_logmask), (''stdin'', option_stdin),
      (''sudo'', option_sudo), (''summary'', option_summary), (''user'', option_user env)]"

definition parse_conf_option :: "acl_env \<Rightarrow> rule \<Rightarrow> string \<Rightarrow> config_status \<times> rule" where
  "parse_conf_option env r opt =
     (case strchr opt (CHR ''='') of
        None \<Rightarrow> (CONFIG_ERROR, r)
      | Some end \<Rightarrow>
          (case map_of (options env) (take (length opt - length end) opt) of
             None \<Rightarrow> (CONFIG_ERROR, r)
           | Some parse \<Rightarrow> parse r (tl end)))"

subsection \<open>Rules and lines\<close>

record config =
  rules :: "rule list"
  cfg_allocated :: nat

definition empty_rule :: rule where
  "empty_rule = \<lparr>rule_file = [], lineno = 0, line = [], command = [], subcommand = [], program = [],
     logmask = None, stdin_arg = 0, rule_user = None, sudo_user = None, uid = 0, gid = 0,
     summary = None, rule_help = None, acls = []\<rparr>"

text \<open>Make room for one more rule, then store it at \<open>config->rules[config->count]\<close>.\<close>

definition grow_rules :: "config \<Rightarrow> config" where
  "grow_rules cfg =
     (if length (rules cfg) = cfg_allocated cfg
      then cfg\<lparr>cfg_allocated := (if cfg_allocated cfg < 4 then 4 else cfg_allocated cfg * 2)\<rparr>
      else cfg)"

definition store_rule :: "rule \<Rightarrow> config \<Rightarrow> fault + config" where
  "store_rule r cfg =
     (if length (rules cfg) < cfg_allocated cfg then Inr (cfg\<lparr>rules := rules cfg @ [r]\<rparr>)
      else Inl Undefined)"

primrec conf_options :: "acl_env \<Rightarrow> string list \<Rightarrow> rule \<Rightarrow> (rule \<times> string list) option" where
  "conf_options env [] r = Some (r, [])"
| "conf_options env (a # as) r =
     (if \<not> is_option a then Some (r, a # as)
      else case parse_conf_option env r a of
             (s, r1) \<Rightarrow> if s \<noteq> CONFIG_SUCCESS then None else conf_options env as r1)"

definition conf_rule :: "acl_env \<Rightarrow> string \<Rightarrow> nat \<Rightarrow> string list \<Rightarrow> rule option" where
  "conf_rule env name n words =
     (case conf_options env (drop 3 words)
             (empty_rule\<lparr>line := words, command := words ! 0, subcommand := words ! 1,
                         program := words ! 2\<rparr>) of
        None \<Rightarrow> None
      | Some (r, as) \<Rightarrow>
          if as = [] then None
          else Some (r\<lparr>rule_file := name, lineno := n, acls := as\<rparr>))"

text \<open>
  Long lines and continuation lines. While the line is not complete, either the
  buffer is enlarged or the backslash and newline are dropped, and the next
  chunk is read behind what there is.
\<close>

function conf_join :: "string \<Rightarrow> nat \<Rightarrow> nat \<Rightarrow> bytes \<Rightarrow> (string \<times> nat \<times> nat \<times> bytes) option" where
  "conf_join buffer bufsize n rest =
     (let len = length buffer
      in if len > 2 \<and> (buffer ! (len - 1) \<noteq> NL \<or> buffer ! (len - 2) = CHR 0x5C) then
           let full = (buffer ! (len - 1) \<noteq> NL);
               bufsize1 = (if full then bufsize + 1024 else bufsize);
               len1 = (if full then len else len - 2);
               n1 = (if full then n else n + 1)
           in case fgets (bufsize1 - len1) rest of
                None \<Rightarrow> None
              | Some (raw, rest1) \<Rightarrow> conf_join (take len1 buffer @ c_string raw) bufsize1 n1 rest1
         else Some (buffer, bufsize, n, rest))"
  by pat_completeness auto
termination
  by (relation "measure (\<lambda>(buffer, bufsize, n, rest). length rest)") (auto dest: fgets_less)

declare conf_join.simps [simp del]

lemma conf_join_rest: "conf_join b sz n rest = Some (b1, sz1, n1, rest1) \<Longrightarrow> length rest1 \<le> length rest"
proof (induction b sz n rest rule: conf_join.induct)
  case (1 b sz n rest)
  let ?len = "length b"
  let ?full = "b ! (?len - 1) \<noteq> NL"
  let ?more = "?len > 2 \<and> (?full \<or> b ! (?len - 2) = CHR 0x5C)"
  show ?case
  proof (cases ?more)
    case True
    let ?sz = "if ?full then sz + 1024 else sz" and ?l = "if ?full then ?len else ?len - 2"
    let ?n = "if ?full then n else n + 1"
    obtain raw r where f: "fgets (?sz - ?l) rest = Some (raw, r)"
      and j: "conf_join (take ?l b @ c_string raw) ?sz ?n r = Some (b1, sz1, n1, rest1)"
      using "1.prems" True unfolding conf_join.simps [of b sz n rest] Let_def
      by (simp only: if_True) (auto split: option.splits)
    have "length rest1 \<le> length r"
      by (rule "1.IH" [OF refl True refl refl refl refl f refl]) (rule j)
    with fgets_less [OF f] show ?thesis by simp
  next
    case False
    with "1.prems" show ?thesis unfolding conf_join.simps [of b sz n rest] Let_def by auto
  qed
qed

text \<open>
  One round of reading: the end of the file, a malformed end, a line that is
  blank or a comment, or the words of a line. The numbers are the buffer size
  and the line number after it. Lines shorter than two octets are skipped
  without counting them.
\<close>

datatype conf_read =
    End_of_file
  | Read_failed
  | Ignored nat nat bytes
  | Words "string list" nat nat bytes

definition conf_read_line :: "nat \<Rightarrow> nat \<Rightarrow> bytes \<Rightarrow> conf_read" where
  "conf_read_line bufsize n content =
     (case fgets bufsize content of
        None \<Rightarrow> End_of_file
      | Some (raw, rest) \<Rightarrow>
          let buffer = c_string raw
          in if length buffer = 2 \<and> buffer ! 1 \<noteq> NL then Read_failed
             else if length buffer < 2 then Ignored bufsize n rest
             else case conf_join buffer bufsize n rest of
               None \<Rightarrow> Read_failed
             | Some (joined, bufsize1, n0, rest1) \<Rightarrow>
                 let buffer = butlast joined; n1 = n0 + 1; p = dropWhile isspace buffer
                 in if p = [] \<or> hd p = CHR ''#'' then Ignored bufsize1 n1 rest1
                    else Words (split_words [CHR '' '', TAB] buffer) bufsize1 n1 rest1)"

lemma conf_read_less:
  "conf_read_line sz n content = Ignored sz1 n1 rest \<Longrightarrow> length rest < length content"
  "conf_read_line sz n content = Words ws sz1 n1 rest \<Longrightarrow> length rest < length content"
  by (auto simp: conf_read_line_def Let_def split: option.splits if_splits
      dest!: fgets_less conf_join_rest)

text \<open>The loop over the lines of a file; \<open>rec\<close> reads an included file.\<close>

function conf_file_loop ::
  "acl_env \<Rightarrow> config include_fn \<Rightarrow> string \<Rightarrow> nat \<Rightarrow> nat \<Rightarrow> bytes \<Rightarrow> config
     \<Rightarrow> fault + config_status \<times> config" where
  "conf_file_loop env rec name bufsize n content cfg =
     (case conf_read_line bufsize n content of
        End_of_file \<Rightarrow> Inr (CONFIG_SUCCESS, cfg)
      | Read_failed \<Rightarrow> Inr (CONFIG_ERROR, cfg)
      | Ignored bufsize1 n1 rest \<Rightarrow> conf_file_loop env rec name bufsize1 n1 rest cfg
      | Words words bufsize1 n1 rest \<Rightarrow>
          if length words = 2 \<and> words ! 0 = ''include'' then
            ebind (handle_include (fs env) (words ! 1) name rec cfg) (\<lambda>(s, cfg1).
              if s < CONFIG_NOMATCH then Inr (CONFIG_ERROR, cfg1)
              else conf_file_loop env rec name bufsize1 n1 rest cfg1)
          else if length words < 4 then Inr (CONFIG_ERROR, cfg)
          else let cfg1 = grow_rules cfg
               in case conf_rule env name n1 words of
                    None \<Rightarrow> Inr (CONFIG_ERROR, cfg1)
                  | Some r \<Rightarrow>
                      ebind (store_rule r cfg1) (\<lambda>cfg2.
                        conf_file_loop env rec name bufsize1 n1 rest cfg2))"
  by pat_completeness auto
termination
  by (relation "measure (\<lambda>(env, rec, name, bufsize, n, content, cfg). length content)")
     (auto dest: conf_read_less)

declare conf_file_loop.simps [simp del]

fun read_conf_file :: "nat \<Rightarrow> acl_env \<Rightarrow> config include_fn" where
  "read_conf_file 0 env cfg name = Inl Stack_exhausted"
| "read_conf_file (Suc depth) env cfg name =
     (case fopen_read (fs env) name of
        None \<Rightarrow> Inr (CONFIG_ERROR, cfg)
      | Some content \<Rightarrow> conf_file_loop env (read_conf_file depth env) name 1024 0 content cfg)"

definition server_config_load :: "nat \<Rightarrow> acl_env \<Rightarrow> string \<Rightarrow> fault + config option" where
  "server_config_load depth env name =
     ebind (read_conf_file depth env \<lparr>rules = [], cfg_allocated = 0\<rparr> name) (\<lambda>(s, cfg).
       Inr (if s \<noteq> CONFIG_SUCCESS then None else Some cfg))"

subsection \<open>The invariant of a configuration\<close>

text \<open>
  Every rule has a command, subcommand, program and at least one ACL, in the
  words of its line, a standard input argument that is an argument number or
  -1, and a terminated mask array; and the rules fit their table.
\<close>

definition rule_ok :: "rule \<Rightarrow> bool" where
  "rule_ok r \<longleftrightarrow> 4 \<le> length (line r) \<and> command r = line r ! 0 \<and> subcommand r = line r ! 1
     \<and> program r = line r ! 2 \<and> acls r \<noteq> [] \<and> set (acls r) \<subseteq> set (line r)
     \<and> - 1 \<le> stdin_arg r \<and> stdin_arg r \<le> LONG_MAX
     \<and> (\<forall>ms. logmask r = Some ms \<longrightarrow> ms \<noteq> [] \<and> last ms = 0)"

definition config_ok :: "config \<Rightarrow> bool" where
  "config_ok cfg \<longleftrightarrow> length (rules cfg) \<le> cfg_allocated cfg \<and> (\<forall>r \<in> set (rules cfg). rule_ok r)"

text \<open>The part of a rule that options set up and the part they leave alone.\<close>

definition rule_pre :: "string list \<Rightarrow> rule \<Rightarrow> bool" where
  "rule_pre words r \<longleftrightarrow> line r = words \<and> command r = words ! 0 \<and> subcommand r = words ! 1
     \<and> program r = words ! 2 \<and> - 1 \<le> stdin_arg r \<and> stdin_arg r \<le> LONG_MAX
     \<and> (\<forall>ms. logmask r = Some ms \<longrightarrow> ms \<noteq> [] \<and> last ms = 0)"

lemma logmask_loop_terminated: "logmask_loop ss = Some ms \<Longrightarrow> ms \<noteq> [] \<and> last ms = 0"
  by (induction ss arbitrary: ms) (auto split: option.splits if_splits)

lemma convert_number_pos: "convert_number s = Some i \<Longrightarrow> 0 < i \<and> i \<le> LONG_MAX"
  by (auto simp: convert_number_def strtol_def Let_def split: prod.splits if_splits)

lemma option_pre:
  assumes "(n, f) \<in> set (options env)" "rule_pre words r" "f r v = (s, r1)"
  shows "rule_pre words r1"
  using assms
  by (auto simp: options_def rule_pre_def option_help_def option_logmask_def option_stdin_def
      option_sudo_def option_summary_def option_user_def logmask_loop_terminated
      split: option.splits if_splits dest!: convert_number_pos simp: LONG_MAX_def)

lemma parse_conf_option_pre:
  assumes "rule_pre words r" "parse_conf_option env r opt = (s, r1)"
  shows "rule_pre words r1"
  using assms option_pre [OF map_of_SomeD]
  by (auto simp: parse_conf_option_def split: option.splits)

lemma conf_options_pre:
  "rule_pre words r \<Longrightarrow> conf_options env as r = Some (r1, rest) \<Longrightarrow>
     rule_pre words r1 \<and> set rest \<subseteq> set as"
  by (induction as arbitrary: r)
     (auto split: if_splits prod.splits dest: parse_conf_option_pre)

lemma conf_rule_ok:
  assumes "conf_rule env name n words = Some r" "4 \<le> length words"
  shows "rule_ok r"
proof -
  let ?r0 = "empty_rule\<lparr>line := words, command := words ! 0, subcommand := words ! 1, program := words ! 2\<rparr>"
  have "rule_pre words ?r0" by (simp add: rule_pre_def empty_rule_def LONG_MAX_def)
  then show ?thesis
    using assms conf_options_pre [of words ?r0 env "drop 3 words"] set_drop_subset [of 3 words]
    by (fastforce simp: conf_rule_def rule_ok_def rule_pre_def split: option.splits if_splits)
qed

lemma grow_rules_ok: "config_ok cfg \<Longrightarrow> config_ok (grow_rules cfg) \<and> length (rules (grow_rules cfg)) < cfg_allocated (grow_rules cfg)"
  by (auto simp: config_ok_def grow_rules_def)

lemma store_rule_ok:
  "config_ok cfg \<Longrightarrow> rule_ok r \<Longrightarrow> length (rules cfg) < cfg_allocated cfg \<Longrightarrow>
     \<exists>cfg1. store_rule r cfg = Inr cfg1 \<and> config_ok cfg1 \<and> rules cfg1 = rules cfg @ [r]"
  by (auto simp: config_ok_def store_rule_def)


lemma conf_file_loop_keeps:
  "include_invariant rec config_ok \<Longrightarrow> config_ok cfg \<Longrightarrow>
     safe_result config_ok (conf_file_loop env rec name sz n content cfg)"
proof (induction env rec name sz n content cfg rule: conf_file_loop.induct)
  case (1 env rec name sz n content cfg)
  note prems = "1.prems"
  note eq = conf_file_loop.simps [of env rec name sz n content cfg]
  show ?case
  proof (cases "conf_read_line sz n content")
    case (Ignored sz1 n1 rest)
    then show ?thesis using "1.IH"(1) [OF Ignored prems] eq by simp
  next
    case (Words ws sz1 n1 rest)
    consider (inc) "length ws = 2 \<and> ws ! 0 = ''include''"
      | (short) "\<not> (length ws = 2 \<and> ws ! 0 = ''include'')" "length ws < 4"
      | (rule) "\<not> (length ws = 2 \<and> ws ! 0 = ''include'')" "\<not> length ws < 4" by blast
    then show ?thesis
    proof cases
      case inc
      have "safe_result config_ok (handle_include (fs env) (ws ! 1) name rec cfg)"
        using include_invariant.handle_include_keeps [OF prems(1,2)] .
      then show ?thesis
        unfolding eq Words using inc "1.IH"(2) [OF Words inc _ refl _ prems(1)]
        by (auto intro!: safe_result_ebind simp: prems(1))
    next
      case short
      then show ?thesis unfolding eq Words using prems by auto
    next
      case rule
      note g = grow_rules_ok [OF prems(2)]
      show ?thesis
      proof (cases "conf_rule env name n1 ws")
        case None
        then show ?thesis unfolding eq Words using rule g by auto
      next
        case (Some r)
        have "rule_ok r" using conf_rule_ok [OF Some] rule(2) by simp
        then obtain cfg2 where c: "store_rule r (grow_rules cfg) = Inr cfg2" "config_ok cfg2"
          using store_rule_ok g by blast
        show ?thesis
          unfolding eq Words using rule Some c "1.IH"(3) [OF Words rule refl Some _ prems(1)]
          by (auto simp: Let_def)
      qed
    qed
  qed (use eq prems in simp_all)
qed

lemma read_conf_file_keeps: "config_ok cfg \<Longrightarrow> safe_result config_ok (read_conf_file depth env cfg name)"
proof (induction depth arbitrary: cfg name)
  case (Suc depth)
  have "include_invariant (read_conf_file depth env) config_ok"
    by unfold_locales (rule Suc.IH)
  then show ?case using Suc.prems by (auto intro: conf_file_loop_keeps split: option.splits)
qed simp

interpretation conf_inc: include_invariant "read_conf_file depth env" config_ok
  by unfold_locales (rule read_conf_file_keeps)

subsection \<open>Lines that are read as written\<close>

definition plain_line :: "string list \<Rightarrow> bool" where
  "plain_line ws \<longleftrightarrow> 4 \<le> length ws \<and> (\<forall>w \<in> set ws. w \<noteq> [] \<and> nul_free w \<and> (\<forall>c \<in> set w. \<not> isspace c))
     \<and> hd (hd ws) \<noteq> CHR ''#'' \<and> last (last ws) \<noteq> CHR 0x5C \<and> length (join '' '' ws) < 1000"

definition conf_text :: "string list list \<Rightarrow> bytes" where
  "conf_text wss = concat (map (\<lambda>ws. join '' '' ws @ [NL]) wss)"

lemma join_set: "set (join sep ws) \<subseteq> set sep \<union> (\<Union>w \<in> set ws. set w)"
  by (induction ws) auto

lemma join_last: "ws \<noteq> [] \<Longrightarrow> last ws \<noteq> [] \<Longrightarrow> join sep ws \<noteq> [] \<and> last (join sep ws) = last (last ws)"
  by (induction ws) auto

lemma join_hd: "ws \<noteq> [] \<Longrightarrow> hd ws \<noteq> [] \<Longrightarrow> hd (join sep ws) = hd (hd ws)"
  by (cases ws) auto

lemma plain_line_facts:
  assumes "plain_line ws"
  defines "l \<equiv> join '' '' ws"
  shows "NL \<notin> set l" "NUL \<notin> set l" "3 \<le> length l" "last l \<noteq> CHR 0x5C" "l \<noteq> []"
    "\<not> isspace (hd l)" "hd l \<noteq> CHR ''#''" "split_words [CHR '' '', TAB] l = ws"
proof -
  have sp: "isspace NL" "isspace TAB" "isspace (CHR '' '')" by (simp_all add: isspace_def)
  have "4 \<le> length ws" using assms(1) by (simp add: plain_line_def)
  then have ws: "ws \<noteq> []" "hd ws \<in> set ws" "last ws \<in> set ws" "4 \<le> length ws"
    by (cases ws; simp)+
  have w: "w \<noteq> []" "NUL \<notin> set w" "\<forall>c \<in> set w. \<not> isspace c" if "w \<in> set ws" for w
    using assms(1) that by (auto simp: plain_line_def nul_free_def)
  have sub: "set l \<subseteq> set '' '' \<union> (\<Union>w \<in> set ws. set w)" unfolding l_def by (rule join_set)
  show "NL \<notin> set l" "NUL \<notin> set l" using sub w sp by fastforce+
  have jl: "l \<noteq> [] \<and> last l = last (last ws)" unfolding l_def using join_last ws w by blast
  then show "last l \<noteq> CHR 0x5C" "l \<noteq> []" using assms(1) by (auto simp: plain_line_def)
  have "length l = total_length ws + (length ws - 1)" using length_join [OF ws(1)] by (simp add: l_def)
  then show "3 \<le> length l" using ws(4) by simp
  have "hd l = hd (hd ws)" unfolding l_def using join_hd ws w by blast
  then show "\<not> isspace (hd l)" "hd l \<noteq> CHR ''#''"
    using assms(1) w [OF ws(2)] by (auto simp: plain_line_def)
  show "split_words [CHR '' '', TAB] l = ws"
    unfolding l_def by (rule split_words_join) (use w sp in fastforce)+
qed

lemma conf_read_plain:
  assumes "plain_line ws"
  shows "conf_read_line 1024 n (join '' '' ws @ NL # rest) = Words ws 1024 (Suc n) rest"
proof -
  let ?l = "join '' '' ws"
  note f = plain_line_facts [OF assms]
  have "length ?l < 1000" using assms by (simp add: plain_line_def)
  then have g: "fgets 1024 (?l @ NL # rest) = Some (?l @ [NL], rest)" using fgets_NL f(1) by simp
  have c: "c_string (?l @ [NL]) = ?l @ [NL]"
    unfolding c_string_def by (rule takeWhile_no) (use f(2) in auto)
  have "(?l @ [NL]) ! (length ?l - 1) = last ?l"
    using f(5) by (simp add: nth_append last_conv_nth)
  then have j: "conf_join (?l @ [NL]) 1024 n rest = Some (?l @ [NL], 1024, n, rest)"
    using f(3,4) by (simp add: conf_join.simps [of "?l @ [NL]"])
  have "dropWhile isspace ?l = ?l" using f(5,6) by (cases ?l) auto
  then show ?thesis
    unfolding conf_read_line_def g option.case prod.case c Let_def j
    using f(3,5,7,8) by simp
qed

lemma conf_file_loop_text:
  assumes "length rs = length wss" "\<forall>ws \<in> set wss. plain_line ws"
    and "\<forall>i < length wss. conf_rule env name (Suc (n + i)) (wss ! i) = Some (rs ! i)"
    and "config_ok cfg"
  shows "\<exists>cfg1. conf_file_loop env rec name 1024 n (conf_text wss) cfg = Inr (CONFIG_SUCCESS, cfg1)
           \<and> rules cfg1 = rules cfg @ rs"
  using assms
proof (induction wss arbitrary: rs n cfg)
  case Nil
  then show ?case
    by (simp add: conf_file_loop.simps [of env rec name 1024 n] conf_read_line_def conf_text_def fgets_def)
next
  case (Cons ws wss)
  from Cons.prems(1) obtain r rs' where rs: "rs = r # rs'" by (cases rs) auto
  have r: "conf_rule env name (Suc n) ws = Some r" using Cons.prems(3) rs by force
  have p: "plain_line ws" "4 \<le> length ws" using Cons.prems(2) by (auto simp: plain_line_def)
  obtain cfg2 where c: "store_rule r (grow_rules cfg) = Inr cfg2" "config_ok cfg2"
    "rules cfg2 = rules (grow_rules cfg) @ [r]"
    using store_rule_ok grow_rules_ok [OF Cons.prems(4)] conf_rule_ok [OF r p(2)] by blast
  have "rules (grow_rules cfg) = rules cfg" by (simp add: grow_rules_def)
  moreover obtain cfg1 where
    "conf_file_loop env rec name 1024 (Suc n) (conf_text wss) cfg2 = Inr (CONFIG_SUCCESS, cfg1)"
    "rules cfg1 = rules cfg2 @ rs'"
  proof -
    have "\<forall>i < length wss. conf_rule env name (Suc (Suc n + i)) (wss ! i) = Some (rs' ! i)"
      using Cons.prems(3) rs by fastforce
    with Cons.IH [of rs' "Suc n" cfg2] Cons.prems(1,2) rs c(2) that show ?thesis by auto
  qed
  moreover have "conf_text (ws # wss) = join '' '' ws @ NL # conf_text wss" by (simp add: conf_text_def)
  ultimately show ?case
    using conf_read_plain [OF p(1), of n "conf_text wss"] r c p(2) rs
    by (simp add: conf_file_loop.simps [of env rec name 1024 n "join '' '' ws @ NL # conf_text wss"] Let_def)
qed

subsection \<open>Properties\<close>

text \<open>
  C26: whatever the configuration files contain, \<open>server_config_load\<close> never
  stores outside the table of rules; the only fault is an include cycle that
  exhausts the stack. Every configuration it returns is well formed: each rule
  has its command, subcommand, program and at least one ACL.
\<close>

theorem server_config_load_safe:
  "case server_config_load depth env name of
     Inl e \<Rightarrow> e = Stack_exhausted
   | Inr None \<Rightarrow> True
   | Inr (Some cfg) \<Rightarrow> config_ok cfg"
proof -
  have "config_ok \<lparr>rules = [], cfg_allocated = 0\<rparr>" by (simp add: config_ok_def)
  from read_conf_file_keeps [OF this, of depth env name] show ?thesis
    by (cases "read_conf_file depth env \<lparr>rules = [], cfg_allocated = 0\<rparr> name")
       (auto simp: server_config_load_def)
qed

text \<open>
  C27: a configuration file written one rule per line, its words separated by
  single spaces, loads as exactly those rules, in order and with the right
  line numbers.
\<close>

theorem server_config_load_lines:
  assumes "fs env name = Some (File (Some (conf_text wss)))" "\<forall>ws \<in> set wss. plain_line ws"
    and "length rs = length wss"
    and "\<forall>i < length wss. conf_rule env name (Suc i) (wss ! i) = Some (rs ! i)"
  shows "\<exists>cfg. server_config_load (Suc depth) env name = Inr (Some cfg) \<and> rules cfg = rs"
proof -
  have "config_ok \<lparr>rules = [], cfg_allocated = 0\<rparr>" by (simp add: config_ok_def)
  from conf_file_loop_text [OF assms(3,2) _ this, of env name 0 "read_conf_file depth env"] assms(4)
  obtain cfg where
    "conf_file_loop env (read_conf_file depth env) name 1024 0 (conf_text wss) \<lparr>rules = [], cfg_allocated = 0\<rparr>
       = Inr (CONFIG_SUCCESS, cfg)" "rules cfg = rs"
    by auto
  then show ?thesis using assms(1) by (simp add: server_config_load_def fopen_read_def)
qed

theorem server_config_load_lines_witness:
  "\<exists>cfg. server_config_load 1
      (demo_env\<lparr>fs := [''/c'' \<mapsto> File (Some (conf_text [[''ls'', ''ALL'', ''/bin/ls'', ''ANYUSER'']]))]\<rparr>) ''/c''
        = Inr (Some cfg) \<and> map program (rules cfg) = [''/bin/ls''] \<and> map lineno (rules cfg) = [1]"
proof -
  let ?w = "[''ls'', ''ALL'', ''/bin/ls'', ''ANYUSER'']"
  let ?env = "demo_env\<lparr>fs := [''/c'' \<mapsto> File (Some (conf_text [?w]))]\<rparr>"
  let ?r = "empty_rule\<lparr>rule_file := ''/c'', lineno := 1, line := ?w, command := ''ls'',
              subcommand := ''ALL'', program := ''/bin/ls'', acls := [''ANYUSER'']\<rparr>"
  have "plain_line ?w" by (simp add: plain_line_def isspace_def)
  moreover have "conf_rule ?env ''/c'' 1 ?w = Some ?r"
    by (simp add: conf_rule_def is_option_def ctype_defs empty_rule_def)
  ultimately obtain cfg where "server_config_load (Suc 0) ?env ''/c'' = Inr (Some cfg)" "rules cfg = [?r]"
    using server_config_load_lines [of ?env "''/c''" "[?w]" "[?r]" 0] by auto
  then show ?thesis by simp
qed

text \<open>A line with nothing but its newline does not advance the line number.\<close>

lemma conf_blank_line_uncounted: "conf_read_line 1024 n (NL # rest) = Ignored 1024 n rest"
  using fgets_NL [of "[]" 1024 rest] by (simp add: conf_read_line_def c_string_def)

text \<open>
  A mask beyond 32 bits is narrowed to 0, which terminates the list, so that
  the masks behind it are lost.
\<close>

lemma option_logmask_narrowed:
  "option_logmask r ''4294967296,2'' = (CONFIG_SUCCESS, r\<lparr>logmask := Some [0, 2, 0]\<rparr>)"
  by (simp add: option_logmask_def split_on_def convert_number_def strtol_def ctype_defs LONG_MAX_def)

end
