(* ===== verification/Server_Send.thy ===== *)
theory Server_Send
  imports Server_Types
begin

text \<open>
  What the server sends: the output, status, error, version and no-op messages
  of \<^verbatim>\<open>src/server/server-v1.c\<close> and \<^verbatim>\<open>src/server/server-v2.c\<close>, the error line
  of \<^verbatim>\<open>src/server/server-ssh.c\<close>, and the callbacks \<open>client->error\<close> and
  \<open>client->finish\<close> that select among them.

  A message is a payload, defined on its own so that the client's parsers can
  be related to it, and a call of \<open>token_send_priv\<close>. The locale \<open>responder\<close>
  states what the code that answers a client relies on: an answer changes
  nothing but the connection, the log and the fatal flag.
\<close>

subsection \<open>Payloads\<close>

definition v1_output_payload :: "int \<Rightarrow> bytes \<Rightarrow> bytes" where
  "v1_output_payload exit_status output =
     put_u32 (word_of_int exit_status) @ put_u32 (word_of_nat (length output)) @ output"

definition v2_output_payload :: "nat \<Rightarrow> bytes \<Rightarrow> bytes" where
  "v2_output_payload stream output =
     char_of (2::nat) # char_of MESSAGE_OUTPUT # char_of stream
       # put_u32 (word_of_nat (length output)) @ output"

definition v2_status_payload :: "int \<Rightarrow> bytes" where
  "v2_status_payload exit_status =
     [char_of (2::nat), char_of MESSAGE_STATUS,
      if exit_status > 255 \<or> exit_status < -127 then char_of (255::nat)
      else char_of (nat (exit_status mod 256))]"

definition v2_error_payload :: "error_codes \<Rightarrow> string \<Rightarrow> bytes" where
  "v2_error_payload code message =
     char_of (2::nat) # char_of MESSAGE_ERROR # put_u32 (word_of_nat (error_number code))
       @ put_u32 (word_of_nat (length message)) @ message"

definition v2_version_payload :: bytes where
  "v2_version_payload = [char_of (2::nat), char_of MESSAGE_VERSION, char_of (3::nat)]"

definition v3_noop_payload :: bytes where
  "v3_noop_payload = [char_of (3::nat), char_of MESSAGE_NOOP]"

subsection \<open>Operations\<close>

definition server_v1_send_output ::
  "'c gss \<Rightarrow> bytes \<Rightarrow> int \<Rightarrow> ('c, 'z) client_scheme \<Rightarrow> fault + bool \<times> ('c, 'z) client_scheme" where
  "server_v1_send_output g output exit_status c =
     (if length output \<ge> UINT32_MAX - 4 - 4
      then Inl (Died ''internal error: memory allocation too large'')
      else case token_send_priv g TOKEN_DATA (v1_output_payload exit_status output) TIMEOUT c of
             (status, c1) \<Rightarrow>
               if status \<noteq> TOKEN_OK
               then Inr (False, warn_token ''sending output token'' status c1)
               else Inr (True, c1))"

definition server_v1_send_error ::
  "'c gss \<Rightarrow> error_codes \<Rightarrow> string \<Rightarrow> ('c, 'z) client_scheme
     \<Rightarrow> fault + bool \<times> ('c, 'z) client_scheme" where
  "server_v1_send_error g code message c = server_v1_send_output g (message @ [NL]) (-1) c"

definition server_v2_send_output ::
  "'c gss \<Rightarrow> int \<Rightarrow> bytes \<Rightarrow> ('c, 'z) client_scheme \<Rightarrow> fault + bool \<times> ('c, 'z) client_scheme" where
  "server_v2_send_output g stream output c =
     (if stream < 0 \<or> stream > 128 then Inl (Died ''internal error: invalid stream number'')
      else if length output \<ge> UINT32_MAX - 1 - 1 - 1 - 4
      then Inl (Died ''internal error: memory allocation too large'')
      else case token_send_priv g (TOKEN_DATA OR TOKEN_PROTOCOL)
                  (v2_output_payload (nat stream) output) TIMEOUT c of
             (status, c1) \<Rightarrow>
               if status \<noteq> TOKEN_OK
               then Inr (False, (warn_token ''sending output token'' status c1)\<lparr>fatal := True\<rparr>)
               else Inr (True, c1))"

definition server_v2_command_finish ::
  "'c gss \<Rightarrow> bytes \<Rightarrow> int \<Rightarrow> ('c, 'z) client_scheme \<Rightarrow> fault + bool \<times> ('c, 'z) client_scheme" where
  "server_v2_command_finish g output exit_status c =
     (case token_send_priv g (TOKEN_DATA OR TOKEN_PROTOCOL) (v2_status_payload exit_status)
             TIMEOUT c of
        (status, c1) \<Rightarrow>
          if status \<noteq> TOKEN_OK
          then Inr (False, (warn_token ''sending status token'' status c1)\<lparr>fatal := True\<rparr>)
          else Inr (True, c1))"

definition server_v2_send_error ::
  "'c gss \<Rightarrow> error_codes \<Rightarrow> string \<Rightarrow> ('c, 'z) client_scheme
     \<Rightarrow> fault + bool \<times> ('c, 'z) client_scheme" where
  "server_v2_send_error g code message c =
     (if length message \<ge> UINT32_MAX - 1 - 1 - 4 - 4
      then Inl (Died ''internal error: memory allocation too large'')
      else case token_send_priv g (TOKEN_DATA OR TOKEN_PROTOCOL) (v2_error_payload code message)
                  TIMEOUT c of
             (status, c1) \<Rightarrow>
               if status \<noteq> TOKEN_OK
               then Inr (False, (warn_token ''sending error token'' status c1)\<lparr>fatal := True\<rparr>)
               else Inr (True, c1))"

definition server_v2_send_version ::
  "'c gss \<Rightarrow> ('c, 'z) client_scheme \<Rightarrow> fault + bool \<times> ('c, 'z) client_scheme" where
  "server_v2_send_version g c =
     (case token_send_priv g (TOKEN_DATA OR TOKEN_PROTOCOL) v2_version_payload TIMEOUT c of
        (status, c1) \<Rightarrow>
          if status \<noteq> TOKEN_OK
          then Inr (False, (warn_token ''sending version token'' status c1)\<lparr>fatal := True\<rparr>)
          else Inr (True, c1))"

definition server_v3_send_noop ::
  "'c gss \<Rightarrow> ('c, 'z) client_scheme \<Rightarrow> fault + bool \<times> ('c, 'z) client_scheme" where
  "server_v3_send_noop g c =
     (case token_send_priv g (TOKEN_DATA OR TOKEN_PROTOCOL) v3_noop_payload TIMEOUT c of
        (status, c1) \<Rightarrow>
          if status \<noteq> TOKEN_OK
          then Inr (False, (warn_token ''sending no-op token'' status c1)\<lparr>fatal := True\<rparr>)
          else Inr (True, c1))"

text \<open>The ssh variants: \<open>command_finish\<close> and \<open>send_error\<close> of \<^verbatim>\<open>server-ssh.c\<close>.\<close>

definition ssh_command_finish ::
  "bytes \<Rightarrow> int \<Rightarrow> ('c, 'z) client_scheme \<Rightarrow> fault + bool \<times> ('c, 'z) client_scheme" where
  "ssh_command_finish output exit_status c = Inr (True, c)"

definition ssh_send_error ::
  "error_codes \<Rightarrow> string \<Rightarrow> ('c, 'z) client_scheme \<Rightarrow> fault + bool \<times> ('c, 'z) client_scheme" where
  "ssh_send_error code message c =
     (case xwrite message (stderr_sock c) of
        (ok, k1) \<Rightarrow>
          (case (if ok then xwrite [NL] k1 else (ok, k1)) of
             (ok', k2) \<Rightarrow>
               let c1 = c\<lparr>stderr_sock := k2\<rparr>
               in if \<not> ok'
                  then Inr (False, (log_msg (Log_errno Warn ''error sending error message''
                                              (socket_errno k2)) c1)\<lparr>fatal := True\<rparr>)
                  else Inr (True, c1)))"

definition client_error ::
  "'c gss \<Rightarrow> error_codes \<Rightarrow> string \<Rightarrow> ('c, 'z) client_scheme
     \<Rightarrow> fault + bool \<times> ('c, 'z) client_scheme" where
  "client_error g code message c =
     (case backend c of
        V1 \<Rightarrow> server_v1_send_error g code message c
      | V2 \<Rightarrow> server_v2_send_error g code message c
      | Ssh \<Rightarrow> ssh_send_error code message c)"

definition client_finish ::
  "'c gss \<Rightarrow> bytes \<Rightarrow> int \<Rightarrow> ('c, 'z) client_scheme \<Rightarrow> fault + bool \<times> ('c, 'z) client_scheme" where
  "client_finish g output exit_status c =
     (case backend c of
        V1 \<Rightarrow> server_v1_send_output g output exit_status c
      | V2 \<Rightarrow> server_v2_command_finish g output exit_status c
      | Ssh \<Rightarrow> ssh_command_finish output exit_status c)"

lemmas send_defs = server_v1_send_output_def server_v1_send_error_def server_v2_send_output_def
  server_v2_command_finish_def server_v2_send_error_def server_v2_send_version_def
  server_v3_send_noop_def ssh_command_finish_def ssh_send_error_def

subsection \<open>The contract of an answer\<close>

text \<open>
  \<open>extends c c1\<close>: the client is the same one, its log only grew, and a fatal
  error once seen stays. Every answer extends the client, and only a failed one
  may raise the fatal flag.
\<close>

definition extends :: "('c, 'z) client_scheme \<Rightarrow> ('c, 'z) client_scheme \<Rightarrow> bool" where
  "extends c c1 \<longleftrightarrow>
     client_same c c1 \<and> (\<exists>l. logs c1 = logs c @ l) \<and> (fatal c \<longrightarrow> fatal c1)"

lemma extends_refl [simp]: "extends c c"
  by (simp add: extends_def)

lemma extends_trans [trans]: "extends c c1 \<Longrightarrow> extends c1 c2 \<Longrightarrow> extends c c2"
  by (auto simp: extends_def dest: client_same_trans)

lemma extends_log [simp]: "extends c (log_msg e c)"
  by (simp add: extends_def)

lemma extends_warn_token [simp]: "extends c (warn_token m st c)"
  using warn_token_is_log [of m st c] by auto

lemma extends_fatal: "extends c (c\<lparr>fatal := True\<rparr>)"
  by (simp add: extends_def)

lemma extends_same: "extends c c1 \<Longrightarrow> client_same c c1"
  by (simp add: extends_def)

lemma chan_extends: "chan.more c1 = chan.more c \<Longrightarrow> rd c1 = rd c \<Longrightarrow> extends c c1 \<and> fatal c1 = fatal c"
  for c c1 :: "('c, 'z) client_scheme"
  using chan_more_client [of c1 c] by (simp add: extends_def)

locale responder =
  fixes reply :: "('c, 'z) client_scheme \<Rightarrow> fault + bool \<times> ('c, 'z) client_scheme"
  assumes reply_extends: "reply c = Inr (ok, c1) \<Longrightarrow> extends c c1"
    and reply_ok: "reply c = Inr (True, c1) \<Longrightarrow> fatal c1 = fatal c"
begin

lemma reply_same: "reply c = Inr (ok, c1) \<Longrightarrow> client_same c c1"
  using reply_extends extends_same by blast

lemma reply_log: "reply (log_msg e c) = Inr (ok, c1) \<Longrightarrow> extends c c1"
  using reply_extends extends_log extends_trans by metis

lemma reply_warn_token: "reply (warn_token m st c) = Inr (ok, c1) \<Longrightarrow> extends c c1"
  using reply_extends extends_warn_token extends_trans by metis

end

text \<open>One lemma covers every message that is a single protected token.\<close>

lemma priv_reply:
  fixes c :: "('c, 'z) client_scheme"
  assumes "token_send_priv g fl tok t c = (st, c1)" "\<not> wants_mic fl"
  shows "extends c c1 \<and> fatal c1 = fatal c
         \<and> (\<forall>m. extends c (warn_token m st c1) \<and> extends c ((warn_token m st c1)\<lparr>fatal := True\<rparr>))"
  using token_send_priv_more [OF assms(1)] token_send_priv_rd [OF assms]
  by (metis chan_extends extends_fatal extends_trans extends_warn_token)

interpretation v1_out: responder "server_v1_send_output g output st"
  by unfold_locales
     (auto simp: server_v1_send_output_def split: if_splits prod.splits dest!: priv_reply)

interpretation v1_err: responder "server_v1_send_error g code message"
  unfolding server_v1_send_error_def by (rule v1_out.responder_axioms)

interpretation v2_out: responder "server_v2_send_output g stream output"
  by unfold_locales
     (auto simp: server_v2_send_output_def split: if_splits prod.splits dest!: priv_reply)

interpretation v2_fin: responder "server_v2_command_finish g output st"
  by unfold_locales
     (auto simp: server_v2_command_finish_def split: if_splits prod.splits dest!: priv_reply)

interpretation v2_err: responder "server_v2_send_error g code message"
  by unfold_locales
     (auto simp: server_v2_send_error_def split: if_splits prod.splits dest!: priv_reply)

interpretation v2_ver: responder "server_v2_send_version g"
  by unfold_locales
     (auto simp: server_v2_send_version_def split: if_splits prod.splits dest!: priv_reply)

interpretation v3_noop: responder "server_v3_send_noop g"
  by unfold_locales
     (auto simp: server_v3_send_noop_def split: if_splits prod.splits dest!: priv_reply)

interpretation ssh_err: responder "ssh_send_error code message"
  by unfold_locales
     (auto simp: ssh_send_error_def extends_def Let_def split: if_splits prod.splits)

interpretation ssh_fin: responder "ssh_command_finish output st"
  by unfold_locales (auto simp: ssh_command_finish_def)

interpretation err: responder "client_error g code message"
  by unfold_locales
     (auto simp: client_error_def split: backend.splits
        dest: v1_err.reply_extends v2_err.reply_extends ssh_err.reply_extends
          v1_err.reply_ok v2_err.reply_ok ssh_err.reply_ok)

interpretation fin: responder "client_finish g output st"
  by unfold_locales
     (auto simp: client_finish_def split: backend.splits
        dest: v1_out.reply_extends v2_fin.reply_extends ssh_fin.reply_extends
          v1_out.reply_ok v2_fin.reply_ok ssh_fin.reply_ok)

text \<open>An error message of ordinary length is always answered, never fatal to the server.\<close>

lemma client_error_returns:
  assumes "length message < 2 ^ 31"
  shows "\<exists>ok c1. client_error g code message c = Inr (ok, c1)"
  using assms
  by (auto simp: client_error_def send_defs UINT32_MAX_def Let_def
      split: backend.splits prod.splits)

end
