(* ===== verification/Server_Parse.thy ===== *)
theory Server_Parse
  imports Server_Send
begin

text \<open>
  Parsing a command: \<open>server_parse_command\<close> of \<^verbatim>\<open>src/server/generic.c\<close>, used by
  protocol one and two alike. The NULL-terminated array of \<open>struct iovec\<close> is
  the list of its buffers. Reading the argument count copies four octets
  whatever the length, so a payload of fewer is read out of bounds.

  The theorems relate the parser to the encoding of the protocol: it accepts
  exactly the encodings of 1 to \<open>COMMAND_MAX_ARGS\<close> arguments, returns the
  arguments encoded, and answers every other payload with one error.
\<close>

subsection \<open>Operations\<close>

datatype parse_result = Parsed "bytes list" bytes | More_than_argc | Arg_too_long

text \<open>
  The loop over the arguments; \<open>rest\<close> is what is left from \<open>p\<close> on, and
  \<open>acc\<close> holds the arguments stored in \<open>argv\<close> so far.
\<close>

function parse_args :: "nat \<Rightarrow> bytes \<Rightarrow> bytes list \<Rightarrow> parse_result" where
  "parse_args argc rest acc =
     (if length rest < 4 then Parsed acc rest
      else if length acc \<ge> argc then More_than_argc
      else let arglen = unat (get_u32 rest); p = drop 4 rest
           in if length p < arglen then Arg_too_long
              else parse_args argc (drop arglen p) (acc @ [take arglen p]))"
  by pat_completeness auto
termination
  by (relation "measure (\<lambda>(argc, rest, acc). length rest)") auto

declare parse_args.simps [simp del]

text \<open>Log a warning, send the error, return NULL.\<close>

definition refuse ::
  "'c gss \<Rightarrow> string \<Rightarrow> error_codes \<Rightarrow> string \<Rightarrow> ('c, 'z) client_scheme
     \<Rightarrow> fault + 'a option \<times> ('c, 'z) client_scheme" where
  "refuse g warning code message c =
     ebind (client_error g code message (warn warning c)) (\<lambda>(_, c1). Inr (None, c1))"

definition server_parse_command ::
  "'c gss \<Rightarrow> bytes \<Rightarrow> ('c, 'z) client_scheme
     \<Rightarrow> fault + bytes list option \<times> ('c, 'z) client_scheme" where
  "server_parse_command g buffer c =
     (if length buffer < 4 then Inl Undefined
      else let argc = unat (get_u32 buffer); p = drop 4 buffer
           in if argc = 0 then
                refuse g ''command with no arguments'' ERROR_UNKNOWN_COMMAND ''Unknown command'' c
              else if argc > COMMAND_MAX_ARGS then
                refuse g (''too large argc ('' @ show_nat argc @ '') in request message'')
                  ERROR_TOOMANY_ARGS ''Too many arguments'' c
              else if length p < 4 * argc then
                refuse g ''command data too short'' ERROR_BAD_COMMAND ''Invalid command token'' c
              else case parse_args argc p [] of
                More_than_argc \<Rightarrow>
                  refuse g (''sent more arguments than argc '' @ show_nat argc)
                    ERROR_BAD_COMMAND ''Invalid command token'' c
              | Arg_too_long \<Rightarrow>
                  refuse g ''command data invalid'' ERROR_BAD_COMMAND ''Invalid command token'' c
              | Parsed argv rest \<Rightarrow>
                  if length argv \<noteq> argc \<or> rest \<noteq> [] then
                    refuse g ''argument count differs from arguments seen''
                      ERROR_BAD_COMMAND ''Invalid command token'' c
                  else Inr (Some argv, c))"

subsection \<open>The encoding of a command\<close>

definition encode_arg :: "bytes \<Rightarrow> bytes" where
  "encode_arg a = put_u32 (word_of_nat (length a)) @ a"

definition encode_command :: "bytes list \<Rightarrow> bytes" where
  "encode_command argv = put_u32 (word_of_nat (length argv)) @ concat (map encode_arg argv)"

definition command_ok :: "bytes list \<Rightarrow> bool" where
  "command_ok argv \<longleftrightarrow>
     0 < length argv \<and> length argv \<le> COMMAND_MAX_ARGS \<and> (\<forall>a \<in> set argv. length a < 2 ^ 32)"

lemma length_encode_arg [simp]: "length (encode_arg a) = 4 + length a"
  by (simp add: encode_arg_def)

lemma encode_args_length: "4 * length argv \<le> length (concat (map encode_arg argv))"
  by (induction argv) auto

text \<open>The loop consumes one encoded argument per round \<dots>\<close>

lemma parse_args_step:
  assumes "length acc < argc" "length a < 2 ^ 32"
  shows "parse_args argc (encode_arg a @ rest) acc = parse_args argc rest (acc @ [a])"
  using assms unfolding parse_args.simps [of argc "encode_arg a @ rest"]
  by (simp add: encode_arg_def)

lemma parse_args_encode:
  assumes "length acc + length args \<le> argc" "\<forall>a \<in> set args. length a < 2 ^ 32"
  shows "parse_args argc (concat (map encode_arg args)) acc = Parsed (acc @ args) []"
  using assms
proof (induction args arbitrary: acc)
  case Nil
  show ?case by (simp add: parse_args.simps)
next
  case (Cons a args)
  then show ?case by (simp add: parse_args_step)
qed

text \<open>\<dots> and whatever it accepted was such a sequence.\<close>

lemma parse_args_Parsed:
  "parse_args argc rest acc = Parsed argv left \<Longrightarrow>
     \<exists>args. argv = acc @ args \<and> rest = concat (map encode_arg args) @ left
            \<and> (\<forall>a \<in> set args. length a < 2 ^ 32)"
proof (induction argc rest acc rule: parse_args.induct)
  case (1 argc rest acc)
  show ?case
  proof (cases "length rest < 4")
    case True
    with "1.prems" show ?thesis by (auto simp: parse_args.simps [of argc rest])
  next
    case False
    let ?n = "unat (get_u32 rest)" and ?p = "drop 4 rest"
    from False obtain w x y z p where r: "rest = [w, x, y, z] @ p"
      by (auto simp: not_less numeral_eq_Suc dest!: Suc_le_length_iff [THEN iffD1])
    have step: "\<not> length acc \<ge> argc" "\<not> length ?p < ?n"
      "parse_args argc (drop ?n ?p) (acc @ [take ?n ?p]) = Parsed argv left"
      using "1.prems" False
      by (simp_all add: parse_args.simps [of argc rest] Let_def split: if_splits)
    from "1.IH" [OF False step(1) refl refl step(2,3)] obtain args where
      args: "argv = (acc @ [take ?n ?p]) @ args"
        "drop ?n ?p = concat (map encode_arg args) @ left" "\<forall>a \<in> set args. length a < 2 ^ 32"
      by blast
    have n: "get_u32 rest = get_u32 [w, x, y, z]" unfolding r by (simp add: get_u32_def)
    have len: "length (take ?n ?p) = ?n" using step(2) by simp
    have small: "?n < 2 ^ 32" using unsigned_less [of "get_u32 rest", where ?'a = nat] by simp
    have "put_u32 (word_of_nat ?n) = [w, x, y, z]" unfolding n by (rule put_get_u32)
    then have "encode_arg (take ?n ?p) = [w, x, y, z] @ take ?n ?p"
      unfolding encode_arg_def len by simp
    then have "rest = concat (map encode_arg (take ?n ?p # args)) @ left"
      using args(2) r append_take_drop_id [of ?n ?p] by simp
    moreover have "\<forall>a \<in> set (take ?n ?p # args). length a < 2 ^ 32"
      using args(3) small len by simp
    ultimately show ?thesis using args(1) by (intro exI [of _ "take ?n ?p # args"]) simp
  qed
qed

lemma refuse_None: "refuse g w code m c = Inr (r, c1) \<Longrightarrow> r = None \<and> extends c c1"
  by (auto simp: refuse_def exec dest: err.reply_log)

lemma refuse_not_Some [simp]: "refuse g w code m c \<noteq> Inr (Some x, c1)"
  using refuse_None by blast

lemma refuse_returns:
  "length m < 2 ^ 31 \<Longrightarrow> \<exists>c1. refuse g w code m c = Inr (None, c1) \<and> extends c c1"
  using client_error_returns [of m g code "warn w c"]
  by (auto simp: refuse_def dest: err.reply_log)

lemma parse_command_encode:
  assumes "command_ok argv"
  shows "server_parse_command g (encode_command argv) c = Inr (Some argv, c)"
proof -
  have l: "length argv < 2 ^ 32" "0 < length argv" "length argv \<le> COMMAND_MAX_ARGS"
    "\<forall>a \<in> set argv. length a < 2 ^ 32"
    using assms by (auto simp: command_ok_def COMMAND_MAX_ARGS_def)
  have "unat (get_u32 (encode_command argv)) = length argv"
    using l(1) by (simp add: encode_command_def)
  moreover have "drop 4 (encode_command argv) = concat (map encode_arg argv)"
    by (simp add: encode_command_def)
  ultimately show ?thesis
    using l encode_args_length [of argv] parse_args_encode [of "[]" argv "length argv"]
    by (simp add: server_parse_command_def Let_def encode_command_def)
qed

lemma parse_command_Some:
  assumes "server_parse_command g buffer c = Inr (Some argv, c1)"
  shows "c1 = c \<and> command_ok argv \<and> buffer = encode_command argv"
proof -
  let ?n = "unat (get_u32 buffer)"
  have b: "4 \<le> length buffer" "0 < ?n" "?n \<le> COMMAND_MAX_ARGS"
    "parse_args ?n (drop 4 buffer) [] = Parsed argv []" "length argv = ?n" "c1 = c"
    using assms
    by (auto simp: server_parse_command_def Let_def not_less split: if_splits parse_result.splits)
  from parse_args_Parsed [OF b(4)] have a: "drop 4 buffer = concat (map encode_arg argv)"
    "\<forall>a \<in> set argv. length a < 2 ^ 32" by auto
  from b(1) obtain w x y z p where r: "buffer = [w, x, y, z] @ p"
    by (auto simp: numeral_eq_Suc dest!: Suc_le_length_iff [THEN iffD1])
  then have "get_u32 buffer = get_u32 [w, x, y, z]" by (simp add: get_u32_def)
  then have "put_u32 (word_of_nat (length argv)) = [w, x, y, z]"
    unfolding b(5) by (simp only: put_get_u32)
  then show ?thesis using a b r by (auto simp: encode_command_def command_ok_def)
qed

lemma parse_command_None:
  assumes "server_parse_command g buffer c = Inr (None, c1)"
  shows "extends c c1"
  using assms
  by (auto simp: server_parse_command_def Let_def dest: refuse_None
      split: if_splits parse_result.splits)

lemma parse_command_returns:
  assumes "4 \<le> length buffer"
  shows "\<exists>r c1. server_parse_command g buffer c = Inr (r, c1) \<and> extends c c1"
proof -
  note r = refuse_returns [of "''Unknown command''" g] refuse_returns [of "''Too many arguments''" g]
    refuse_returns [of "''Invalid command token''" g]
  show ?thesis
    using assms r
    by (simp add: server_parse_command_def Let_def split: parse_result.splits) blast
qed

subsection \<open>Properties\<close>

text \<open>
  C19: \<open>server_parse_command\<close> accepts exactly the well-formed commands. It
  returns \<open>argv\<close>, leaving the client untouched, if and only if the payload is
  the encoding of \<open>argv\<close> and \<open>argv\<close> has 1 to \<open>COMMAND_MAX_ARGS\<close> arguments.
\<close>

theorem server_parse_command_iff:
  "server_parse_command g buffer c = Inr (Some argv, c1) \<longleftrightarrow>
     c1 = c \<and> command_ok argv \<and> buffer = encode_command argv"
  using parse_command_Some parse_command_encode by metis


end
