(* ===== verification/Logging.thy ===== *)
theory Logging
  imports Config Server_Parse
begin

text \<open>
  Logging a command: \<open>server_log_command\<close> of \<^verbatim>\<open>src/server/logging.c\<close>. What
  may not be logged (masked arguments and the one passed on standard input) is
  replaced before the text is assembled, and unprintable characters after.
  Plain \<open>char\<close> is signed, so the comparison with 9 also catches every octet
  above 127.
\<close>

subsection \<open>Operations\<close>

text \<open>The loop over the zero-terminated mask array.\<close>

primrec mask_hit :: "nat list \<Rightarrow> nat \<Rightarrow> bool" where
  "mask_hit [] i = False"
| "mask_hit (m # ms) i = (if m = 0 then False else if m = i then True else mask_hit ms i)"

definition log_arg :: "rule option \<Rightarrow> nat \<Rightarrow> bytes \<Rightarrow> bool \<Rightarrow> string" where
  "log_arg ru i a is_last =
     (let arg = (case ru of
                   None \<Rightarrow> None
                 | Some r \<Rightarrow>
                     let arg1 = (case logmask r of
                                   None \<Rightarrow> None
                                 | Some ms \<Rightarrow> if mask_hit ms i then Some ''**MASKED**'' else None)
                     in if i > 0 \<and> (stdin_arg r = int i \<or> stdin_arg r = -1 \<and> is_last)
                        then Some ''**DATA**'' else arg1)
      in case arg of Some s \<Rightarrow> s | None \<Rightarrow> x_strndup a (length a))"

primrec log_args_loop :: "rule option \<Rightarrow> nat \<Rightarrow> bytes list \<Rightarrow> string list" where
  "log_args_loop ru i [] = []"
| "log_args_loop ru i (a # as) = log_arg ru i a (as = []) # log_args_loop ru (i + 1) as"

definition log_char :: "char \<Rightarrow> char" where
  "log_char p =
     (if schar p < 9 \<or> (schar p > 9 \<and> schar p < 32) \<or> schar p = 127 then CHR ''.'' else p)"

definition log_command_text :: "bytes list \<Rightarrow> rule option \<Rightarrow> string" where
  "log_command_text argv ru = map log_char (join '' '' (log_args_loop ru 0 argv))"

definition server_log_command ::
  "bytes list \<Rightarrow> rule option \<Rightarrow> string \<Rightarrow> ('c, 'z) client_scheme \<Rightarrow> ('c, 'z) client_scheme" where
  "server_log_command argv ru usr c =
     notice (''COMMAND from '' @ usr @ '': '' @ log_command_text argv ru) c"

subsection \<open>Lemmas\<close>

lemma mask_hit_iff: "mask_hit ms i \<longleftrightarrow> i \<in> set (takeWhile (\<lambda>m. m \<noteq> 0) ms)"
  by (induction ms) auto

text \<open>The arguments a rule hides, for a command of \<open>n\<close> arguments.\<close>

definition hidden :: "rule \<Rightarrow> nat \<Rightarrow> nat \<Rightarrow> bool" where
  "hidden r n i \<longleftrightarrow>
     i > 0 \<and> (stdin_arg r = int i \<or> stdin_arg r = -1 \<and> Suc i = n)
     \<or> (\<exists>ms. logmask r = Some ms \<and> i \<in> set (takeWhile (\<lambda>m. m \<noteq> 0) ms))"

lemma log_arg_hidden:
  assumes "hidden r n i"
  shows "log_arg (Some r) i a (Suc i = n) = log_arg (Some r) i b (Suc i = n)"
  using assms by (auto simp: hidden_def log_arg_def mask_hit_iff Let_def split: option.splits)

lemma log_args_loop_hidden:
  assumes "length as = length bs" "n = k + length as"
    and "\<forall>i < length as. as ! i = bs ! i \<or> hidden r n (k + i)"
  shows "log_args_loop (Some r) k as = log_args_loop (Some r) k bs"
  using assms
proof (induction as bs arbitrary: k rule: list_induct2)
  case (Cons a as b bs)
  have l: "(as = []) = (Suc k = n)" "(bs = []) = (Suc k = n)"
    using Cons.hyps Cons.prems(1) by auto
  have "a = b \<or> hidden r n k" using Cons.prems(2) by force
  then have "log_arg (Some r) k a (as = []) = log_arg (Some r) k b (bs = [])"
    using log_arg_hidden unfolding l by blast
  moreover have "\<forall>i < length as. as ! i = bs ! i \<or> hidden r n (Suc k + i)"
    using Cons.prems(2) by force
  ultimately show ?case using Cons.IH [of "Suc k"] Cons.prems(1) by simp
qed simp

definition log_printable :: "char \<Rightarrow> bool" where
  "log_printable c \<longleftrightarrow> c = TAB \<or> 32 \<le> (of_char c :: nat) \<and> (of_char c :: nat) < 127"

lemma log_char_printable: "log_printable (log_char c)"
proof -
  obtain n where n: "(of_char c :: nat) = n" "n < 256" by (simp add: nat_of_char_less_256)
  then have "(of_char c :: int) = int n" by (metis of_nat_of_char)
  then have s: "schar c = (if n < 128 then int n else int n - 256)" unfolding schar_def by simp
  have "c = TAB" if "n = 9"
  proof -
    have "(of_char c :: nat) = of_char TAB" using n(1) that by simp
    then show ?thesis by (simp only: of_char_eq_iff)
  qed
  then show ?thesis
    using n unfolding log_char_def log_printable_def s by (auto split: if_splits)
qed

subsection \<open>Properties\<close>

text \<open>
  C28: the log never reveals a hidden argument. Two commands that differ only
  in arguments that the rule masks or passes on standard input leave the same
  log entry.
\<close>

theorem log_hides_arguments:
  assumes "length argv = length argv'"
    and "\<forall>i < length argv. argv ! i = argv' ! i \<or> hidden r (length argv) i"
  shows "server_log_command argv (Some r) usr c = server_log_command argv' (Some r) usr c"
  using log_args_loop_hidden [OF assms(1), of "length argv" 0 r] assms(2)
  by (simp add: server_log_command_def log_command_text_def)

theorem log_hides_arguments_witness:
  "server_log_command [''kadmin'', ''passwd'', ''secret''] (Some (demo_rule\<lparr>logmask := Some [2, 0]\<rparr>)) ''eagle@EX'' demo_client
     = server_log_command [''kadmin'', ''passwd'', ''guess''] (Some (demo_rule\<lparr>logmask := Some [2, 0]\<rparr>)) ''eagle@EX'' demo_client"
  by (rule log_hides_arguments) (auto simp: hidden_def less_Suc_eq numeral_3_eq_3)

text \<open>
  Whatever octets a command contains, the text that is logged consists of
  tabs and printable ASCII characters only, so that a client cannot forge log
  lines or send control sequences to a log viewer.
\<close>

theorem log_text_printable:
  "list_all log_printable (log_command_text argv ru)"
  unfolding log_command_text_def by (simp add: list_all_iff log_char_printable)

text \<open>
  The mask list of \<open>option_logmask_narrowed\<close> hides nothing: argument 2, which
  the configuration asks to mask, is logged.
\<close>

lemma narrowed_mask_leaks:
  "log_command_text [''kadmin'', ''passwd'', ''secret''] (Some (demo_rule\<lparr>logmask := Some [0, 2, 0]\<rparr>))
     = ''kadmin passwd secret''"
  by (simp add: log_command_text_def log_arg_def demo_rule_def x_strndup_def log_char_def schar_def)

end
