(* ===== verification/Process.thy ===== *)
theory Process
  imports Logging "HOL-Library.Multiset"
begin

text \<open>
  Running a child process: \<^verbatim>\<open>src/server/process.c\<close> with the event handlers of
  \<^verbatim>\<open>server-v1.c\<close>, \<^verbatim>\<open>server-v2.c\<close> and \<^verbatim>\<open>server-ssh.c\<close>.

  libevent, the kernel and the child are the environment. For each process a
  script says how its creation goes and which events the loop delivers: those
  of \<open>event_base_dispatch\<close> and, after the child has exited, those of each
  further non-blocking round. The handlers are the code's. Each callback is
  given by the client's \<open>backend\<close>, as in \<open>Server_Send\<close>.

  What the child is started with is recorded in \<open>spawned\<close>, and the descriptors
  the server opens and closes in \<open>opened\<close> and \<open>closed\<close>. Failures of libevent
  itself, which end the server, are not in the scripts.
\<close>

subsection \<open>The environment\<close>

datatype stream = Inout | Err

text \<open>
  Data has arrived from the process; end of file; another input or output
  error (\<open>reading\<close> or writing); all input has been written, with the result of
  \<open>shutdown\<close>; SIGCHLD, with the status when it was our child.
\<close>

datatype proc_event =
    Data stream bytes
  | Eof stream
  | Io_error stream bool errno
  | Input_written bool
  | Child_exit "int option"

record proc_script =
  pair_inout :: "(nat \<times> nat) option"
  pair_err :: "(nat \<times> nat) option"
  fork_pid :: "nat option"
  start_errno :: errno
  dispatch_events :: "proc_event list"
  drain_events :: "proc_event list list"
  wait_status :: int

text \<open>What \<open>execv\<close> runs, and the state the child is in then.\<close>

record spawn =
  exec_path :: string
  exec_args :: "string list"
  exec_env :: "(string \<times> string) list"
  exec_ids :: "(string \<times> nat \<times> nat) option"
  exec_stdin :: "bytes option"
  exec_joined :: bool

record 'c server = "'c client" +
  procs :: "proc_script list"
  spawned :: "spawn list"
  opened :: "nat list"
  closed :: "nat list"

subsection \<open>The process\<close>

record process =
  proc_command :: string
  proc_argv :: "string list"
  proc_rule :: rule
  proc_input :: "bytes option"
  proc_output :: "bytes option"
  proc_status :: int
  stdinout_fd :: nat
  stderr_fd :: nat
  pid :: nat
  reaped :: bool
  saw_error :: bool
  saw_output :: bool
  inout_buf :: bytes
  err_buf :: bytes
  discarding :: bool

definition new_process :: "string \<Rightarrow> string list \<Rightarrow> rule \<Rightarrow> bytes option \<Rightarrow> process" where
  "new_process cmd argv r inp =
     \<lparr>proc_command = cmd, proc_argv = argv, proc_rule = r, proc_input = inp, proc_output = None,
      proc_status = 0, stdinout_fd = 0, stderr_fd = 0, pid = 0, reaped = False, saw_error = False,
      saw_output = False, inout_buf = [], err_buf = [], discarding = False\<rparr>"

type_synonym ('c, 'z) pstate = "process \<times> ('c, 'z) server_scheme"

definition PATH_SUDO :: string where "PATH_SUDO = ''sudo''"

text \<open>\<open>server_handle_io_event\<close>: end of file and a reset peer are no errors.\<close>

definition server_handle_io_event ::
  "'c gss \<Rightarrow> bool \<Rightarrow> bool \<Rightarrow> errno \<Rightarrow> ('c, 'z) pstate \<Rightarrow> fault + ('c, 'z) pstate" where
  "server_handle_io_event g is_eof reading e ps =
     (case ps of (p, c) \<Rightarrow>
        if is_eof then Inr (p, c)
        else if e = ECONNRESET \<or> e = EPIPE then Inr (p, c)
        else
          let c1 = log_msg (Log_errno Warn (if reading then ''read from process failed''
                                            else ''write to standard input failed'') e) c
          in ebind (client_error g ERROR_INTERNAL ''Internal failure'' c1) (\<lambda>(_, c2).
               Inr (p\<lparr>saw_error := True\<rparr>, c2)))"

definition server_handle_input_end :: "bool \<Rightarrow> ('c, 'z) pstate \<Rightarrow> fault + ('c, 'z) pstate" where
  "server_handle_input_end shutdown_ok ps =
     (if shutdown_ok then Inr ps
      else Inl (Died ''cannot shut down input side of process socket pair''))"

definition handle_exit :: "int option \<Rightarrow> ('c, 'z) pstate \<Rightarrow> ('c, 'z) pstate" where
  "handle_exit st ps =
     (case ps of (p, c) \<Rightarrow>
        (case st of
           None \<Rightarrow> (p, c)
         | Some s \<Rightarrow> (p\<lparr>proc_status := s, reaped := True\<rparr>, c)))"

text \<open>
  Protocol one: the watermark holds the callback back until a full buffer is
  there; \<open>handle_output_full\<close> keeps that buffer and \<open>handle_output_discard\<close>
  drops everything later.
\<close>

definition handle_output_v1 :: "process \<Rightarrow> process" where
  "handle_output_v1 p =
     (if length (inout_buf p) < TOKEN_MAX_OUTPUT_V1 then p
      else if discarding p then p\<lparr>inout_buf := []\<rparr>
      else p\<lparr>proc_output := Some (inout_buf p), inout_buf := [], discarding := True\<rparr>)"

definition take_buf :: "stream \<Rightarrow> process \<Rightarrow> bytes \<times> process" where
  "take_buf st p =
     (case st of
        Inout \<Rightarrow> (inout_buf p, p\<lparr>inout_buf := []\<rparr>)
      | Err \<Rightarrow> (err_buf p, p\<lparr>err_buf := []\<rparr>))"

definition add_buf :: "stream \<Rightarrow> bytes \<Rightarrow> process \<Rightarrow> process" where
  "add_buf st bs p =
     (case st of
        Inout \<Rightarrow> p\<lparr>inout_buf := inout_buf p @ bs\<rparr>
      | Err \<Rightarrow> p\<lparr>err_buf := err_buf p @ bs\<rparr>)"

definition handle_output_v2 ::
  "'c gss \<Rightarrow> stream \<Rightarrow> ('c, 'z) pstate \<Rightarrow> fault + ('c, 'z) pstate" where
  "handle_output_v2 g st ps =
     (case ps of (p, c) \<Rightarrow>
        (case take_buf st (p\<lparr>saw_output := True\<rparr>) of
           (buf, p1) \<Rightarrow>
             ebind (server_v2_send_output g (if st = Inout then 1 else 2) buf c) (\<lambda>(ok, c1).
               Inr (if ok then p1 else p1\<lparr>saw_error := True\<rparr>, c1))))"

text \<open>The ssh handler writes what it can; a partial write leaves the rest in the buffer.\<close>

definition handle_output_ssh ::
  "stream \<Rightarrow> ('c, 'z) pstate \<Rightarrow> ('c, 'z) pstate" where
  "handle_output_ssh st ps =
     (case ps of (p, c) \<Rightarrow>
        (case take_buf st (p\<lparr>saw_output := True\<rparr>) of
           (buf, p1) \<Rightarrow>
             let failed = (\<lambda>e c1. (p1\<lparr>saw_error := True\<rparr>,
                            (log_msg (Log_errno Warn ''error sending output'' e) c1)\<lparr>fatal := True\<rparr>))
             in case st of
                  Inout \<Rightarrow>
                    (case sys_write buf c of
                       (None, c1) \<Rightarrow> failed (socket_errno c1) c1
                     | (Some n, c1) \<Rightarrow> (add_buf st (drop n buf) p1, c1))
                | Err \<Rightarrow>
                    (case sys_write buf (stderr_sock c) of
                       (None, k) \<Rightarrow> failed (socket_errno k) (c\<lparr>stderr_sock := k\<rparr>)
                     | (Some n, k) \<Rightarrow> (add_buf st (drop n buf) p1, c\<lparr>stderr_sock := k\<rparr>))))"

definition handle_event ::
  "'c gss \<Rightarrow> proc_event \<Rightarrow> ('c, 'z) pstate \<Rightarrow> fault + ('c, 'z) pstate" where
  "handle_event g ev ps =
     (case ps of (p, c) \<Rightarrow>
        (case ev of
           Data st bs \<Rightarrow>
             let p1 = add_buf st bs p
             in (case backend c of
                   V1 \<Rightarrow> Inr (handle_output_v1 p1, c)
                 | V2 \<Rightarrow> handle_output_v2 g st (p1, c)
                 | Ssh \<Rightarrow> Inr (handle_output_ssh st (p1, c)))
         | Eof st \<Rightarrow> server_handle_io_event g True True EPIPE (p, c)
         | Io_error st reading e \<Rightarrow> server_handle_io_event g False reading e (p, c)
         | Input_written ok \<Rightarrow> server_handle_input_end ok (p, c)
         | Child_exit st \<Rightarrow> Inr (handle_exit st (p, c))))"

text \<open>One run of the event loop: events in order, until a handler breaks out.\<close>

primrec run_events ::
  "'c gss \<Rightarrow> proc_event list \<Rightarrow> ('c, 'z) pstate \<Rightarrow> fault + ('c, 'z) pstate" where
  "run_events g [] ps = Inr ps"
| "run_events g (ev # evs) ps =
     (if saw_error (fst ps) then Inr ps
      else ebind (handle_event g ev ps) (run_events g evs))"

subsection \<open>Starting the child\<close>

text \<open>The environment and identity the child sets up before \<open>execv\<close>.\<close>

definition child_env :: "process \<Rightarrow> ('c, 'z) client_scheme \<Rightarrow> (string \<times> string) list" where
  "child_env p c =
     [(''REMUSER'', user c), (''REMOTE_USER'', user c), (''REMOTE_ADDR'', ipaddress c)]
     @ (case hostname c of None \<Rightarrow> [] | Some h \<Rightarrow> [(''REMOTE_HOST'', h)])
     @ [(''REMCTL_COMMAND'', proc_command p),
        (''REMOTE_EXPIRES'', show_nat (nat (expires c mod 2 ^ 64)))]"

definition child_spawn :: "process \<Rightarrow> ('c, 'z) client_scheme \<Rightarrow> spawn" where
  "child_spawn p c =
     \<lparr>exec_path = (case sudo_user (proc_rule p) of None \<Rightarrow> program (proc_rule p) | Some _ \<Rightarrow> PATH_SUDO),
      exec_args = proc_argv p,
      exec_env = child_env p c,
      exec_ids = (case rule_user (proc_rule p) of
                    Some u \<Rightarrow> if uid (proc_rule p) > 0 then Some (u, uid (proc_rule p), gid (proc_rule p))
                              else None
                  | None \<Rightarrow> None),
      exec_stdin = proc_input p,
      exec_joined = (protocol c = 1)\<rparr>"

definition start_failed ::
  "'c gss \<Rightarrow> string \<Rightarrow> errno \<Rightarrow> nat list \<Rightarrow> ('c, 'z) pstate \<Rightarrow> fault + ('c, 'z) pstate" where
  "start_failed g message e fds ps =
     (case ps of (p, c) \<Rightarrow>
        let c1 = log_msg (Log_errno Warn message e) c; c2 = c1\<lparr>closed := closed c1 @ fds\<rparr>
        in ebind (client_error g ERROR_INTERNAL ''Internal failure'' c2) (\<lambda>(_, c3).
             Inr (p\<lparr>saw_error := True\<rparr>, c3)))"

definition start ::
  "'c gss \<Rightarrow> proc_script \<Rightarrow> ('c, 'z) pstate \<Rightarrow> fault + ('c, 'z) pstate" where
  "start g scr ps =
     (case ps of (p, c) \<Rightarrow>
        (case pair_inout scr of
           None \<Rightarrow> start_failed g ''cannot create stdin and stdout socket pair'' (start_errno scr) [] ps
         | Some (io0, io1) \<Rightarrow>
             let c1 = c\<lparr>opened := opened c @ [io0, io1]\<rparr>
             in if protocol c > 1 \<and> pair_err scr = None then
                  start_failed g ''cannot create stderr socket pair'' (start_errno scr) [io0, io1] (p, c1)
                else
                  let err_fds = (if protocol c > 1
                                 then (case pair_err scr of Some (a, b) \<Rightarrow> [a, b] | None \<Rightarrow> []) else []);
                      c2 = c1\<lparr>opened := opened c1 @ err_fds\<rparr>
                  in case fork_pid scr of
                       None \<Rightarrow>
                         start_failed g ''cannot fork'' (start_errno scr) ([io0, io1] @ err_fds) (p, c2)
                     | Some q \<Rightarrow>
                         let c3 = c2\<lparr>spawned := spawned c2 @ [child_spawn p c2],
                                     closed := closed c2 @ io1 # drop 1 err_fds\<rparr>;
                             p1 = p\<lparr>pid := q, stdinout_fd := io0\<rparr>
                         in Inr (if protocol c > 1 then p1\<lparr>stderr_fd := hd err_fds\<rparr> else p1, c3)))"

subsection \<open>Running\<close>

text \<open>Further rounds after the child has exited, as long as there is output.\<close>

fun drain_loop ::
  "'c gss \<Rightarrow> proc_event list list \<Rightarrow> ('c, 'z) pstate \<Rightarrow> fault + ('c, 'z) pstate" where
  "drain_loop g [] (p, c) =
     Inr (if saw_output p \<and> \<not> saw_error p then (p\<lparr>saw_output := False\<rparr>, c) else (p, c))"
| "drain_loop g (evs # rounds) (p, c) =
     (if saw_output p \<and> \<not> saw_error p
      then ebind (run_events g evs (p\<lparr>saw_output := False\<rparr>, c)) (drain_loop g rounds)
      else Inr (p, c))"

definition no_process :: proc_script where
  "no_process = \<lparr>pair_inout = None, pair_err = None, fork_pid = None, start_errno = ENOMEM,
     dispatch_events = [], drain_events = [], wait_status = 0\<rparr>"

definition next_script :: "('c, 'z) server_scheme \<Rightarrow> proc_script \<times> ('c, 'z) server_scheme" where
  "next_script c = (case procs c of [] \<Rightarrow> (no_process, c) | s # r \<Rightarrow> (s, c\<lparr>procs := r\<rparr>))"

definition process_result ::
  "proc_script \<Rightarrow> ('c, 'z) pstate \<Rightarrow> bool \<times> ('c, 'z) pstate" where
  "process_result scr ps =
     (case ps of (p, c) \<Rightarrow>
        let c1 = c\<lparr>closed := closed c @ stdinout_fd p # (if protocol c > 1 then [stderr_fd p] else [])\<rparr>
        in if saw_error p then
             (False, if \<not> reaped p \<and> pid p > 0 then p\<lparr>proc_status := wait_status scr\<rparr> else p, c1)
           else if protocol c = 1 \<and> proc_output p = None then
             (True, p\<lparr>proc_output := Some (inout_buf p), inout_buf := []\<rparr>, c1)
           else (True, p, c1))"

definition server_process_run ::
  "'c gss \<Rightarrow> ('c, 'z) pstate \<Rightarrow> fault + bool \<times> ('c, 'z) pstate" where
  "server_process_run g ps =
     (case ps of (p, c) \<Rightarrow>
        (case next_script c of
           (scr, c0) \<Rightarrow>
             ebind (start g scr (p, c0)) (\<lambda>ps1.
             ebind (run_events g (dispatch_events scr) ps1) (\<lambda>(p2, c2).
             ebind (drain_loop g (drain_events scr) (p2\<lparr>saw_output := True\<rparr>, c2)) (\<lambda>ps3.
               Inr (process_result scr ps3))))))"

subsection \<open>What running a process leaves alone\<close>

definition proc_core :: "process \<Rightarrow> string \<times> string list \<times> rule \<times> bytes option \<times> nat \<times> nat \<times> nat" where
  "proc_core p = (proc_command p, proc_argv p, proc_rule p, proc_input p, stdinout_fd p, stderr_fd p, pid p)"

definition srv_core ::
  "('c, 'z) server_scheme \<Rightarrow> proc_script list \<times> spawn list \<times> nat list \<times> nat list" where
  "srv_core c = (procs c, spawned c, opened c, closed c)"

lemma core_updates [simp]:
  "proc_core (p\<lparr>proc_output := x1\<rparr>) = proc_core p" "proc_core (p\<lparr>proc_status := x2\<rparr>) = proc_core p"
  "proc_core (p\<lparr>reaped := x3\<rparr>) = proc_core p" "proc_core (p\<lparr>saw_error := x3\<rparr>) = proc_core p"
  "proc_core (p\<lparr>saw_output := x3\<rparr>) = proc_core p" "proc_core (p\<lparr>inout_buf := x4\<rparr>) = proc_core p"
  "proc_core (p\<lparr>err_buf := x4\<rparr>) = proc_core p" "proc_core (p\<lparr>discarding := x3\<rparr>) = proc_core p"
  "proc_core (add_buf st bs p) = proc_core p"
  by (simp_all add: proc_core_def add_buf_def split: stream.splits)

lemma srv_core_more:
  fixes c c1 :: "('c, 'z) server_scheme"
  assumes "client.more c1 = client.more c"
  shows "srv_core c1 = srv_core c"
  using assms by (cases c; cases c1) (simp add: srv_core_def)

text \<open>\<open>kept\<close>: the same client and process, nothing started, opened or closed.\<close>

definition kept :: "('c, 'z) pstate \<Rightarrow> ('c, 'z) pstate \<Rightarrow> bool" where
  "kept ps ps1 \<longleftrightarrow> proc_core (fst ps1) = proc_core (fst ps) \<and> who (snd ps1) = who (snd ps)
     \<and> srv_core (snd ps1) = srv_core (snd ps)"

lemma kept_refl [simp]: "kept ps ps"
  by (simp add: kept_def)

lemma kept_trans: "kept a b \<Longrightarrow> kept b c \<Longrightarrow> kept a c"
  by (simp add: kept_def)

lemma extends_kept:
  "extends c c1 \<Longrightarrow> proc_core p1 = proc_core p \<Longrightarrow> kept (p, c) (p1, c1)"
  by (auto simp: kept_def extends_def client_same_def intro: srv_core_more)

lemma sys_write_kept:
  fixes c :: "('c, 'z) server_scheme"
  assumes "sys_write bs c = (r, c1)"
  shows "who c1 = who c \<and> srv_core c1 = srv_core c"
  using assms
  by (cases c) (auto simp: sys_write_def who_def ident_def srv_core_def split: list.splits wr_result.splits)

lemma take_buf_core: "take_buf st p = (b, p1) \<Longrightarrow> proc_core p1 = proc_core p"
  by (auto simp: take_buf_def split: stream.splits)

lemma srv_core_update [simp]:
  "srv_core (log_msg e c) = srv_core c" "srv_core (c\<lparr>fatal := b\<rparr>) = srv_core c"
  "srv_core (c\<lparr>stderr_sock := k\<rparr>) = srv_core c"
  by (simp_all add: srv_core_def log_msg_def)

lemma handle_event_kept:
  assumes "handle_event g ev (p, c) = Inr ps1"
  shows "kept (p, c) ps1"
proof (cases ev)
  case (Data st bs)
  show ?thesis
  proof (cases "backend c")
    case V1
    with assms Data show ?thesis by (auto simp: handle_event_def handle_output_v1_def kept_def Let_def)
  next
    case V2
    obtain buf p2 where t: "take_buf st (add_buf st bs p\<lparr>saw_output := True\<rparr>) = (buf, p2)" by fastforce
    have "proc_core p2 = proc_core p" using take_buf_core [OF t] by simp
    then show ?thesis
      using assms Data V2 t
      by (auto simp: handle_event_def handle_output_v2_def exec split: if_splits
          intro!: extends_kept dest: v2_out.reply_extends)
  next
    case Ssh
    obtain buf p2 where t: "take_buf st (add_buf st bs p\<lparr>saw_output := True\<rparr>) = (buf, p2)" by fastforce
    have "proc_core p2 = proc_core p" using take_buf_core [OF t] by simp
    then show ?thesis
      using assms Data Ssh t
      by (auto simp: handle_event_def handle_output_ssh_def kept_def Let_def
          split: stream.splits prod.splits option.splits dest: sys_write_kept)
  qed
next
  case (Io_error st reading e)
  then show ?thesis
    using assms by (auto simp: handle_event_def server_handle_io_event_def exec Let_def
        split: if_splits intro!: extends_kept dest: err.reply_log)
qed (use assms in \<open>auto simp: handle_event_def server_handle_io_event_def server_handle_input_end_def
       handle_exit_def kept_def split: if_splits option.splits\<close>)

lemma run_events_kept: "run_events g evs ps = Inr ps1 \<Longrightarrow> kept ps ps1"
proof (induction evs arbitrary: ps)
  case (Cons ev evs)
  show ?case
  proof (cases "saw_error (fst ps)")
    case False
    with Cons.prems obtain ps2 where "handle_event g ev ps = Inr ps2" "run_events g evs ps2 = Inr ps1"
      by (auto simp: exec)
    then show ?thesis using Cons.IH handle_event_kept kept_trans by (metis prod.collapse)
  qed (use Cons.prems in simp)
qed simp

lemma drain_loop_kept: "drain_loop g rounds ps = Inr ps1 \<Longrightarrow> kept ps ps1"
proof (induction g rounds ps rule: drain_loop.induct)
  case (2 g evs rounds p c)
  show ?case
  proof (cases "saw_output p \<and> \<not> saw_error p")
    case True
    with "2.prems" obtain ps2 where r: "run_events g evs (p\<lparr>saw_output := False\<rparr>, c) = Inr ps2"
      "drain_loop g rounds ps2 = Inr ps1" by (auto simp: exec)
    have "kept (p, c) ps2" using run_events_kept [OF r(1)] by (simp add: kept_def)
    then show ?thesis using "2.IH" [OF True r] kept_trans by blast
  qed (use "2.prems" in auto)
qed (auto simp: kept_def)


text \<open>
  Starting either fails, having closed whatever it opened, or starts exactly
  the child described by \<open>child_spawn\<close>.
\<close>

lemma server_updates [simp]:
  "who (c\<lparr>opened := x\<rparr>) = who c" "who (c\<lparr>closed := x\<rparr>) = who c"
  "who (c\<lparr>spawned := y\<rparr>) = who c" "who (c\<lparr>procs := z\<rparr>) = who c"
  "child_spawn p (c\<lparr>opened := x\<rparr>) = child_spawn p c"
  "child_spawn p (c\<lparr>closed := x\<rparr>) = child_spawn p c"
  "child_spawn p (c\<lparr>spawned := y\<rparr>) = child_spawn p c"
  "child_spawn p (c\<lparr>procs := z\<rparr>) = child_spawn p c"
  for c :: "('c, 'z) server_scheme"
  by (simp_all add: who_def ident_def child_spawn_def child_env_def)

lemma start_failed_result:
  assumes "start_failed g m e fds (p, c) = Inr (p1, c1)"
  shows "p1 = p\<lparr>saw_error := True\<rparr> \<and> who c1 = who c \<and> procs c1 = procs c \<and> spawned c1 = spawned c
         \<and> opened c1 = opened c \<and> closed c1 = closed c @ fds"
proof -
  from assms obtain ok where "p1 = p\<lparr>saw_error := True\<rparr>"
    "client_error g ERROR_INTERNAL ''Internal failure''
       ((log_msg (Log_errno Warn m e) c)\<lparr>closed := closed c @ fds\<rparr>) = Inr (ok, c1)"
    by (auto simp: start_failed_def exec Let_def log_msg_def)
  moreover from err.reply_same [OF this(2)]
  have "who c1 = who c" "srv_core c1 = srv_core (c\<lparr>closed := closed c @ fds\<rparr>)"
    by (auto simp: client_same_def log_msg_def srv_core_def dest: srv_core_more)
       (auto simp: who_def ident_def)
  ultimately show ?thesis by (simp add: srv_core_def)
qed

definition started :: "process \<Rightarrow> ('c, 'z) server_scheme \<Rightarrow> ('c, 'z) pstate \<Rightarrow> bool" where
  "started p c ps1 \<longleftrightarrow>
     (case ps1 of (p1, c1) \<Rightarrow>
        spawned c1 = spawned c @ [child_spawn p c] \<and> saw_error p1 = saw_error p
        \<and> p1 = p\<lparr>pid := pid p1, stdinout_fd := stdinout_fd p1, stderr_fd := stderr_fd p1\<rparr>
        \<and> mset (opened c1) + mset (closed c)
          = mset (opened c) + mset (closed c1)
            + mset (stdinout_fd p1 # (if protocol c > 1 then [stderr_fd p1] else [])))"

definition not_started :: "process \<Rightarrow> ('c, 'z) server_scheme \<Rightarrow> ('c, 'z) pstate \<Rightarrow> bool" where
  "not_started p c ps1 \<longleftrightarrow>
     (case ps1 of (p1, c1) \<Rightarrow>
        p1 = p\<lparr>saw_error := True\<rparr> \<and> spawned c1 = spawned c
        \<and> (\<exists>fds. opened c1 = opened c @ fds \<and> closed c1 = closed c @ fds))"

lemma start_result:
  assumes "start g scr (p, c) = Inr (p1, c1)"
  shows "who c1 = who c \<and> procs c1 = procs c \<and> (started p c (p1, c1) \<or> not_started p c (p1, c1))"
proof (cases "pair_inout scr")
  case None
  with assms start_failed_result show ?thesis by (fastforce simp: start_def not_started_def)
next
  case (Some io)
  obtain io0 io1 where io: "pair_inout scr = Some (io0, io1)" using Some by (cases io) auto
  show ?thesis
  proof (cases "protocol c > 1 \<and> pair_err scr = None")
    case True
    with assms io start_failed_result show ?thesis
      by (fastforce simp: start_def not_started_def Let_def)
  next
    case False
    then obtain a b where e: "protocol c > 1 \<longrightarrow> pair_err scr = Some (a, b)"
      by (cases "pair_err scr") auto
    show ?thesis
    proof (cases "fork_pid scr")
      case None
      with assms io False start_failed_result show ?thesis
        by (fastforce simp: start_def not_started_def Let_def)
    next
      case (Some q)
      with assms io False e show ?thesis
        by (auto simp: start_def started_def Let_def split: if_splits)
    qed
  qed
qed

lemma next_script_result:
  "next_script c = (scr, c0) \<Longrightarrow> who c0 = who c \<and> spawned c0 = spawned c \<and> opened c0 = opened c
     \<and> closed c0 = closed c \<and> child_spawn p c0 = child_spawn p c"
  by (auto simp: next_script_def split: list.splits)

lemma process_result_facts:
  assumes "process_result scr (p, c) = (ok, p1, c1)"
  shows "ok = (\<not> saw_error p) \<and> who c1 = who c \<and> procs c1 = procs c \<and> spawned c1 = spawned c
     \<and> opened c1 = opened c \<and> saw_error p1 = saw_error p \<and> stdinout_fd p1 = stdinout_fd p
     \<and> closed c1 = closed c @ stdinout_fd p # (if protocol c > 1 then [stderr_fd p] else [])"
  using assms by (auto simp: process_result_def Let_def split: if_splits)

lemma run_events_broken: "saw_error (fst ps) \<Longrightarrow> run_events g evs ps = Inr ps"
  by (cases evs) auto

lemma drain_loop_broken: "saw_error p \<Longrightarrow> drain_loop g rounds (p, c) = Inr (p, c)"
  by (cases rounds) auto

text \<open>
  A run in stages: the start, the events, the result. After a failed start no
  event is handled.
\<close>

lemma process_run_stages:
  assumes "server_process_run g (p, c) = Inr (ok, p1, c1)"
  obtains scr c0 p2 c2 p3 c3 where "next_script c = (scr, c0)" "start g scr (p, c0) = Inr (p2, c2)"
    "kept (p2, c2) (p3, c3)" "saw_error p2 \<longrightarrow> saw_error p3"
    "process_result scr (p3, c3) = (ok, p1, c1)"
proof -
  obtain scr c0 where n: "next_script c = (scr, c0)" by fastforce
  with assms obtain p2 c2 p4 c4 p3 c3 where
    s: "start g scr (p, c0) = Inr (p2, c2)" and
    r: "run_events g (dispatch_events scr) (p2, c2) = Inr (p4, c4)" and
    d: "drain_loop g (drain_events scr) (p4\<lparr>saw_output := True\<rparr>, c4) = Inr (p3, c3)" and
    res: "process_result scr (p3, c3) = (ok, p1, c1)"
    by (auto simp: server_process_run_def exec)
  have "kept (p2, c2) (p3, c3)"
    using run_events_kept [OF r] drain_loop_kept [OF d] by (simp add: kept_def)
  moreover have "saw_error p3" if "saw_error p2"
  proof -
    have "p4 = p2" using r run_events_broken [of "(p2, c2)" g "dispatch_events scr"] that by simp
    then show ?thesis
      using d that drain_loop_broken [of "p4\<lparr>saw_output := True\<rparr>" g "drain_events scr" c4] by auto
  qed
  ultimately show thesis using that n s res by blast
qed

lemma process_run_result:
  assumes "server_process_run g (p, c) = Inr (ok, p1, c1)" "\<not> saw_error p"
  shows "who c1 = who c \<and>
     (spawned c1 = spawned c @ [child_spawn p c]
        \<and> mset (opened c1) + mset (closed c) = mset (opened c) + mset (closed c1)
      \<or> \<not> ok \<and> spawned c1 = spawned c)"
proof -
  from process_run_stages [OF assms(1)] obtain scr c0 p2 c2 p3 c3 where
    n: "next_script c = (scr, c0)" and s: "start g scr (p, c0) = Inr (p2, c2)" and
    k: "kept (p2, c2) (p3, c3)" and e: "saw_error p2 \<longrightarrow> saw_error p3" and
    r: "process_result scr (p3, c3) = (ok, p1, c1)" by blast
  note n' = next_script_result [OF n] and s' = start_result [OF s] and r' = process_result_facts [OF r]
  have w: "who c1 = who c" using k s' r' n' by (simp add: kept_def)
  have core: "spawned c3 = spawned c2" "opened c3 = opened c2" "closed c3 = closed c2"
    "stdinout_fd p3 = stdinout_fd p2" "stderr_fd p3 = stderr_fd p2" "protocol c3 = protocol c"
    using k s' n' who_eqD by (auto simp: kept_def srv_core_def proc_core_def who_def ident_def)
  show ?thesis
  proof (cases "started p c0 (p2, c2)")
    case True
    then show ?thesis using w core r' n' who_eqD [of c0 c] by (auto simp: started_def)
  next
    case False
    then show ?thesis using w core r' n' s' e by (auto simp: not_started_def)
  qed
qed

subsection \<open>What the client receives\<close>

text \<open>Protocol one: the output of the process, cut at the maximum.\<close>

primrec inout_data :: "proc_event list \<Rightarrow> bytes" where
  "inout_data [] = []"
| "inout_data (ev # evs) = (case ev of Data Inout bs \<Rightarrow> bs | _ \<Rightarrow> []) @ inout_data evs"

text \<open>
  The read watermark of libevent: no event brings the input buffer above
  \<open>TOKEN_MAX_OUTPUT_V1\<close>; \<open>n\<close> is its current length, and the handlers empty it
  when it is full.
\<close>

primrec watermark_v1 :: "nat \<Rightarrow> proc_event list \<Rightarrow> bool" where
  "watermark_v1 n [] = True"
| "watermark_v1 n (ev # evs) =
     (case ev of
        Data Inout bs \<Rightarrow>
          n + length bs \<le> TOKEN_MAX_OUTPUT_V1
          \<and> watermark_v1 (if n + length bs = TOKEN_MAX_OUTPUT_V1 then 0 else n + length bs) evs
      | _ \<Rightarrow> watermark_v1 n evs)"

text \<open>What the handlers have kept of the stream \<open>d\<close> seen so far.\<close>

definition kept_v1 :: "bytes \<Rightarrow> process \<Rightarrow> bool" where
  "kept_v1 d p \<longleftrightarrow>
     length (inout_buf p) < TOKEN_MAX_OUTPUT_V1
     \<and> (if discarding p then proc_output p = Some (take TOKEN_MAX_OUTPUT_V1 d) \<and> TOKEN_MAX_OUTPUT_V1 \<le> length d
        else proc_output p = None \<and> inout_buf p = d)"

lemma max_v1_pos [simp]: "0 < TOKEN_MAX_OUTPUT_V1"
  by (simp add: TOKEN_MAX_OUTPUT_V1_def TOKEN_MAX_DATA_def)

lemma handle_output_v1_kept:
  assumes "kept_v1 d p" "length (inout_buf p) + length bs \<le> TOKEN_MAX_OUTPUT_V1"
  shows "kept_v1 (d @ bs) (handle_output_v1 (add_buf Inout bs p))"
    and "length (inout_buf (handle_output_v1 (add_buf Inout bs p)))
         = (if length (inout_buf p) + length bs = TOKEN_MAX_OUTPUT_V1 then 0
            else length (inout_buf p) + length bs)"
  using assms by (auto simp: kept_v1_def handle_output_v1_def add_buf_def)

lemma handle_event_v1:
  assumes "handle_event g ev (p, c) = Inr (p1, c1)" "backend c = V1" "kept_v1 d p"
    "watermark_v1 (length (inout_buf p)) (ev # evs)"
  shows "kept_v1 (d @ inout_data [ev]) p1 \<and> watermark_v1 (length (inout_buf p1)) evs"
proof (cases "\<exists>bs. ev = Data Inout bs")
  case True
  then obtain bs where ev: "ev = Data Inout bs" by blast
  with assms(1,2) have "p1 = handle_output_v1 (add_buf Inout bs p)" by (simp add: handle_event_def)
  with handle_output_v1_kept [OF assms(3)] assms(4) ev show ?thesis by auto
next
  case False
  have "kept_v1 d p1 \<and> length (inout_buf p1) = length (inout_buf p)"
    using assms(1-3) False
    by (auto simp: handle_event_def server_handle_io_event_def server_handle_input_end_def
        handle_exit_def kept_v1_def handle_output_v1_def add_buf_def exec Let_def
        split: proc_event.splits if_splits option.splits stream.splits)
  moreover have "inout_data [ev] = []" "watermark_v1 (length (inout_buf p)) evs"
    using False assms(4) by (auto split: proc_event.splits stream.splits)
  ultimately show ?thesis by simp
qed

lemma run_events_v1:
  assumes "run_events g evs (p, c) = Inr (p1, c1)" "backend c = V1" "kept_v1 d p"
    "watermark_v1 (length (inout_buf p)) (evs @ evs2)" "\<not> saw_error p1"
  shows "kept_v1 (d @ inout_data evs) p1 \<and> watermark_v1 (length (inout_buf p1)) evs2"
  using assms
proof (induction evs arbitrary: p c d)
  case (Cons ev evs)
  have ne: "\<not> saw_error p" using Cons.prems(1,5) run_events_broken [of "(p, c)"] by auto
  with Cons.prems(1) obtain p2 c2 where h: "handle_event g ev (p, c) = Inr (p2, c2)"
    and r: "run_events g evs (p2, c2) = Inr (p1, c1)" by (auto simp: exec)
  have "backend c2 = V1" using handle_event_kept [OF h] Cons.prems(2) by (auto simp: kept_def who_def ident_def)
  then show ?case
    using Cons.IH [OF r, of "d @ inout_data [ev]"] handle_event_v1 [OF h Cons.prems(2,3), of "evs @ evs2"]
      Cons.prems(4,5) by simp
qed simp

text \<open>Protocol one leaves \<open>saw_output\<close> alone, so there is one further round.\<close>

lemma handle_event_v1_saw:
  "handle_event g ev (p, c) = Inr (p1, c1) \<Longrightarrow> backend c = V1 \<Longrightarrow> saw_output p1 = saw_output p"
  by (auto simp: handle_event_def server_handle_io_event_def server_handle_input_end_def
      handle_exit_def handle_output_v1_def add_buf_def exec Let_def
      split: proc_event.splits if_splits option.splits stream.splits)

lemma run_events_v1_saw:
  "run_events g evs (p, c) = Inr (p1, c1) \<Longrightarrow> backend c = V1 \<Longrightarrow> saw_output p1 = saw_output p"
proof (induction evs arbitrary: p c)
  case (Cons ev evs)
  show ?case
  proof (cases "saw_error p")
    case False
    with Cons.prems(1) obtain p2 c2 where h: "handle_event g ev (p, c) = Inr (p2, c2)"
      and r: "run_events g evs (p2, c2) = Inr (p1, c1)" by (auto simp: exec)
    have "backend c2 = V1" using handle_event_kept [OF h] Cons.prems(2) by (auto simp: kept_def who_def ident_def)
    then show ?thesis using Cons.IH [OF r] handle_event_v1_saw [OF h Cons.prems(2)] by simp
  qed (use Cons.prems in simp)
qed simp

lemma inout_data_append: "inout_data (a @ b) = inout_data a @ inout_data b"
  by (induction a) auto

lemma kept_v1_new: "kept_v1 [] (new_process cmd argv r inp)"
  by (simp add: kept_v1_def new_process_def)

lemma drain_v1:
  assumes "drain_loop g rounds (p, c) = Inr (p1, c1)" "backend c = V1" "kept_v1 d p" "saw_output p"
    "watermark_v1 (length (inout_buf p)) (concat (take 1 rounds))" "\<not> saw_error p1"
  shows "kept_v1 (d @ inout_data (concat (take 1 rounds))) p1"
proof (cases rounds)
  case Nil
  with assms show ?thesis by (auto simp: kept_v1_def split: if_splits)
next
  case (Cons evs rest)
  have ne: "\<not> saw_error p" using assms(1,6) drain_loop_broken [of p g rounds c] by auto
  with assms(1,4) Cons obtain p2 c2 where r: "run_events g evs (p\<lparr>saw_output := False\<rparr>, c) = Inr (p2, c2)"
    and l: "drain_loop g rest (p2, c2) = Inr (p1, c1)" by (auto simp: exec)
  have "\<not> saw_output p2" using run_events_v1_saw [OF r assms(2)] by simp
  with l have "p1 = p2" by (cases rest) auto
  moreover have "kept_v1 d (p\<lparr>saw_output := False\<rparr>)" using assms(3) by (simp add: kept_v1_def)
  ultimately show ?thesis
    using run_events_v1 [OF r assms(2), of d "[]"] assms(5,6) Cons by simp
qed

text \<open>Protocol two: one OUTPUT message for each piece of data, in order.\<close>

primrec data_events :: "proc_event list \<Rightarrow> (stream \<times> bytes) list" where
  "data_events [] = []"
| "data_events (ev # evs) = (case ev of Data st bs \<Rightarrow> [(st, bs)] | _ \<Rightarrow> []) @ data_events evs"

primrec sends ::
  "'c gss \<Rightarrow> bytes list \<Rightarrow> ('c, 'z) chan_scheme \<Rightarrow> ('c, 'z) chan_scheme \<Rightarrow> bool" where
  "sends g [] c c1 \<longleftrightarrow> c1 = c"
| "sends g (m # ms) c c1 \<longleftrightarrow>
     (\<exists>c2. token_send_priv g (TOKEN_DATA OR TOKEN_PROTOCOL) m TIMEOUT c = (TOKEN_OK, c2)
           \<and> sends g ms c2 c1)"

lemma sends_append: "sends g (a @ b) c c1 \<longleftrightarrow> (\<exists>c2. sends g a c c2 \<and> sends g b c2 c1)"
  by (induction a arbitrary: c) auto

definition out_payload :: "stream \<times> bytes \<Rightarrow> bytes" where
  "out_payload d = v2_output_payload (if fst d = Inout then 1 else 2) (snd d)"

lemma v2_send_output_sends:
  assumes "server_v2_send_output g st buf c = Inr (True, c1)"
  shows "sends g [v2_output_payload (nat st) buf] c c1"
  using assms by (auto simp: server_v2_send_output_def split: if_splits prod.splits)

lemma handle_event_v2:
  assumes "handle_event g ev (p, c) = Inr (p1, c1)" "backend c = V2" "inout_buf p = []" "err_buf p = []"
    "\<not> saw_error p1"
  shows "sends g (map out_payload (data_events [ev])) c c1 \<and> inout_buf p1 = [] \<and> err_buf p1 = []"
proof (cases ev)
  case (Data st bs)
  show ?thesis
  proof (cases st)
    case Inout
    with assms Data have "server_v2_send_output g 1 bs c = Inr (True, c1)" "inout_buf p1 = []" "err_buf p1 = []"
      by (auto simp: handle_event_def handle_output_v2_def take_buf_def add_buf_def exec Let_def split: if_splits)
    then show ?thesis using v2_send_output_sends [of g 1 bs c c1] Data Inout by (simp add: out_payload_def)
  next
    case Err
    with assms Data have "server_v2_send_output g 2 bs c = Inr (True, c1)" "inout_buf p1 = []" "err_buf p1 = []"
      by (auto simp: handle_event_def handle_output_v2_def take_buf_def add_buf_def exec Let_def split: if_splits)
    then show ?thesis using v2_send_output_sends [of g 2 bs c c1] Data Err by (simp add: out_payload_def)
  qed
qed (use assms in \<open>auto simp: handle_event_def server_handle_io_event_def server_handle_input_end_def
       handle_exit_def exec Let_def split: if_splits option.splits\<close>)

lemma run_events_v2:
  "run_events g evs (p, c) = Inr (p1, c1) \<Longrightarrow> backend c = V2 \<Longrightarrow> inout_buf p = [] \<Longrightarrow> err_buf p = [] \<Longrightarrow>
     \<not> saw_error p1 \<Longrightarrow> sends g (map out_payload (data_events evs)) c c1"
proof (induction evs arbitrary: p c)
  case (Cons ev evs)
  have "\<not> saw_error p" using Cons.prems(1,5) run_events_broken [of "(p, c)"] by auto
  with Cons.prems(1) obtain p2 c2 where h: "handle_event g ev (p, c) = Inr (p2, c2)"
    and r: "run_events g evs (p2, c2) = Inr (p1, c1)" by (auto simp: exec)
  have b: "backend c2 = V2" using handle_event_kept [OF h] Cons.prems(2) by (auto simp: kept_def who_def ident_def)
  have ne: "\<not> saw_error p2" using r Cons.prems(5) run_events_broken [of "(p2, c2)"] by auto
  note e = handle_event_v2 [OF h Cons.prems(2,3,4) ne]
  have "sends g (map out_payload (data_events [ev]) @ map out_payload (data_events evs)) c c1"
    unfolding sends_append using e Cons.IH [OF r b] Cons.prems(5) by blast
  then show ?case by (simp split: proc_event.splits)
qed simp

subsection \<open>Properties\<close>


definition demo_server :: "nat server" where
  "demo_server = client.extend demo_client \<lparr>procs = [\<lparr>pair_inout = Some (5, 6), pair_err = Some (7, 8),
     fork_pid = Some 100, start_errno = ENOMEM, dispatch_events = [Data Inout ''hi'', Child_exit (Some 0)],
     drain_events = [], wait_status = 0\<rparr>], spawned = [], opened = [], closed = []\<rparr>"

definition demo_v1 :: "nat server" where
  "demo_v1 = demo_server\<lparr>protocol := 1, backend := V1\<rparr>"

lemma demo_server_simps [simp]:
  "procs demo_server = [\<lparr>pair_inout = Some (5, 6), pair_err = Some (7, 8),
     fork_pid = Some 100, start_errno = ENOMEM, dispatch_events = [Data Inout ''hi'', Child_exit (Some 0)],
     drain_events = [], wait_status = 0\<rparr>]"
  "spawned demo_server = []" "opened demo_server = []" "closed demo_server = []"
  "protocol demo_server = 3" "backend demo_server = V2" "user demo_server = ''eagle@EX''"
  "wr demo_server = []" "sel demo_server = []" "clock demo_server = []" "sent demo_server = []"
  "fatal demo_server = False" "logs demo_server = []"
  by (simp_all add: demo_server_def client.extend_def demo_client_def chan.extend_def demo_chan_def
      sock.extend_def idle_def)

lemma demo_v1_run:
  "\<exists>p1 c1. server_process_run demo_gss (new_process ''test'' [''echo'', ''x''] demo_rule None, demo_v1)
     = Inr (True, p1, c1)"
  by (simp add: server_process_run_def next_script_def demo_v1_def start_def new_process_def Let_def
      handle_event_def handle_output_v1_def handle_exit_def add_buf_def process_result_def
      TOKEN_MAX_OUTPUT_V1_def TOKEN_MAX_DATA_def)




text \<open>
  With protocol two every piece of output is sent as one OUTPUT message on
  its own stream, in the order of the events, and nothing else is sent.
\<close>

theorem server_process_output_v2:
  assumes "run_events g evs (new_process cmd argv r inp, c) = Inr (p1, c1)" "backend c = V2"
    and "saw_error p1 = False"
  shows "sends g (map out_payload (data_events evs)) c c1"
  using run_events_v2 [OF assms(1,2)] assms(3) by (simp add: new_process_def)

theorem server_process_output_v2_witness:
  "\<exists>p1 c1. run_events demo_gss [Data Inout ''hi'', Eof Inout]
      (new_process ''test'' [''echo''] demo_rule None, demo_server\<lparr>wr := [Wr_Room 100]\<rparr>) = Inr (p1, c1)
    \<and> sends demo_gss [v2_output_payload 1 ''hi''] (demo_server\<lparr>wr := [Wr_Room 100]\<rparr>) c1"
proof -
  let ?c = "demo_server\<lparr>wr := [Wr_Room 100]\<rparr>"
  let ?m = "v2_output_payload 1 ''hi''"
  let ?c1 = "?c\<lparr>context_id := Suc (context_id ?c), wr := [],
               sent := sent ?c @ token_frame (TOKEN_DATA OR TOKEN_PROTOCOL) (CHR ''#'' # ?m)\<rparr>"
  have "token_send_priv demo_gss (TOKEN_DATA OR TOKEN_PROTOCOL) ?m TIMEOUT ?c = (TOKEN_OK, ?c1)"
    using demo_send_priv [of ?c 100 "[]" ?m "TOKEN_DATA OR TOKEN_PROTOCOL" TIMEOUT]
    by (simp add: v2_output_payload_def TOKEN_MAX_DATA_def TIMEOUT_def)
  then have "server_v2_send_output demo_gss 1 ''hi'' ?c = Inr (True, ?c1)"
    by (simp add: server_v2_send_output_def UINT32_MAX_def)
  then have "\<exists>p1. run_events demo_gss [Data Inout ''hi'', Eof Inout]
      (new_process ''test'' [''echo''] demo_rule None, ?c) = Inr (p1, ?c1) \<and> saw_error p1 = False"
    by (simp add: handle_event_def handle_output_v2_def take_buf_def add_buf_def new_process_def
        server_handle_io_event_def)
  then obtain p1 where r: "run_events demo_gss [Data Inout ''hi'', Eof Inout]
      (new_process ''test'' [''echo''] demo_rule None, ?c) = Inr (p1, ?c1)" "saw_error p1 = False" by blast
  from server_process_output_v2 [OF r(1) _ r(2)] r(1) show ?thesis
    by (auto simp: out_payload_def)
qed

text \<open>
  When the socket pair cannot be created, the descriptors of the process struct
  are still 0, and \<open>server_process_run\<close> closes descriptor 0, which it never
  opened; started from \<open>inetd\<close>, that is the connection to the client.
\<close>

lemma failed_start_closes_zero:
  assumes "procs c = []" "server_process_run g (new_process cmd argv r inp, c) = Inr (ok, p1, c1)"
  shows "ok = False \<and> opened c1 = opened c \<and> 0 \<in> set (closed c1)"
proof -
  from assms obtain p2 c2 where s: "start_failed g ''cannot create stdin and stdout socket pair'' ENOMEM []
      (new_process cmd argv r inp, c) = Inr (p2, c2)"
    and d: "ebind (drain_loop g [] (p2\<lparr>saw_output := True\<rparr>, c2)) (\<lambda>ps3. Inr (process_result no_process ps3))
              = Inr (ok, p1, c1)"
    by (auto simp: server_process_run_def next_script_def no_process_def start_def exec)
  have "saw_error p2" using start_failed_result [OF s] by simp
  with d have r: "process_result no_process (p2\<lparr>saw_output := True\<rparr>, c2) = (ok, p1, c1)" by simp
  from start_failed_result [OF s] process_result_facts [OF r] show ?thesis
    by (auto simp: new_process_def)
qed

end
