(* ===== verification/Commands.thy ===== *)
theory Commands
  imports Process
begin

text \<open>
  Running a command: \<^verbatim>\<open>src/server/commands.c\<close>. Matching a command against the
  rules, building the argument list, the summary of all commands, and
  \<open>server_run_command\<close> itself, with every check in the order of the code.

  The main theorem is about what a request can start: at most one program, the
  one of the first matching rule, for a client that the rule's ACLs permit, with
  arguments free of nul octets.
\<close>

subsection \<open>Matching\<close>

definition line_matches :: "rule \<Rightarrow> string option \<Rightarrow> string option \<Rightarrow> bool" where
  "line_matches r cmd sub =
     (let okay = (command r = ''ALL'' \<or> (case cmd of Some x \<Rightarrow> command r = x | None \<Rightarrow> False)
                  \<or> (cmd = None \<and> command r = ''EMPTY''))
      in if okay
         then subcommand r = ''ALL'' \<or> (case sub of Some x \<Rightarrow> subcommand r = x | None \<Rightarrow> False)
              \<or> (sub = None \<and> subcommand r = ''EMPTY'')
         else False)"

primrec find_config_line :: "rule list \<Rightarrow> string option \<Rightarrow> string option \<Rightarrow> rule option" where
  "find_config_line [] cmd sub = None"
| "find_config_line (r # rs) cmd sub =
     (if line_matches r cmd sub then Some r else find_config_line rs cmd sub)"

subsection \<open>Argument lists\<close>

definition base_name :: "string \<Rightarrow> string" where
  "base_name path = (case strrchr_tail path (CHR ''/'') of None \<Rightarrow> path | Some t \<Rightarrow> t)"

text \<open>
  The array the code allocates, the slots it stores into, and the final NULL:
  storing past the allocation is undefined. \<open>argv_loop\<close> is the loop over the
  arguments from index \<open>i\<close> on; \<open>out\<close> is what has been stored.
\<close>

primrec argv_loop ::
  "nat \<Rightarrow> nat \<Rightarrow> nat \<Rightarrow> bytes list \<Rightarrow> string list \<Rightarrow> bytes option
     \<Rightarrow> fault + string list \<times> bytes option" where
  "argv_loop alloc stdin i [] out inp =
     (if length out < alloc then Inr (out, inp) else Inl Undefined)"
| "argv_loop alloc stdin i (a # as) out inp =
     (if i = stdin then argv_loop alloc stdin (i + 1) as out (Some a)
      else if length out < alloc
      then argv_loop alloc stdin (i + 1) as
             (out @ [if a = [] then [] else x_strndup a (length a)]) inp
      else Inl Undefined)"

definition create_argv_command ::
  "rule \<Rightarrow> bytes list \<Rightarrow> fault + string list \<times> bytes option" where
  "create_argv_command r argv =
     (let count = length argv;
          alloc = (case sudo_user r of None \<Rightarrow> count + 1 | Some _ \<Rightarrow> count + 5);
          prefix = (case sudo_user r of
                      Some u \<Rightarrow> [PATH_SUDO, ''-u'', u, ''--'', program r]
                    | None \<Rightarrow> [base_name (program r)]);
          stdin = (if stdin_arg r = -1 then size_sub count 1 else nat (stdin_arg r mod 2 ^ 64))
      in argv_loop alloc stdin 1 (drop 1 argv) prefix None)"

definition create_argv_help :: "string \<Rightarrow> string \<Rightarrow> string option \<Rightarrow> string list" where
  "create_argv_help path cmd sub =
     (case sub of
        None \<Rightarrow> [base_name path, cmd]
      | Some s \<Rightarrow> [base_name path, cmd, s])"

subsection \<open>The summary\<close>

text \<open>\<open>WIFEXITED\<close> and \<open>WEXITSTATUS\<close> of a wait status.\<close>

definition wifexited :: "int \<Rightarrow> bool" where "wifexited st \<longleftrightarrow> st mod 128 = 0"
definition wexitstatus :: "int \<Rightarrow> int" where "wexitstatus st = st div 256 mod 256"

record summary_state =
  ok_any :: bool
  status_all :: int
  last_status :: int
  sum_output :: bytes

definition summary_argv :: "rule \<Rightarrow> string \<Rightarrow> string list" where
  "summary_argv r s =
     [base_name (program r), s]
     @ (if subcommand r = ''ALL'' \<or> subcommand r = ''EMPTY'' then [] else [subcommand r])"

text \<open>After a rule's process: its output (protocol one) and its status are collected.\<close>

definition summary_add :: "bool \<Rightarrow> process \<Rightarrow> nat \<Rightarrow> summary_state \<Rightarrow> summary_state" where
  "summary_add ok p proto st =
     (let st1 = st\<lparr>ok_any := True, last_status := proc_status p\<rparr>
      in if ok then
           let st2 = (if proto = 1
                      then st1\<lparr>sum_output := sum_output st1
                                 @ (case proc_output p of Some b \<Rightarrow> b | None \<Rightarrow> [])\<rparr>
                      else st1)
           in if proc_status p \<noteq> 0 then st2\<lparr>status_all := proc_status p\<rparr> else st2
         else st1)"

text \<open>
  The loop over the rules. Each round clears the process, so the status seen
  after the loop is that of the last rule, whether it ran or not.
\<close>

primrec summary_loop ::
  "'c gss \<Rightarrow> nat \<Rightarrow> acl_env \<Rightarrow> rule list \<Rightarrow> summary_state \<Rightarrow> ('c, 'z) server_scheme
     \<Rightarrow> fault + summary_state \<times> ('c, 'z) server_scheme" where
  "summary_loop g depth env [] st c = Inr (st, c)"
| "summary_loop g depth env (r # rs) st0 c =
     (let st = st0\<lparr>last_status := 0\<rparr> in
      ebind (server_config_acl_permit depth env r c) (\<lambda>permit.
        if \<not> permit then summary_loop g depth env rs st c
        else case summary r of
          None \<Rightarrow> summary_loop g depth env rs st c
        | Some s \<Rightarrow>
            ebind (server_process_run g (new_process s (summary_argv r s) r None, c)) (\<lambda>(ok, p, c1).
              summary_loop g depth env rs (summary_add ok p (protocol c1) st) c1)))"

definition server_send_summary ::
  "'c gss \<Rightarrow> nat \<Rightarrow> acl_env \<Rightarrow> rule list \<Rightarrow> ('c, 'z) server_scheme
     \<Rightarrow> fault + ('c, 'z) server_scheme" where
  "server_send_summary g depth env rs c =
     ebind (summary_loop g depth env rs
              \<lparr>ok_any = False, status_all = 0, last_status = 0, sum_output = []\<rparr> c) (\<lambda>(st, c1).
       let status = (if wifexited (status_all st) then wexitstatus (last_status st) else -1)
       in if ok_any st
          then ebind (client_finish g (sum_output st) status c1) (\<lambda>(_, c2). Inr c2)
          else
            let c2 = notice (''summary request from user '' @ user c1 @ '', but no defined summaries'') c1
            in ebind (client_error g ERROR_UNKNOWN_COMMAND ''Unknown command'' c2) (\<lambda>(_, c3). Inr c3))"

subsection \<open>Running a command\<close>

text \<open>Log a notice, send the error, leave with status -1.\<close>

definition reject ::
  "'c gss \<Rightarrow> string \<Rightarrow> error_codes \<Rightarrow> string \<Rightarrow> ('c, 'z) server_scheme
     \<Rightarrow> fault + int \<times> ('c, 'z) server_scheme" where
  "reject g message code text c =
     ebind (client_error g code text (notice message c)) (\<lambda>(_, c1). Inr (-1, c1))"

text \<open>The first of the two nul checks covers the command and the subcommand.\<close>

definition nul_in_command :: "bytes list \<Rightarrow> nat option" where
  "nul_in_command argv =
     (case argv of
        [] \<Rightarrow> None
      | a # as \<Rightarrow>
          if NUL \<in> set a then Some 0
          else (case as of [] \<Rightarrow> None | b # _ \<Rightarrow> if NUL \<in> set b then Some 1 else None))"

text \<open>The second covers every argument but the one that goes to standard input.\<close>

primrec nul_in_args :: "rule option \<Rightarrow> bool \<Rightarrow> nat \<Rightarrow> bytes list \<Rightarrow> nat option" where
  "nul_in_args ru help i [] = None"
| "nul_in_args ru help i (a # as) =
     (let exempt = (case ru of
                      None \<Rightarrow> False
                    | Some r \<Rightarrow> (\<not> help \<and> int i = stdin_arg r) \<or> (as = [] \<and> stdin_arg r = -1))
      in if exempt then nul_in_args ru help (i + 1) as
         else if NUL \<in> set a then Some i
         else nul_in_args ru help (i + 1) as)"

text \<open>\<open>command[ subcommand]\<close> in the log messages.\<close>

definition command_words :: "string \<Rightarrow> string option \<Rightarrow> string" where
  "command_words cmd sub = cmd @ (case sub of None \<Rightarrow> [] | Some s \<Rightarrow> '' '' @ s)"

text \<open>Execute the program, and report its exit status when it ran to its end.\<close>

definition run_program ::
  "'c gss \<Rightarrow> string \<Rightarrow> rule \<Rightarrow> string list \<Rightarrow> bytes option \<Rightarrow> ('c, 'z) server_scheme
     \<Rightarrow> fault + int \<times> ('c, 'z) server_scheme" where
  "run_program g cmd r req_argv inp c =
     ebind (server_process_run g (new_process cmd req_argv r inp, c)) (\<lambda>(ok, p, c1).
       if ok then
         let st = (if wifexited (proc_status p) then wexitstatus (proc_status p) else -1)
         in ebind (client_finish g (case proc_output p of Some b \<Rightarrow> b | None \<Rightarrow> []) st c1)
              (\<lambda>(_, c2). Inr (st, c2))
       else Inr (proc_status p, c1))"

text \<open>From the rule on: nul check, log, ACL, argument list, execution.\<close>

definition run_rule ::
  "'c gss \<Rightarrow> nat \<Rightarrow> acl_env \<Rightarrow> bytes list \<Rightarrow> string \<Rightarrow> string option \<Rightarrow> bool \<Rightarrow> string option
     \<Rightarrow> rule option \<Rightarrow> ('c, 'z) server_scheme \<Rightarrow> fault + int \<times> ('c, 'z) server_scheme" where
  "run_rule g depth env argv cmd sub help helpsub ru c =
     (case nul_in_args ru help 1 (drop 1 argv) of
        Some i \<Rightarrow>
          reject g (''argument '' @ show_nat i @ '' from user '' @ user c @ '' contains nul octet'')
            ERROR_BAD_COMMAND ''Invalid command token'' c
      | None \<Rightarrow>
          let c = server_log_command argv ru (user c) c
          in case ru of
               None \<Rightarrow>
                 reject g (''unknown command '' @ command_words cmd sub @ '' from user '' @ user c)
                   ERROR_UNKNOWN_COMMAND ''Unknown command'' c
             | Some r \<Rightarrow>
                 ebind (server_config_acl_permit depth env r c) (\<lambda>permit.
                   if \<not> permit then
                     reject g (''access denied: user '' @ user c @ '', command '' @ command_words cmd sub)
                       ERROR_ACCESS ''Access denied'' c
                   else if help \<and> rule_help r = None then
                     reject g (''command '' @ cmd @ '' from user '' @ user c @ '' has no defined help'')
                       ERROR_NO_HELP ''No help defined for command'' c
                   else
                     ebind (if help
                            then Inr (create_argv_help (program r) (the (rule_help r)) helpsub, None)
                            else create_argv_command r argv)
                       (\<lambda>(req_argv, inp). run_program g cmd r req_argv inp c)))"

text \<open>
  The help branch, taken for \<open>help\<close> when no rule defines it. With more than three
  arguments an error is sent and the branch goes on all the same.
\<close>

definition run_help ::
  "'c gss \<Rightarrow> nat \<Rightarrow> acl_env \<Rightarrow> rule list \<Rightarrow> bytes list \<Rightarrow> string \<Rightarrow> string option
     \<Rightarrow> ('c, 'z) server_scheme \<Rightarrow> fault + int \<times> ('c, 'z) server_scheme" where
  "run_help g depth env rs argv cmd sub c =
     ebind (if length argv > 3
            then ebind (client_error g ERROR_TOOMANY_ARGS ''Too many arguments for help command''
                          (notice (''help command from user '' @ user c
                                   @ '' has more than three arguments'') c))
                   (\<lambda>(_, c1). Inr c1)
            else Inr c) (\<lambda>c1.
       case sub of
         None \<Rightarrow> ebind (server_send_summary g depth env rs c1) (\<lambda>c2. Inr (-1, c2))
       | Some s \<Rightarrow>
           let helpsub = (if length argv > 2
                          then Some (x_strndup (argv ! 2) (length (argv ! 2))) else None)
           in run_rule g depth env argv cmd sub True helpsub (find_config_line rs (Some s) helpsub) c1)"

definition server_run_command ::
  "'c gss \<Rightarrow> nat \<Rightarrow> acl_env \<Rightarrow> rule list \<Rightarrow> bytes list \<Rightarrow> ('c, 'z) server_scheme
     \<Rightarrow> fault + int \<times> ('c, 'z) server_scheme" where
  "server_run_command g depth env rs argv c =
     (if argv = [] then
        reject g (''empty command from user '' @ user c) ERROR_BAD_COMMAND ''Invalid command token'' c
      else case nul_in_command argv of
        Some i \<Rightarrow>
          reject g ((if i = 0 then ''command'' else ''subcommand'') @ '' from user '' @ user c
                    @ '' contains nul octet'')
            ERROR_BAD_COMMAND ''Invalid command token'' c
      | None \<Rightarrow>
          let cmd = x_strndup (argv ! 0) (length (argv ! 0));
              sub = (if length argv > 1 then Some (x_strndup (argv ! 1) (length (argv ! 1))) else None);
              ru = find_config_line rs (Some cmd) sub
          in if ru = None \<and> cmd = ''help'' then run_help g depth env rs argv cmd sub c
             else run_rule g depth env argv cmd sub False None ru c)"

subsection \<open>Argument lists\<close>

text \<open>The arguments behind the command, without the one at index \<open>stdin\<close>.\<close>

primrec without :: "nat \<Rightarrow> nat \<Rightarrow> 'a list \<Rightarrow> 'a list" where
  "without n i [] = []"
| "without n i (a # as) = (if i = n then without n (Suc i) as else a # without n (Suc i) as)"

definition stdin_index :: "rule \<Rightarrow> bytes list \<Rightarrow> nat" where
  "stdin_index r argv =
     (if stdin_arg r = -1 then size_sub (length argv) 1 else nat (stdin_arg r mod 2 ^ 64))"

definition command_prefix :: "rule \<Rightarrow> string list" where
  "command_prefix r =
     (case sudo_user r of
        Some u \<Rightarrow> [PATH_SUDO, ''-u'', u, ''--'', program r]
      | None \<Rightarrow> [base_name (program r)])"

definition stdin_data :: "rule \<Rightarrow> bytes list \<Rightarrow> bytes option" where
  "stdin_data r argv =
     (if 1 \<le> stdin_index r argv \<and> stdin_index r argv < length argv
      then Some (argv ! stdin_index r argv) else None)"

lemma length_without: "length (without n i as) \<le> length as"
  by (induction as arbitrary: i) (auto intro: le_SucI)

lemma argv_loop_ok:
  assumes "length out + length as < alloc"
  shows "argv_loop alloc n i as out inp =
    Inr (out @ map (\<lambda>a. x_strndup a (length a)) (without n i as),
         if i \<le> n \<and> n < i + length as then Some (as ! (n - i)) else inp)"
  using assms
proof (induction as arbitrary: i out inp)
  case (Cons a as)
  show ?case
  proof (cases "i = n")
    case True
    then show ?thesis using Cons.IH [of out "Suc i" "Some a"] Cons.prems by simp
  next
    case False
    have "Suc i \<le> n \<and> n < Suc i + length as \<longleftrightarrow> i \<le> n \<and> n < i + length (a # as)"
      "i \<le> n \<Longrightarrow> (a # as) ! (n - i) = as ! (n - Suc i)"
      using False by (auto simp: nth_Cons' diff_Suc split: nat.splits)
    moreover have "(if a = [] then [] else x_strndup a (length a)) = x_strndup a (length a)"
      by (simp add: x_strndup_def)
    ultimately show ?thesis
      using Cons.IH [of "out @ [x_strndup a (length a)]" "Suc i" inp] Cons.prems False by simp
  qed
qed auto

lemma create_argv_command_result:
  assumes "argv \<noteq> []"
  shows "create_argv_command r argv =
    Inr (command_prefix r @ map (\<lambda>a. x_strndup a (length a)) (without (stdin_index r argv) 1 (drop 1 argv)),
         stdin_data r argv)"
proof -
  obtain a as where a: "argv = a # as" using assms by (cases argv) auto
  show ?thesis
    unfolding create_argv_command_def Let_def a
    by (subst argv_loop_ok)
       (auto simp: command_prefix_def stdin_index_def stdin_data_def nth_Cons' split: option.splits)
qed

text \<open>An argument that passed the check for nul octets is passed on unchanged.\<close>

lemma nul_in_args_None:
  assumes "nul_in_args (Some r) False i as = None"
    and "stdin_arg r \<noteq> -1 \<Longrightarrow> n = nat (stdin_arg r mod 2 ^ 64)"
    and "stdin_arg r = -1 \<Longrightarrow> n = i + length as - 1"
    and "i + length as < 2 ^ 63" "- 1 \<le> stdin_arg r" "stdin_arg r \<le> LONG_MAX"
  shows "\<forall>a \<in> set (without n i as). nul_free a"
  using assms
proof (induction as arbitrary: i)
  case (Cons a as)
  let ?ex = "int i = stdin_arg r \<or> as = [] \<and> stdin_arg r = -1"
  have rest: "nul_in_args (Some r) False (Suc i) as = None"
    using Cons.prems(1) by (auto simp: Let_def split: if_splits)
  have tl: "as \<noteq> [] \<Longrightarrow> \<forall>a \<in> set (without n (Suc i) as). nul_free a"
    using Cons.IH [OF rest] Cons.prems(2-) by (cases as) auto
  have i: "i = n" if ?ex
    using that Cons.prems(2-6) by (auto simp: LONG_MAX_def)
  have "nul_free a" if "\<not> ?ex"
    using Cons.prems(1) that by (auto simp: Let_def nul_free_def split: if_splits)
  with i tl show ?case by (cases as) auto
qed simp


subsection \<open>What a request may start\<close>

text \<open>
  \<open>authorised\<close> relates a client to one of the programs the configuration lets it
  run: the rule is one of the configuration and its ACLs permit the client. A
  step is \<open>guarded\<close> when all it starts is authorised.
\<close>

definition authorised ::
  "nat \<Rightarrow> acl_env \<Rightarrow> rule list \<Rightarrow> ('c, 'z) client_scheme \<Rightarrow> spawn \<Rightarrow> bool" where
  "authorised depth env rs c sp \<longleftrightarrow>
     (\<exists>r \<in> set rs. server_config_acl_permit depth env r c = Inr True
        \<and> exec_path sp = (case sudo_user r of None \<Rightarrow> program r | Some _ \<Rightarrow> PATH_SUDO)
        \<and> (''REMOTE_USER'', user c) \<in> set (exec_env sp)
        \<and> exec_ids sp = (case rule_user r of
                           Some u \<Rightarrow> if uid r > 0 then Some (u, uid r, gid r) else None
                         | None \<Rightarrow> None))"

definition guarded ::
  "nat \<Rightarrow> acl_env \<Rightarrow> rule list \<Rightarrow> ('c, 'z) server_scheme \<Rightarrow> ('c, 'z) server_scheme \<Rightarrow> bool" where
  "guarded depth env rs c c1 \<longleftrightarrow>
     who c1 = who c \<and> (\<exists>new. spawned c1 = spawned c @ new \<and> (\<forall>sp \<in> set new. authorised depth env rs c sp))"

lemma guarded_refl [simp]: "guarded depth env rs c c"
  by (simp add: guarded_def)

lemma authorised_ident:
  assumes "ident c1 = ident c"
  shows "authorised depth env rs c1 sp = authorised depth env rs c sp"
  using ident_eqD [OF assms] unfolding authorised_def acl_permit_ident [OF assms] by simp

lemmas authorised_client = authorised_ident [OF who_ident]

lemma guarded_trans [trans]:
  assumes "guarded depth env rs c c1" "guarded depth env rs c1 c2"
  shows "guarded depth env rs c c2"
proof -
  from assms obtain new1 new2 where w: "who c1 = who c" "who c2 = who c1"
    and n: "spawned c1 = spawned c @ new1" "\<forall>sp \<in> set new1. authorised depth env rs c sp"
      "spawned c2 = spawned c1 @ new2" "\<forall>sp \<in> set new2. authorised depth env rs c1 sp"
    unfolding guarded_def by blast
  have "\<forall>sp \<in> set (new1 @ new2). authorised depth env rs c sp"
    using n authorised_client [OF w(1), of depth env rs] by auto
  then show ?thesis
    unfolding guarded_def using w n(1,3) by (intro conjI exI [of _ "new1 @ new2"]) simp_all
qed

lemma guarded_subset: "guarded depth env rs c c1 \<Longrightarrow> set rs \<subseteq> set rs' \<Longrightarrow> guarded depth env rs' c c1"
  unfolding guarded_def authorised_def by blast

lemma extends_guarded: "extends c c1 \<Longrightarrow> guarded depth env rs c c1"
  by (auto simp: guarded_def extends_def client_same_def srv_core_def dest!: srv_core_more)

lemma process_run_guarded:
  assumes "server_process_run g (new_process cmd argv r inp, c) = Inr (ok, p1, c1)"
    and "server_config_acl_permit depth env r c = Inr True" "r \<in> set rs"
  shows "guarded depth env rs c c1"
proof -
  have "authorised depth env rs c (child_spawn (new_process cmd argv r inp) c)"
    using assms(2,3) unfolding authorised_def
    by (intro bexI [of _ r]) (auto simp: child_spawn_def new_process_def child_env_def split: option.splits)
  then show ?thesis
    using process_run_result [OF assms(1)] by (auto simp: guarded_def new_process_def)
qed

lemma reject_guarded: "reject g m code t c = Inr (st, c1) \<Longrightarrow> guarded depth env rs c c1"
  by (auto simp: reject_def exec intro!: extends_guarded dest: err.reply_log)

lemma find_config_line_mem: "find_config_line rs cmd sub = Some r \<Longrightarrow> r \<in> set rs \<and> line_matches r cmd sub"
  by (induction rs) (auto split: if_splits)

lemma summary_loop_guarded:
  "summary_loop g depth env rs st c = Inr (st1, c1) \<Longrightarrow> guarded depth env rs c c1"
proof (induction rs arbitrary: st c)
  case (Cons r rs)
  from Cons.prems obtain permit where pm: "server_config_acl_permit depth env r c = Inr permit"
    by (auto simp: exec Let_def)
  show ?case
  proof (cases "permit \<and> summary r \<noteq> None")
    case False
    then have "summary_loop g depth env rs (st\<lparr>last_status := 0\<rparr>) c = Inr (st1, c1)"
      using Cons.prems pm by (cases permit) (simp_all add: Let_def)
    from Cons.IH [OF this] show ?thesis by (rule guarded_subset) auto
  next
    case True
    then obtain s ok p c2 st2 where
      r: "server_process_run g (new_process s (summary_argv r s) r None, c) = Inr (ok, p, c2)"
      and l: "summary_loop g depth env rs st2 c2 = Inr (st1, c1)"
      using Cons.prems pm by (auto simp: exec Let_def)
    have "guarded depth env (r # rs) c c2" using process_run_guarded [OF r] pm True by simp
    moreover have "guarded depth env (r # rs) c2 c1" using Cons.IH [OF l] by (rule guarded_subset) auto
    ultimately show ?thesis by (rule guarded_trans)
  qed
qed simp

lemma server_send_summary_guarded:
  assumes "server_send_summary g depth env rs c = Inr c1"
  shows "guarded depth env rs c c1"
proof -
  from assms obtain st c2 where l: "summary_loop g depth env rs
      \<lparr>ok_any = False, status_all = 0, last_status = 0, sum_output = []\<rparr> c = Inr (st, c2)"
    by (auto simp: server_send_summary_def exec)
  with assms have "extends c2 c1"
    by (auto simp: server_send_summary_def exec Let_def split: if_splits
        dest: fin.reply_extends err.reply_log)
  with summary_loop_guarded [OF l] extends_guarded show ?thesis using guarded_trans by blast
qed

lemma log_command_extends: "extends c (server_log_command argv ru u c)"
  by (simp add: server_log_command_def)

lemma run_program_result:
  assumes "run_program g cmd r args inp c = Inr (st, c1)"
  obtains ok p c2 where "server_process_run g (new_process cmd args r inp, c) = Inr (ok, p, c2)"
    "extends c2 c1"
    "ok \<longrightarrow> st = (if wifexited (proc_status p) then wexitstatus (proc_status p) else -1)"
  using assms
  by (auto simp: run_program_def exec Let_def split: if_splits dest: fin.reply_extends)

text \<open>\<open>run_rule\<close> in stages: it is refused, or the program of the rule is run.\<close>

lemma run_rule_cases:
  assumes "run_rule g depth env argv cmd sub hlp helpsub ru c = Inr (st, c1)"
  obtains (refused) m code t c0 where "extends c c0" "reject g m code t c0 = Inr (st, c1)"
  | (ran) r args inp c0 where "ru = Some r" "nul_in_args (Some r) hlp 1 (drop 1 argv) = None"
      "extends c c0" "server_config_acl_permit depth env r c0 = Inr True"
      "(if hlp then Inr (create_argv_help (program r) (the (rule_help r)) helpsub, None)
        else create_argv_command r argv) = Inr (args, inp)"
      "run_program g cmd r args inp c0 = Inr (st, c1)"
proof (cases "nul_in_args ru hlp 1 (drop 1 argv)")
  case (Some i)
  then show thesis using assms refused [of c] by (auto simp: run_rule_def)
next
  case None
  let ?c = "server_log_command argv ru (user c) c"
  have e: "extends c ?c" by (rule log_command_extends)
  show thesis
  proof (cases ru)
    case None
    then show thesis using assms \<open>nul_in_args _ _ _ _ = None\<close> refused [OF e]
      by (simp add: run_rule_def Let_def)
  next
    case (Some r)
    from assms None Some obtain permit where pm: "server_config_acl_permit depth env r ?c = Inr permit"
      by (auto simp: run_rule_def Let_def exec)
    show thesis
    proof (cases "\<not> permit \<or> hlp \<and> rule_help r = None")
      case True
      then show thesis using assms None Some pm refused [OF e]
        by (auto simp: run_rule_def Let_def split: if_splits)
    next
      case False
      then have "permit" "(hlp \<and> rule_help r = None) = False" by auto
      with assms None Some pm have "ebind (if hlp then Inr (create_argv_help (program r) (the (rule_help r)) helpsub, None)
          else create_argv_command r argv) (\<lambda>(args, inp). run_program g cmd r args inp ?c) = Inr (st, c1)"
        unfolding run_rule_def Let_def by (simp only: option.case ebind_simps not_True_eq_False if_False simp_thms)
      then obtain args inp where "(if hlp then Inr (create_argv_help (program r) (the (rule_help r)) helpsub, None)
          else create_argv_command r argv) = Inr (args, inp)" "run_program g cmd r args inp ?c = Inr (st, c1)"
        unfolding ebind_Inr_iff by auto
      then show thesis using ran [OF Some _ e] None Some pm \<open>permit\<close> by auto
    qed
  qed
qed

lemma run_rule_guarded:
  assumes "run_rule g depth env argv cmd sub hlp helpsub ru c = Inr (st, c1)"
    and "\<forall>r. ru = Some r \<longrightarrow> r \<in> set rs"
  shows "guarded depth env rs c c1"
  using assms(1)
proof (cases rule: run_rule_cases)
  case (refused m code t c0)
  from extends_guarded [OF refused(1)] reject_guarded [OF refused(2)] show ?thesis
    by (rule guarded_trans)
next
  case (ran r args inp c0)
  from run_program_result [OF ran(6)] obtain ok p c2 where
    r: "server_process_run g (new_process cmd args r inp, c0) = Inr (ok, p, c2)" "extends c2 c1" by blast
  have "guarded depth env rs c0 c2" using process_run_guarded [OF r(1) ran(4)] ran(1) assms(2) by blast
  from guarded_trans [OF extends_guarded [OF ran(3)] this] extends_guarded [OF r(2)] show ?thesis
    by (rule guarded_trans)
qed

lemma run_help_guarded:
  assumes "run_help g depth env rs argv cmd sub c = Inr (st, c1)"
  shows "guarded depth env rs c c1"
proof -
  let ?first = "if length argv > 3
    then ebind (client_error g ERROR_TOOMANY_ARGS ''Too many arguments for help command''
                  (notice (''help command from user '' @ user c @ '' has more than three arguments'') c))
           (\<lambda>(_, c1). Inr c1)
    else Inr c"
  from assms obtain c2 where first: "?first = Inr c2" and rest: "(case sub of
         None \<Rightarrow> ebind (server_send_summary g depth env rs c2) (\<lambda>c2. Inr (-1, c2))
       | Some s \<Rightarrow>
           let helpsub = (if length argv > 2
                          then Some (x_strndup (argv ! 2) (length (argv ! 2))) else None)
           in run_rule g depth env argv cmd sub True helpsub (find_config_line rs (Some s) helpsub) c2) = Inr (st, c1)"
    unfolding run_help_def ebind_Inr_iff [of ?first] by blast
  from first have e: "extends c c2"
    by (auto simp: exec split: if_splits dest!: err.reply_log)
  have "guarded depth env rs c2 c1"
  proof (cases sub)
    case None
    then show ?thesis using rest by (auto simp: exec dest: server_send_summary_guarded)
  next
    case (Some s)
    show ?thesis
      using rest unfolding Some option.case Let_def
      by (rule run_rule_guarded) (blast dest: find_config_line_mem)
  qed
  with extends_guarded [OF e] show ?thesis by (rule guarded_trans)
qed

text \<open>The stages of \<open>server_run_command\<close>.\<close>

lemma server_run_command_cases:
  assumes "server_run_command g depth env rs argv c = Inr (st, c1)"
  obtains (bad) m t where "argv = [] \<or> nul_in_command argv \<noteq> None"
      "reject g m ERROR_BAD_COMMAND t c = Inr (st, c1)"
  | (helping) cmd sub where "run_help g depth env rs argv cmd sub c = Inr (st, c1)"
  | (plain) cmd sub ru where "argv \<noteq> []" "nul_in_command argv = None"
      "cmd = x_strndup (argv ! 0) (length (argv ! 0))"
      "sub = (if length argv > 1 then Some (x_strndup (argv ! 1) (length (argv ! 1))) else None)"
      "ru = find_config_line rs (Some cmd) sub"
      "run_rule g depth env argv cmd sub False None ru c = Inr (st, c1)"
  using assms bad helping plain [OF _ _ refl refl refl]
  by (simp only: server_run_command_def Let_def split: if_split_asm option.split_asm) auto

lemma run_command_guarded:
  assumes "server_run_command g depth env rs argv c = Inr (st, c1)"
  shows "guarded depth env rs c c1"
  using assms
proof (cases rule: server_run_command_cases)
  case bad
  then show ?thesis by (blast intro: reject_guarded)
next
  case helping
  then show ?thesis by (rule run_help_guarded)
next
  case (plain cmd sub ru)
  then show ?thesis by (blast intro: run_rule_guarded dest: find_config_line_mem)
qed


text \<open>What a plain command of a matching rule starts, exactly.\<close>

lemma extends_spawned: "extends c c1 \<Longrightarrow> spawned c1 = spawned c"
  by (auto simp: extends_def client_same_def srv_core_def dest!: srv_core_more)

lemma reject_spawned: "reject g m code t c = Inr (st, c1) \<Longrightarrow> spawned c1 = spawned c"
  by (auto simp: reject_def exec intro!: extends_spawned dest: err.reply_log)

lemma nul_in_command_None:
  assumes "nul_in_command argv = None" "argv \<noteq> []"
  shows "x_strndup (argv ! 0) (length (argv ! 0)) = argv ! 0"
    and "length argv > 1 \<Longrightarrow> x_strndup (argv ! 1) (length (argv ! 1)) = argv ! 1"
  using assms
  by (auto simp: nul_in_command_def nul_free_def x_strndup_nul_free split: list.splits if_splits)

lemma clean_arguments:
  assumes "nul_in_args (Some r) False 1 (drop 1 argv) = None" "rule_ok r"
    "argv \<noteq> []" "length argv < 2 ^ 63"
  shows "create_argv_command r argv =
    Inr (command_prefix r @ without (stdin_index r argv) 1 (drop 1 argv), stdin_data r argv)"
proof -
  have "\<forall>a \<in> set (without (stdin_index r argv) 1 (drop 1 argv)). nul_free a"
    using assms by (intro nul_in_args_None [of r])
      (auto simp: stdin_index_def rule_ok_def Suc_le_eq)
  then have "map (\<lambda>a. x_strndup a (length a)) (without (stdin_index r argv) 1 (drop 1 argv))
      = without (stdin_index r argv) 1 (drop 1 argv)"
    by (intro map_idI) (simp add: x_strndup_nul_free)
  then show ?thesis by (simp add: create_argv_command_result [OF assms(3)])
qed

lemma run_rule_exact:
  assumes "run_rule g depth env argv cmd sub False None (Some r) c = Inr (st, c1)"
    and "rule_ok r" "argv \<noteq> []" "length argv < 2 ^ 63"
  shows "spawned c1 = spawned c
    \<or> server_config_acl_permit depth env r c = Inr True
      \<and> (\<exists>sp. spawned c1 = spawned c @ [sp]
            \<and> exec_args sp = command_prefix r @ without (stdin_index r argv) 1 (drop 1 argv)
            \<and> exec_stdin sp = stdin_data r argv)"
  using assms(1)
proof (cases rule: run_rule_cases)
  case (refused m code t c0)
  then show ?thesis by (simp add: extends_spawned reject_spawned)
next
  case (ran r' args inp c0)
  then have r': "r' = r" by simp
  from run_program_result [OF ran(6)] obtain ok p c2 where
    run: "server_process_run g (new_process cmd args r inp, c0) = Inr (ok, p, c2)" "extends c2 c1"
    unfolding r' by blast
  have args: "args = command_prefix r @ without (stdin_index r argv) 1 (drop 1 argv)"
    "inp = stdin_data r argv"
    using clean_arguments [OF _ assms(2-4)] ran(2,5) r' by auto
  have "who c0 = who c" using extends_guarded [OF ran(3)] by (auto simp: guarded_def)
  then have "server_config_acl_permit depth env r c = Inr True"
    using ran(4) acl_permit_client [of c0 c depth env r] r' by simp
  then show ?thesis
    using process_run_result [OF run(1)] args extends_spawned [OF ran(3)] extends_spawned [OF run(2)]
    by (auto simp: new_process_def child_spawn_def)
qed

subsection \<open>Properties\<close>



definition demo_anyuser :: rule where
  "demo_anyuser = demo_rule\<lparr>acls := [''ANYUSER''], stdin_arg := 2,
     line := [''test'', ''ALL'', ''/bin/echo'', ''ANYUSER'']\<rparr>"

lemma demo_anyuser_simps [simp]:
  "rule_ok demo_anyuser" "line_matches demo_anyuser (Some ''test'') sub"
  "stdin_arg demo_anyuser = 2" "program demo_anyuser = ''/bin/echo''" "sudo_user demo_anyuser = None"
  "rule_user demo_anyuser = None"
  by (simp_all add: rule_ok_def demo_anyuser_def demo_rule_def LONG_MAX_def line_matches_def)

lemma demo_anyuser_permit:
  "\<not> anonymous c \<Longrightarrow> server_config_acl_permit (Suc n) demo_env demo_anyuser c = Inr True"
  by (simp add: server_config_acl_permit_def demo_anyuser_def acl_check.simps
      acl_split_def strchr_def x_strndup_def schemes_lookup acl_check_anyuser_def)

lemma demo_v1_simps [simp]:
  "procs demo_v1 = procs demo_server" "spawned demo_v1 = []" "opened demo_v1 = []" "closed demo_v1 = []"
  "protocol demo_v1 = 1" "backend demo_v1 = V1" "anonymous demo_v1 = False" "user demo_v1 = ''eagle@EX''"
  by (simp_all add: demo_v1_def demo_server_def client.extend_def demo_client_def chan.extend_def demo_chan_def
      sock.extend_def idle_def)

lemma demo_v1_process:
  "\<exists>p1 c1. server_process_run demo_gss (new_process cmd args r inp, notice m demo_v1) = Inr (True, p1, c1)
     \<and> proc_output p1 = Some ''hi'' \<and> proc_status p1 = 0 \<and> backend c1 = V1"
  by (simp add: server_process_run_def next_script_def start_def new_process_def Let_def log_msg_def
      handle_event_def handle_output_v1_def handle_exit_def add_buf_def process_result_def
      TOKEN_MAX_OUTPUT_V1_def TOKEN_MAX_DATA_def)

lemma client_finish_returns:
  assumes "length output < 2 ^ 31"
  shows "\<exists>ok c1. client_finish g output st c = Inr (ok, c1)"
  using assms
  by (auto simp: client_finish_def send_defs UINT32_MAX_def Let_def split: backend.splits prod.splits)

lemma demo_command_run:
  "\<exists>st c1. server_run_command demo_gss 3 demo_env [demo_anyuser] [''test'', ''a'', ''secret'', ''b''] demo_v1
     = Inr (st, c1)"
proof -
  let ?argv = "[''test'', ''a'', ''secret'', ''b'']"
  let ?c = "server_log_command ?argv (Some demo_anyuser) ''eagle@EX'' demo_v1"
  have "\<exists>st c1. run_program demo_gss ''test'' demo_anyuser args inp ?c = Inr (st, c1)" for args inp
  proof -
    obtain p1 c1 where "server_process_run demo_gss (new_process ''test'' args demo_anyuser inp, ?c) = Inr (True, p1, c1)"
      "proc_output p1 = Some ''hi''" "backend c1 = V1"
      using demo_v1_process unfolding server_log_command_def by blast
    moreover from client_finish_returns [of "''hi''" demo_gss
        "if wifexited (proc_status p1) then wexitstatus (proc_status p1) else -1" c1]
    obtain ok c2 where "client_finish demo_gss ''hi''
        (if wifexited (proc_status p1) then wexitstatus (proc_status p1) else -1) c1 = Inr (ok, c2)"
      by auto
    ultimately show ?thesis by (simp add: run_program_def Let_def)
  qed
  moreover have "server_config_acl_permit 3 demo_env demo_anyuser ?c = Inr True"
    by (simp add: numeral_3_eq_3 demo_anyuser_permit server_log_command_def)
  ultimately show ?thesis
    by (simp add: server_run_command_def Let_def nul_in_command_def x_strndup_def run_rule_def
         create_argv_command_def)
qed



subsection \<open>Two places where the answer is not the intended one\<close>

text \<open>
  A help request with more than three words is answered twice: once with
  the error about its length and once by whatever it would have been answered
  without the check.
\<close>

lemma help_answers_twice:
  assumes "length argv > 3"
    and "client_error g ERROR_TOOMANY_ARGS ''Too many arguments for help command''
           (notice (''help command from user '' @ user c @ '' has more than three arguments'') c) = Inr (ok, c1)"
  shows "run_help g depth env rs argv cmd (Some s) c =
    run_rule g depth env argv cmd (Some s) True (Some (x_strndup (argv ! 2) (length (argv ! 2))))
      (find_config_line rs (Some s) (Some (x_strndup (argv ! 2) (length (argv ! 2))))) c1"
proof -
  have "(2 < length argv) = True" "(3 < length argv) = True" using assms(1) by auto
  then show ?thesis
    by (simp only: run_help_def assms(2) if_True ebind_simps prod.case option.case Let_def)
qed

text \<open>
  The exit status of a summary is 0 when the last rule has no summary,
  whatever the programs before it returned.
\<close>

lemma summary_loop_last:
  assumes "summary r = None" "summary_loop g depth env (rs @ [r]) st c = Inr (st1, c1)"
  shows "last_status st1 = 0"
  using assms(2)
proof (induction rs arbitrary: st c)
  case Nil
  then show ?case using assms(1) by (auto simp: Let_def exec split: if_splits)
next
  case (Cons r' rs)
  then show ?case by (auto simp: Let_def exec split: if_splits option.splits)
qed

end
