(* ===== verification/Messages.thy ===== *)
theory Messages
  imports Commands Server_Parse
begin

text \<open>
  The message loops of the two protocols: \<open>server_v1_handle_messages\<close> of
  \<^verbatim>\<open>src/server/server-v1.c\<close> and \<open>server_v2_handle_messages\<close> of
  \<^verbatim>\<open>src/server/server-v2.c\<close>, with the reassembly of a command that is
  continued over several tokens.

  Octets 0 to 3 of a token are compared as plain, signed chars. Reading them
  from a token that is too short is undefined. The loops end because every
  token read takes at least its header off the stream the client sends.
\<close>

subsection \<open>Protocol one\<close>

definition server_v1_handle_messages ::
  "'c gss \<Rightarrow> nat \<Rightarrow> acl_env \<Rightarrow> rule list \<Rightarrow> ('c, 'z) server_scheme \<Rightarrow> fault + ('c, 'z) server_scheme" where
  "server_v1_handle_messages g depth env rs c =
     (case token_recv_priv g TOKEN_MAX_LENGTH TIMEOUT c of
        (Inl status, c1) \<Rightarrow>
          let c2 = warn_token ''receiving command token'' status c1
          in if status = TOKEN_FAIL_LARGE
             then ebind (client_error g ERROR_TOOMUCH_DATA ''Too much data'' c2) (\<lambda>(_, c3). Inr c3)
             else if status \<noteq> TOKEN_FAIL_EOF
             then ebind (client_error g ERROR_BAD_TOKEN ''Invalid token'' c2) (\<lambda>(_, c3). Inr c3)
             else Inr c2
      | (Inr (flags, token), c1) \<Rightarrow>
          if length token > TOKEN_MAX_DATA then
            let c2 = warn (''command data length '' @ show_nat (length token) @ '' exceeds 64KB'') c1
            in ebind (client_error g ERROR_TOOMUCH_DATA ''Too much data'' c2) (\<lambda>(_, c3). Inr c3)
          else
            ebind (server_parse_command g token c1) (\<lambda>(argv, c2).
              case argv of
                None \<Rightarrow> Inr c2
              | Some argv \<Rightarrow> ebind (server_run_command g depth env rs argv c2) (\<lambda>(_, c3). Inr c3)))"

subsection \<open>Protocol two: reading tokens\<close>

definition server_v2_read_token ::
  "'c gss \<Rightarrow> ('c, 'z) client_scheme \<Rightarrow> fault + (token_status + bytes) \<times> ('c, 'z) client_scheme" where
  "server_v2_read_token g c =
     (case token_recv_priv g TOKEN_MAX_LENGTH TIMEOUT c of
        (Inl status, c1) \<Rightarrow>
          let c2 = warn_token ''receiving token'' status c1
          in if status \<noteq> TOKEN_FAIL_EOF \<and> status \<noteq> TOKEN_FAIL_SOCKET
             then ebind (client_error g ERROR_BAD_TOKEN ''Invalid token'' c2)
                    (\<lambda>(_, c3). Inr (Inl status, c3))
             else Inr (Inl status, c2)
      | (Inr (flags, token), c1) \<Rightarrow> Inr (Inr token, c1))"

text \<open>The octet at index \<open>i\<close> of a token, as a signed char.\<close>

definition octet :: "bytes \<Rightarrow> nat \<Rightarrow> fault + int" where
  "octet token i = (if i < length token then Inr (schar (token ! i)) else Inl Undefined)"

definition server_v2_read_continuation ::
  "'c gss \<Rightarrow> ('c, 'z) client_scheme \<Rightarrow> fault + bytes option \<times> ('c, 'z) client_scheme" where
  "server_v2_read_continuation g c =
     ebind (server_v2_read_token g c) (\<lambda>(r, c1).
       case r of
         Inl _ \<Rightarrow> Inr (None, c1\<lparr>fatal := True\<rparr>)
       | Inr token \<Rightarrow>
           ebind (octet token 0) (\<lambda>p0.
             if p0 \<noteq> 2 \<and> p0 \<noteq> 3
             then ebind (server_v2_send_version g c1) (\<lambda>(_, c2). Inr (None, c2))
             else ebind (octet token 1) (\<lambda>p1.
               if p1 = int MESSAGE_QUIT then Inr (None, c1\<lparr>keepalive := False\<rparr>)
               else if p1 \<noteq> int MESSAGE_COMMAND
               then ebind (client_error g ERROR_UNEXPECTED_MESSAGE ''Unexpected message''
                             (warn (''unexpected message type '' @ show_int p1 @ '' from client'') c1))
                      (\<lambda>(_, c2). Inr (None, c2))
               else Inr (Some token, c1))))"

subsection \<open>What a read leaves\<close>

text \<open>
  \<open>waiting\<close> is the number of octets the client has yet to send. A token read
  takes at least its header of five octets off the stream; a failure takes
  what had arrived.
\<close>

definition waiting :: "('z) sock_scheme \<Rightarrow> nat" where
  "waiting s = length (incoming (rd s))"

definition read_step :: "('c, 'z) client_scheme \<Rightarrow> ('c, 'z) client_scheme \<Rightarrow> bool" where
  "read_step c c1 \<longleftrightarrow> ident c1 = ident c \<and> client.more c1 = client.more c \<and> waiting c1 \<le> waiting c"

lemma waiting_rd: "rd s1 = rd s \<Longrightarrow> waiting s1 = waiting s"
  by (simp add: waiting_def)

lemma waiting_update [simp]:
  "waiting (c\<lparr>context_id := x\<rparr>) = waiting c" "waiting (c\<lparr>gss_error := y\<rparr>) = waiting c"
  for c :: "('c, 'z) chan_scheme"
  by (simp_all add: waiting_def)

lemma waiting_client [simp]:
  "waiting (c\<lparr>keepalive := b\<rparr>) = waiting c" "waiting (c\<lparr>fatal := b\<rparr>) = waiting c"
  "waiting (log_msg e c) = waiting c"
  for c :: "('c, 'z) client_scheme"
  by (simp_all add: waiting_def log_msg_def)

lemma network_read_waiting: "network_read n t s = (ok, data, s1) \<Longrightarrow> waiting s1 \<le> waiting s"
  by (drule nr.read_stream) (simp add: waiting_def)

lemma token_recv_waiting:
  assumes "token_recv m t s = (r, s1)"
  shows "waiting s1 \<le> waiting s"
proof -
  obtain o1 d1 s2 where 1: "network_read 1 t s = (o1, d1, s2)" by (metis surj_pair)
  obtain o2 d2 s3 where 2: "network_read 4 t s2 = (o2, d2, s3)" by (metis surj_pair)
  obtain o3 d3 s4 where 3: "network_read (unat (get_u32 d2)) t s3 = (o3, d3, s4)" by (metis surj_pair)
  note w = network_read_waiting [OF 1] network_read_waiting [OF 2] network_read_waiting [OF 3]
  show ?thesis
    using assms 1 2 3 w by (auto simp: token_recv_def Let_def split: bool.splits if_splits)
qed

lemma token_recv_ok_waiting: "token_recv m t s = (Inr (flags, tok), s1) \<Longrightarrow> waiting s1 < waiting s"
  by (drule token_recv_Inr) (simp add: waiting_def)

lemma token_send_waiting: "token_send flags tok t s = (st, s1) \<Longrightarrow> waiting s1 = waiting s"
  by (drule token_send_more) (auto dest: wr_frameD waiting_rd)

lemma token_recv_priv_waiting:
  assumes "token_recv_priv g m t s = (r, s1)"
  shows "waiting s1 \<le> waiting s" and "r = Inr x \<Longrightarrow> waiting s1 < waiting s"
proof -
  obtain r0 s0 where 0: "token_recv m t s = (r0, s0)" by fastforce
  have w: "waiting s0 \<le> waiting s" using 0 by (rule token_recv_waiting)
  have "waiting s1 = waiting s0 \<and> (r = Inr x \<longrightarrow> (\<exists>y. r0 = Inr y))"
    using assms 0
    by (cases r0)
       (auto simp: token_recv_priv_def Let_def split: prod.splits sum.splits if_splits
         dest!: token_send_waiting)
  with w 0 show "waiting s1 \<le> waiting s" "r = Inr x \<Longrightarrow> waiting s1 < waiting s"
    using token_recv_ok_waiting by (auto simp: split_paired_all)
qed

lemma read_step_refl [simp]: "read_step c c"
  by (simp add: read_step_def)

lemma read_step_trans [trans]: "read_step c c1 \<Longrightarrow> read_step c1 c2 \<Longrightarrow> read_step c c2"
  by (simp add: read_step_def)

lemma extends_read_step: "extends c c1 \<Longrightarrow> read_step c c1"
  by (auto simp: extends_def client_same_def read_step_def who_def dest: waiting_rd)

lemma read_step_extends: "read_step c c1 \<Longrightarrow> extends c1 c2 \<Longrightarrow> read_step c c2"
  by (blast intro: read_step_trans extends_read_step)

lemma read_step_warn [simp]:
  "read_step c c1 \<Longrightarrow> read_step c (warn_token m st c1)" "read_step c c1 \<Longrightarrow> read_step c (log_msg e c1)"
  by (auto intro: read_step_extends)

lemma read_step_update [simp]:
  "read_step c c1 \<Longrightarrow> read_step c (c1\<lparr>keepalive := b\<rparr>)" "read_step c c1 \<Longrightarrow> read_step c (c1\<lparr>fatal := b\<rparr>)"
  by (simp_all add: read_step_def)

lemma recv_read_step:
  fixes c :: "('c, 'z) client_scheme"
  assumes "token_recv_priv g m t c = (r, c1)"
  shows "read_step c c1 \<and> (\<forall>x. r = Inr x \<longrightarrow> waiting c1 < waiting c)"
  using chan_more_ident [OF token_recv_priv_more [OF assms]] token_recv_priv_waiting [OF assms]
  by (auto simp: read_step_def)

lemma server_v2_read_token_step:
  assumes "server_v2_read_token g c = Inr (r, c1)"
  shows "read_step c c1 \<and> (\<forall>x. r = Inr x \<longrightarrow> waiting c1 < waiting c)"
proof -
  obtain r0 c0 where 0: "token_recv_priv g TOKEN_MAX_LENGTH TIMEOUT c = (r0, c0)" by fastforce
  from recv_read_step [OF 0] assms 0 show ?thesis
    by (auto simp: server_v2_read_token_def Let_def exec split: sum.splits prod.splits if_splits
        intro: read_step_extends dest!: err.reply_warn_token)
qed

lemma octet_Inr [simp]: "octet token i = Inr x \<longleftrightarrow> i < length token \<and> x = schar (token ! i)"
  by (auto simp: octet_def)

lemma server_v2_read_continuation_step:
  assumes "server_v2_read_continuation g c = Inr (r, c1)"
  shows "read_step c c1 \<and> (\<forall>x. r = Some x \<longrightarrow> waiting c1 < waiting c)"
proof -
  obtain r0 c0 where 0: "server_v2_read_token g c = Inr (r0, c0)"
    using assms by (auto simp: server_v2_read_continuation_def exec)
  from server_v2_read_token_step [OF 0] assms 0 show ?thesis
    by (auto simp: server_v2_read_continuation_def exec split: sum.splits if_splits
        intro: read_step_extends dest!: err.reply_log v2_ver.reply_extends)
qed

subsection \<open>Protocol two: a command over several tokens\<close>

text \<open>
  The buffer of \<open>server_v2_handle_command\<close> is NULL or a heap buffer whose
  size is \<open>total\<close>. \<open>grown\<close> is \<open>xmalloc\<close> for the first part and \<open>xrealloc\<close> for a
  later one, with the copy: \<open>xrealloc\<close> to size 0 frees the buffer and returns
  NULL. The loop ends with a failure and its \<open>result\<close>, or with the complete
  command, held in the heap buffer or still inside the last token.
\<close>

datatype assembled = Abandoned bool | In_buffer bytes | In_token bytes

definition command_total :: "bytes option \<Rightarrow> nat" where
  "command_total buffer = (case buffer of None \<Rightarrow> 0 | Some b \<Rightarrow> length b)"

definition grown :: "bytes option \<Rightarrow> bytes \<Rightarrow> bytes option" where
  "grown buffer part =
     (case buffer of
        None \<Rightarrow> Some part
      | Some b \<Rightarrow> if length b + length part = 0 then None else Some (b @ part))"

text \<open>
  One round: the checks of the token, the copy into the buffer, and the read of
  the next token if there is one. \<open>alloc\<close> is the flag \<open>allocated\<close>.
\<close>

datatype part_step = Done assembled | Next bytes "bytes option"

definition abandon ::
  "'c gss \<Rightarrow> string \<Rightarrow> error_codes \<Rightarrow> string \<Rightarrow> ('c, 'z) client_scheme
     \<Rightarrow> fault + part_step \<times> ('c, 'z) client_scheme" where
  "abandon g warning code message c =
     ebind (client_error g code message (warn warning c)) (\<lambda>(ok, c1). Inr (Done (Abandoned ok), c1))"

definition v2_command_part ::
  "'c gss \<Rightarrow> bytes \<Rightarrow> bytes option \<Rightarrow> bool \<Rightarrow> ('c, 'z) client_scheme
     \<Rightarrow> fault + part_step \<times> ('c, 'z) client_scheme" where
  "v2_command_part g token buffer continued c =
     ebind (octet token 2) (\<lambda>p2.
       let c1 = c\<lparr>keepalive := (p2 \<noteq> 0)\<rparr>
       in if length token > TOKEN_MAX_DATA then
            abandon g (''command data length '' @ show_nat (length token) @ '' exceeds 64KB'')
              ERROR_TOOMUCH_DATA ''Too much data'' c1
          else ebind (octet token 3) (\<lambda>p3.
            if (p3 = 1 \<and> continued) \<or> (p3 > 1 \<and> \<not> continued) \<or> p3 > 3 then
              abandon g (''bad continue status '' @ show_int p3)
                ERROR_BAD_COMMAND ''Invalid command token'' c1
            else
              let continues = (p3 = 1 \<or> p3 = 2); part = drop 4 token; total = command_total buffer
              in if length part \<ge> size_sub COMMAND_MAX_DATA total then
                   abandon g (''total command length '' @ show_nat (length part + total)
                              @ '' exceeds '' @ show_nat COMMAND_MAX_DATA)
                     ERROR_TOOMUCH_DATA ''Too much data'' c1
                 else
                   let buffer1 = (if continues \<or> buffer \<noteq> None then grown buffer part else buffer)
                   in if continues then
                        ebind (server_v2_read_continuation g c1) (\<lambda>(r, c2).
                          case r of
                            None \<Rightarrow> Inr (Done (Abandoned False), c2)
                          | Some next_token \<Rightarrow> Inr (Next next_token buffer1, c2))
                      else case buffer1 of
                             None \<Rightarrow> Inr (Done (In_token part), c1)
                           | Some b \<Rightarrow> Inr (Done (In_buffer b), c1)))"

lemma abandon_step: "abandon g w code m c = Inr (r, c1) \<Longrightarrow> read_step c c1 \<and> (\<exists>ok. r = Done (Abandoned ok))"
  by (auto simp: abandon_def exec intro: extends_read_step dest!: err.reply_log)

lemma v2_command_part_step:
  assumes "v2_command_part g token buffer continued c = Inr (r, c1)"
  shows "read_step c c1 \<and> (\<forall>tok b. r = Next tok b \<longrightarrow> waiting c1 < waiting c)"
proof -
  have k: "read_step (c\<lparr>keepalive := b\<rparr>) c1 \<Longrightarrow> read_step c c1" for b
    by (simp add: read_step_def)
  show ?thesis
    using assms unfolding v2_command_part_def
    by (auto simp: exec Let_def split: if_splits option.splits
        dest!: abandon_step server_v2_read_continuation_step intro: k)
qed

text \<open>
  The loop. A further part means that the first part was copied, so the flag
  \<open>allocated\<close> is set exactly when a further token was read.
\<close>

function v2_command_loop ::
  "'c gss \<Rightarrow> bytes \<Rightarrow> bytes option \<Rightarrow> bool \<Rightarrow> ('c, 'z) client_scheme
     \<Rightarrow> fault + (assembled \<times> bool) \<times> ('c, 'z) client_scheme" where
  "v2_command_loop g token buffer alloc c =
     ebind (v2_command_part g token buffer alloc c) (\<lambda>(r, c1).
       case r of
         Done a \<Rightarrow> Inr ((a, alloc), c1)
       | Next tok b \<Rightarrow> v2_command_loop g tok b True c1)"
  by pat_completeness auto
termination
  by (relation "measure (\<lambda>(g, token, buffer, alloc, c). waiting c)")
     (auto dest!: v2_command_part_step)

declare v2_command_loop.simps [simp del]

text \<open>
  Parsing and running what was assembled. Freeing a pointer into the token
  after a buffer had been allocated is undefined.
\<close>

definition server_v2_handle_command ::
  "'c gss \<Rightarrow> nat \<Rightarrow> acl_env \<Rightarrow> rule list \<Rightarrow> bytes \<Rightarrow> ('c, 'z) server_scheme
     \<Rightarrow> fault + bool \<times> ('c, 'z) server_scheme" where
  "server_v2_handle_command g depth env rs token c =
     ebind (v2_command_loop g token None False c) (\<lambda>((r, alloc), c1).
       let run = (\<lambda>command.
             ebind (server_parse_command g command c1) (\<lambda>(argv, c2).
               case argv of
                 None \<Rightarrow> Inr (\<not> fatal c2, c2)
               | Some argv \<Rightarrow>
                   ebind (server_run_command g depth env rs argv c2) (\<lambda>(_, c3). Inr (\<not> fatal c3, c3))))
       in case r of
            Abandoned ok \<Rightarrow> Inr (if fatal c1 then False else ok, c1)
          | In_buffer b \<Rightarrow> run b
          | In_token b \<Rightarrow> if alloc then Inl Undefined else run b)"

definition server_v2_handle_token ::
  "'c gss \<Rightarrow> nat \<Rightarrow> acl_env \<Rightarrow> rule list \<Rightarrow> bytes \<Rightarrow> ('c, 'z) server_scheme
     \<Rightarrow> fault + bool \<times> ('c, 'z) server_scheme" where
  "server_v2_handle_token g depth env rs token c =
     ebind (octet token 0) (\<lambda>p0.
       if p0 \<noteq> 2 \<and> p0 \<noteq> 3 then server_v2_send_version g c
       else ebind (octet token 1) (\<lambda>p1.
         if p1 = int MESSAGE_COMMAND then server_v2_handle_command g depth env rs token c
         else if p1 = int MESSAGE_NOOP then server_v3_send_noop g c
         else if p1 = int MESSAGE_QUIT then Inr (False, c\<lparr>keepalive := False\<rparr>)
         else client_error g ERROR_UNKNOWN_MESSAGE ''Unknown message''
                (warn (''unknown message type '' @ show_int p1 @ '' from client'') c)))"

subsection \<open>What serving a token does\<close>

text \<open>
  \<open>served c c1\<close>: the client is the same, all that was started in between is
  authorised, and the client has no more to send than before.
\<close>

definition served ::
  "nat \<Rightarrow> acl_env \<Rightarrow> rule list \<Rightarrow> ('c, 'z) server_scheme \<Rightarrow> ('c, 'z) server_scheme \<Rightarrow> bool" where
  "served depth env rs c c1 \<longleftrightarrow>
     ident c1 = ident c \<and> waiting c1 \<le> waiting c
     \<and> (\<exists>new. spawned c1 = spawned c @ new \<and> (\<forall>sp \<in> set new. authorised depth env rs c sp))"

lemma served_refl [simp]: "served depth env rs c c"
  by (simp add: served_def)

lemma served_trans [trans]:
  assumes "served depth env rs c c1" "served depth env rs c1 c2"
  shows "served depth env rs c c2"
proof -
  from assms obtain new1 new2 where w: "ident c1 = ident c" "ident c2 = ident c1" "waiting c2 \<le> waiting c"
    and n: "spawned c1 = spawned c @ new1" "\<forall>sp \<in> set new1. authorised depth env rs c sp"
      "spawned c2 = spawned c1 @ new2" "\<forall>sp \<in> set new2. authorised depth env rs c1 sp"
    unfolding served_def by (meson le_trans)
  have "\<forall>sp \<in> set (new1 @ new2). authorised depth env rs c sp"
    using n authorised_ident [OF w(1), of depth env rs] by auto
  then show ?thesis
    unfolding served_def using w n(1,3) by (intro conjI exI [of _ "new1 @ new2"]) simp_all
qed

lemma guarded_served: "guarded depth env rs c c1 \<Longrightarrow> served depth env rs c c1"
  by (auto simp: guarded_def served_def who_def waiting_def)

lemma read_step_served: "read_step c c1 \<Longrightarrow> served depth env rs c c1"
  for c :: "('c, 'z) server_scheme"
  by (auto simp: read_step_def served_def srv_core_def dest!: srv_core_more)

lemmas extends_served = guarded_served [OF extends_guarded]

lemma v2_command_loop_step:
  "v2_command_loop g token buffer alloc c = Inr (r, c1) \<Longrightarrow> read_step c c1"
proof (induction g token buffer alloc c rule: v2_command_loop.induct)
  case (1 g token buffer alloc c)
  from "1.prems" obtain r0 c0 where 0: "v2_command_part g token buffer alloc c = Inr (r0, c0)"
    by (auto simp: v2_command_loop.simps [of g token] exec)
  show ?case
    using v2_command_part_step [OF 0] "1.prems" "1.IH" [OF 0 refl]
    by (cases r0) (auto simp: v2_command_loop.simps [of g token] 0 intro: read_step_trans)
qed

lemma parse_command_served:
  "server_parse_command g cmd c = Inr (r, c1) \<Longrightarrow> served depth env rs c c1"
  by (cases r) (auto dest: parse_command_None parse_command_Some intro: extends_served)

lemma run_command_served:
  "server_run_command g depth env rs argv c = Inr (st, c1) \<Longrightarrow> served depth env rs c c1"
  by (rule guarded_served) (rule run_command_guarded)

lemma server_v2_handle_command_served:
  assumes "server_v2_handle_command g depth env rs token c = Inr (ok, c1)"
  shows "served depth env rs c c1"
proof -
  from assms obtain r alloc c0 where 0: "v2_command_loop g token None False c = Inr ((r, alloc), c0)"
    by (auto simp: server_v2_handle_command_def exec)
  have "served depth env rs c0 c1"
    using assms 0
    by (auto simp: server_v2_handle_command_def exec Let_def
        split: assembled.splits option.splits if_splits
        dest!: parse_command_served [where depth = depth and env = env and rs = rs] run_command_served
        intro: served_trans)
  with read_step_served [OF v2_command_loop_step [OF 0]] show ?thesis by (rule served_trans)
qed

lemma server_v2_handle_token_served:
  assumes "server_v2_handle_token g depth env rs token c = Inr (ok, c1)"
  shows "served depth env rs c c1"
  using assms
  by (auto simp: server_v2_handle_token_def exec split: if_splits
      intro: extends_served server_v2_handle_command_served read_step_served
      dest: err.reply_log v2_ver.reply_extends v3_noop.reply_extends)

subsection \<open>The loop of protocol two\<close>

function v2_messages_loop ::
  "'c gss \<Rightarrow> nat \<Rightarrow> acl_env \<Rightarrow> rule list \<Rightarrow> ('c, 'z) server_scheme \<Rightarrow> fault + ('c, 'z) server_scheme" where
  "v2_messages_loop g depth env rs c =
     ebind (server_v2_read_token g c) (\<lambda>(r, c1).
       case r of
         Inl _ \<Rightarrow> Inr c1
       | Inr token \<Rightarrow>
           ebind (server_v2_handle_token g depth env rs token c1) (\<lambda>(ok, c2).
             if \<not> ok then Inr c2
             else if keepalive c2 then v2_messages_loop g depth env rs c2
             else Inr c2))"
  by pat_completeness auto
termination
  by (relation "measure (\<lambda>(g, depth, env, rs, c). waiting c)")
     (auto dest!: server_v2_read_token_step server_v2_handle_token_served simp: served_def)

declare v2_messages_loop.simps [simp del]

definition server_v2_handle_messages ::
  "'c gss \<Rightarrow> nat \<Rightarrow> acl_env \<Rightarrow> rule list \<Rightarrow> ('c, 'z) server_scheme \<Rightarrow> fault + ('c, 'z) server_scheme" where
  "server_v2_handle_messages g depth env rs c = v2_messages_loop g depth env rs (c\<lparr>keepalive := True\<rparr>)"

lemma v2_messages_loop_served:
  "v2_messages_loop g depth env rs c = Inr c1 \<Longrightarrow> served depth env rs c c1"
proof (induction g depth env rs c rule: v2_messages_loop.induct)
  case (1 g depth env rs c)
  from "1.prems" obtain r c0 where 0: "server_v2_read_token g c = Inr (r, c0)"
    by (auto simp: v2_messages_loop.simps [of g] exec)
  have s0: "served depth env rs c c0"
    using server_v2_read_token_step [OF 0] by (blast intro: read_step_served)
  show ?case
  proof (cases r)
    case (Inl e)
    then show ?thesis using "1.prems" 0 s0 by (simp add: v2_messages_loop.simps [of g])
  next
    case (Inr token)
    with "1.prems" 0 obtain ok c2 where
      2: "server_v2_handle_token g depth env rs token c0 = Inr (ok, c2)"
      by (auto simp: v2_messages_loop.simps [of g] exec)
    have "served depth env rs c2 c1"
      using "1.prems" 0 2 Inr "1.IH" [OF 0 refl Inr 2 refl]
      by (auto simp: v2_messages_loop.simps [of g depth env rs c] split: if_splits)
    with served_trans [OF s0 server_v2_handle_token_served [OF 2]] show ?thesis
      by (rule served_trans)
  qed
qed

lemma server_v1_handle_messages_served:
  assumes "server_v1_handle_messages g depth env rs c = Inr c1"
  shows "served depth env rs c c1"
proof -
  obtain r c0 where 0: "token_recv_priv g TOKEN_MAX_LENGTH TIMEOUT c = (r, c0)" by fastforce
  have s0: "served depth env rs c c0"
    using recv_read_step [OF 0] by (blast intro: read_step_served)
  have w: "served depth env rs c0 (warn_token m st c0)" for m st
    by (rule extends_served) simp
  have "served depth env rs c0 c1"
    using assms 0
    by (auto simp: server_v1_handle_messages_def exec Let_def w
        split: sum.splits prod.splits if_splits option.splits
        dest!: parse_command_served [where depth = depth and env = env and rs = rs] run_command_served
          err.reply_warn_token err.reply_log
        intro: served_trans extends_served)
  with s0 show ?thesis by (rule served_trans)
qed

subsection \<open>The size of an assembled command\<close>

lemma grown_Some: "grown buffer part = Some b \<Longrightarrow> length b = command_total buffer + length part"
  by (auto simp: grown_def command_total_def split: option.splits if_splits)

lemma command_total_grown: "command_total (grown buffer part) = command_total buffer + length part"
  by (auto simp: grown_def command_total_def split: option.splits)

text \<open>How a round ends.\<close>

lemma v2_command_part_cases:
  assumes "v2_command_part g token buffer continued c = Inr (r, c1)"
  obtains (abandoned) ok where "r = Done (Abandoned ok)"
  | (whole) "buffer = None" "r = Done (In_token (drop 4 token))" "4 \<le> length token"
      "length token \<le> TOKEN_MAX_DATA"
  | (final) b where "grown buffer (drop 4 token) = b" "buffer \<noteq> None"
      "length (drop 4 token) < size_sub COMMAND_MAX_DATA (command_total buffer)"
      "r = Done (case b of None \<Rightarrow> In_token (drop 4 token) | Some x \<Rightarrow> In_buffer x)"
      "4 \<le> length token" "length token \<le> TOKEN_MAX_DATA"
  | (further) tok where "r = Next tok (grown buffer (drop 4 token))"
      "length (drop 4 token) < size_sub COMMAND_MAX_DATA (command_total buffer)"
proof -
  let ?c = "c\<lparr>keepalive := (schar (token ! 2) \<noteq> 0)\<rparr>" and ?p3 = "schar (token ! 3)"
  have l2: "2 < length token" using assms by (auto simp: v2_command_part_def exec Let_def)
  show thesis
  proof (cases "length token > TOKEN_MAX_DATA")
    case True
    then show thesis
      using assms l2 abandoned by (auto simp: v2_command_part_def octet_def Let_def dest!: abandon_step)
  next
    case False
    then have l3: "3 < length token"
      using assms l2 by (cases "3 < length token") (auto simp: v2_command_part_def octet_def Let_def)
    let ?bad = "(?p3 = 1 \<and> continued) \<or> (?p3 > 1 \<and> \<not> continued) \<or> ?p3 > 3"
    let ?big = "length (drop 4 token) \<ge> size_sub COMMAND_MAX_DATA (command_total buffer)"
    show thesis
    proof (cases "?bad \<or> ?big")
      case True
      then obtain w code t where "abandon g w code t ?c = Inr (r, c1)"
        using assms l2 l3 False unfolding v2_command_part_def octet_def Let_def
        by (cases ?bad) (simp_all only: if_True if_False ebind_simps simp_thms)
      then show thesis using abandoned by (auto dest!: abandon_step)
    next
      case ok: False
      show thesis
      proof (cases "?p3 = 1 \<or> ?p3 = 2")
        case True
        then show thesis
          using assms l2 l3 False ok abandoned further
          by (auto simp: v2_command_part_def octet_def Let_def exec split: option.splits)
      next
        case last: False
        then show thesis
          using assms l2 l3 False ok whole final
          by (cases buffer)
             (auto simp: v2_command_part_def octet_def Let_def split: option.splits)
      qed
    qed
  qed
qed

lemma v2_command_part_bound:
  assumes "v2_command_part g token buffer continued c = Inr (r, c1)" "command_total buffer < COMMAND_MAX_DATA"
  shows "case r of
      Done (In_buffer b) \<Rightarrow> length b < COMMAND_MAX_DATA
    | Done (In_token b) \<Rightarrow> length b < TOKEN_MAX_DATA
    | Done (Abandoned ok) \<Rightarrow> True
    | Next tok b \<Rightarrow> command_total b < COMMAND_MAX_DATA"
proof -
  have m: "size_sub COMMAND_MAX_DATA (command_total buffer) = COMMAND_MAX_DATA - command_total buffer"
    using assms(2) by (simp add: COMMAND_MAX_DATA_def)
  from assms(1) show ?thesis
  proof (cases rule: v2_command_part_cases)
    case whole
    then show ?thesis by simp
  next
    case (final b)
    then show ?thesis using m by (cases b) (auto dest: grown_Some)
  next
    case (further tok)
    then show ?thesis using m by (simp add: command_total_grown)
  qed simp
qed

lemma v2_command_loop_bound:
  "v2_command_loop g token buffer alloc c = Inr ((r, alloc1), c1) \<Longrightarrow> command_total buffer < COMMAND_MAX_DATA \<Longrightarrow>
   case r of In_buffer b \<Rightarrow> length b < COMMAND_MAX_DATA | In_token b \<Rightarrow> length b < TOKEN_MAX_DATA | Abandoned ok \<Rightarrow> True"
proof (induction g token buffer alloc c rule: v2_command_loop.induct)
  case (1 g token buffer alloc c)
  from "1.prems" obtain r0 c0 where 0: "v2_command_part g token buffer alloc c = Inr (r0, c0)"
    by (auto simp: v2_command_loop.simps [of g token] exec)
  show ?case
    using v2_command_part_bound [OF 0 "1.prems"(2)] "1.prems"(1) "1.IH" [OF 0 refl]
    by (cases r0) (auto simp: v2_command_loop.simps [of g token] 0)
qed

subsection \<open>Properties\<close>

text \<open>
  C4: serving a protocol two connection always ends, and whatever octets the
  client sends, everything started in the course of it is the program of a rule
  whose ACLs permit this client; the client's identity never changes.
\<close>

theorem server_v2_handle_messages_authorised:
  assumes "server_v2_handle_messages g depth env rs c = Inr c1"
  shows "ident c1 = ident c
    \<and> (\<exists>new. spawned c1 = spawned c @ new \<and> (\<forall>sp \<in> set new. authorised depth env rs c sp))"
proof -
  have i: "ident (c\<lparr>keepalive := True\<rparr>) = ident c" by simp
  from v2_messages_loop_served [OF assms [unfolded server_v2_handle_messages_def]] show ?thesis
    by (auto simp: served_def authorised_ident [OF i])
qed

definition demo_quit :: "nat server" where
  "demo_quit = demo_server\<lparr>rd := [Rd_Data (token_frame (TOKEN_DATA OR TOKEN_PROTOCOL)
                                        (CHR ''#'' # [CHR 0x02, CHR 0x02]))]\<rparr>"

lemma demo_context [simp]: "context_id demo_server = 0"
  by (simp add: demo_server_def client.extend_def demo_client_def chan.extend_def demo_chan_def sock.extend_def)

lemma demo_quit_run: "\<exists>c1. server_v2_handle_messages demo_gss 3 demo_env [demo_anyuser] demo_quit = Inr c1"
proof -
  let ?c = "demo_quit\<lparr>keepalive := True\<rparr>"
  have "\<exists>c1. token_recv_priv demo_gss TOKEN_MAX_LENGTH TIMEOUT ?c
      = (Inr (TOKEN_DATA OR TOKEN_PROTOCOL, [CHR 0x02, CHR 0x02]), c1)"
    using recv_wrapped [OF demo_sealed, of 0 ?c "[CHR 0x02, CHR 0x02]" 1 "CHR ''#'' # [CHR 0x02, CHR 0x02]"
        "TOKEN_DATA OR TOKEN_PROTOCOL" TOKEN_MAX_LENGTH TIMEOUT "[]"]
    by (auto simp: demo_quit_def demo_gss_def TOKEN_MAX_LENGTH_def TIMEOUT_def calm_def)
  then obtain c1 where "token_recv_priv demo_gss TOKEN_MAX_LENGTH TIMEOUT ?c
      = (Inr (TOKEN_DATA OR TOKEN_PROTOCOL, [CHR 0x02, CHR 0x02]), c1)" by blast
  then show ?thesis
    by (simp add: server_v2_handle_messages_def v2_messages_loop.simps [of demo_gss] server_v2_read_token_def
        server_v2_handle_token_def octet_def schar_def message_types)
qed

theorem server_v2_handle_messages_authorised_witness:
  "\<exists>c1. server_v2_handle_messages demo_gss 3 demo_env [demo_anyuser] demo_quit = Inr c1
     \<and> (\<forall>sp \<in> set (spawned c1). authorised 3 demo_env [demo_anyuser] demo_quit sp)"
proof -
  obtain c1 where r: "server_v2_handle_messages demo_gss 3 demo_env [demo_anyuser] demo_quit = Inr c1"
    using demo_quit_run by blast
  from server_v2_handle_messages_authorised [OF r] r show ?thesis by (auto simp: demo_quit_def)
qed

text \<open>
  C5: the same holds for protocol one.
\<close>

theorem server_v1_handle_messages_authorised:
  assumes "server_v1_handle_messages g depth env rs c = Inr c1"
  shows "ident c1 = ident c
    \<and> (\<exists>new. spawned c1 = spawned c @ new \<and> (\<forall>sp \<in> set new. authorised depth env rs c sp))"
  using server_v1_handle_messages_served [OF assms] by (simp add: served_def)

lemma demo_v1_messages: "\<exists>c1. server_v1_handle_messages demo_gss 3 demo_env [demo_anyuser] demo_v1 = Inr c1"
proof -
  have rd: "rd demo_v1 = []"
    by (simp add: demo_v1_def demo_server_def client.extend_def demo_client_def chan.extend_def demo_chan_def
        sock.extend_def)
  obtain r c0 where r: "token_recv_priv demo_gss TOKEN_MAX_LENGTH TIMEOUT demo_v1 = (r, c0)" by fastforce
  have "waiting demo_v1 = 0" by (simp add: waiting_def rd)
  with token_recv_priv_waiting(2) [OF r] obtain st where "r = Inl st" by (cases r) auto
  have e: "length m < 2 ^ 31 \<Longrightarrow> \<exists>c1. ebind (client_error demo_gss code m c) (\<lambda>(_, c3). Inr c3) = Inr c1"
    for code m and c :: "nat server"
    using client_error_returns [of m demo_gss code c] by auto
  show ?thesis
    using r \<open>r = Inl st\<close> by (auto simp: server_v1_handle_messages_def Let_def intro!: e)
qed

theorem server_v1_handle_messages_authorised_witness:
  "\<exists>c1. server_v1_handle_messages demo_gss 3 demo_env [demo_anyuser] demo_v1 = Inr c1
     \<and> (\<forall>sp \<in> set (spawned c1). authorised 3 demo_env [demo_anyuser] demo_v1 sp)"
proof -
  obtain c1 where r: "server_v1_handle_messages demo_gss 3 demo_env [demo_anyuser] demo_v1 = Inr c1"
    using demo_v1_messages by blast
  from server_v1_handle_messages_authorised [OF r] r show ?thesis by auto
qed

text \<open>
  C18: a command put together from several tokens stays below \<open>COMMAND_MAX_DATA\<close>
  octets, and one taken from a single token below \<open>TOKEN_MAX_DATA\<close>, whatever the
  client sends.
\<close>

theorem v2_command_bounded:
  assumes "v2_command_loop g token None False c = Inr ((r, alloc), c1)"
  shows "case r of In_buffer b \<Rightarrow> length b < COMMAND_MAX_DATA | In_token b \<Rightarrow> length b < TOKEN_MAX_DATA
         | Abandoned ok \<Rightarrow> True"
  using v2_command_loop_bound [OF assms] by (simp add: command_total_def COMMAND_MAX_DATA_def)

theorem v2_command_bounded_witness:
  "v2_command_loop demo_gss [CHR 0x02, CHR 0x01, CHR 0x01, CHR 0x00, CHR ''a''] None False demo_client
     = Inr ((In_token ''a'', False), demo_client\<lparr>keepalive := True\<rparr>) \<and> length ''a'' < TOKEN_MAX_DATA"
proof -
  have r: "v2_command_loop demo_gss [CHR 0x02, CHR 0x01, CHR 0x01, CHR 0x00, CHR ''a''] None False demo_client
     = Inr ((In_token ''a'', False), demo_client\<lparr>keepalive := True\<rparr>)"
    by (simp add: v2_command_loop.simps [of demo_gss] v2_command_part_def octet_def schar_def Let_def
        TOKEN_MAX_DATA_def command_total_def COMMAND_MAX_DATA_def)
  from v2_command_bounded [OF r] r show ?thesis by simp
qed

subsection \<open>Octets the code reads without looking at the length\<close>

text \<open>
  A token of fewer than three octets that claims to be a command makes the
  server read outside of it.
\<close>

lemma short_token_undefined:
  "server_v2_handle_token g depth env rs [CHR 0x02, CHR 0x01] c = Inl Undefined"
  by (simp add: server_v2_handle_token_def server_v2_handle_command_def octet_def schar_def message_types
      v2_command_loop.simps [of g] v2_command_part_def)

text \<open>
  After two empty parts the buffer is NULL again although \<open>allocated\<close> is set, so
  the code goes on to free a pointer into the last token.
\<close>

lemma empty_parts_undefined:
  assumes "server_v2_read_continuation g (c\<lparr>keepalive := True\<rparr>) = Inr (Some [CHR 0x02, CHR 0x01, CHR 0x01, CHR 0x02], c1)"
    and "server_v2_read_continuation g (c1\<lparr>keepalive := True\<rparr>)
           = Inr (Some ([CHR 0x02, CHR 0x01, CHR 0x01, CHR 0x03] @ p), c2)"
    and "length p + 4 \<le> TOKEN_MAX_DATA"
  shows "server_v2_handle_command g depth env rs [CHR 0x02, CHR 0x01, CHR 0x01, CHR 0x01] c = Inl Undefined"
proof -
  have p1: "v2_command_part g [CHR 0x02, CHR 0x01, CHR 0x01, CHR 0x01] None False c
      = Inr (Next [CHR 0x02, CHR 0x01, CHR 0x01, CHR 0x02] (Some []), c1)"
    using assms(1) by (simp add: v2_command_part_def octet_def schar_def Let_def TOKEN_MAX_DATA_def
        command_total_def COMMAND_MAX_DATA_def grown_def)
  have p2: "v2_command_part g [CHR 0x02, CHR 0x01, CHR 0x01, CHR 0x02] (Some []) True c1
      = Inr (Next ([CHR 0x02, CHR 0x01, CHR 0x01, CHR 0x03] @ p) None, c2)"
    using assms(2) by (simp add: v2_command_part_def octet_def schar_def Let_def TOKEN_MAX_DATA_def
        command_total_def COMMAND_MAX_DATA_def grown_def)
  have p3: "v2_command_part g ([CHR 0x02, CHR 0x01, CHR 0x01, CHR 0x03] @ p) None True c2
      = Inr (Done (In_token p), c2\<lparr>keepalive := True\<rparr>)"
    using assms(3) by (simp add: v2_command_part_def octet_def schar_def Let_def TOKEN_MAX_DATA_def
        command_total_def COMMAND_MAX_DATA_def)
  have "v2_command_loop g [CHR 0x02, CHR 0x01, CHR 0x01, CHR 0x01] None False c
      = Inr ((In_token p, True), c2\<lparr>keepalive := True\<rparr>)"
    using p1 p2 p3 by (simp add: v2_command_loop.simps [of g])
  then show ?thesis by (simp add: server_v2_handle_command_def)
qed

end
