(* ===== verification/Network.thy ===== *)
theory Network
  imports Sockets
begin

text \<open>
  Opening sockets: \<open>network_bind_ipv4\<close>, \<open>network_bind_ipv6\<close>, \<open>network_bind_all\<close>,
  \<open>network_wait_any\<close>, \<open>network_accept_any\<close>, \<open>network_source\<close>, \<open>connect_wait\<close>,
  \<open>network_connect\<close>, \<open>network_connect_host\<close> and \<open>network_client_create\<close> of \<^verbatim>\<open>src/util/network.c\<close>.

  What the kernel does is a parameter: one record per socket with the results of
  the calls made on it. A result \<open>Inl e\<close> is a failure with that \<open>errno\<close>. The
  functions return the descriptors they closed, in order, so that leaks show.
  Log messages and socket options are not modelled.
\<close>

subsection \<open>The environment\<close>

datatype family = AF_INET | AF_INET6 | AF_OTHER nat

text \<open>Which strings \<open>inet_aton\<close> and \<open>inet_pton (AF_INET6)\<close> accept.\<close>

record parsers =
  inet_aton_ok :: "string \<Rightarrow> bool"
  inet_pton6_ok :: "string \<Rightarrow> bool"

record binding =
  b_socket :: "errno + nat"
  b_bind :: "errno option"

record attempt =
  ai_family :: family
  a_socket :: "errno + nat"
  a_bind :: "errno option"
  a_connect :: "errno option"
  a_selects :: "sel_result list"
  a_so_error :: "errno + errno option"
  a_conn :: sock

subsection \<open>Binding\<close>

definition network_bind_ipv4 :: "parsers \<Rightarrow> string \<Rightarrow> binding \<Rightarrow> (errno + nat) \<times> nat list" where
  "network_bind_ipv4 p address b =
     (case b_socket b of
        Inl e \<Rightarrow> (Inl e, [])
      | Inr fd \<Rightarrow>
          let addr = (if address = ''any'' \<or> address = ''all'' then ''0.0.0.0'' else address)
          in if \<not> inet_aton_ok p addr then (Inl EINVAL, [])
             else case b_bind b of
                    Some e \<Rightarrow> (Inl e, [fd])
                  | None \<Rightarrow> (Inr fd, []))"

definition network_bind_ipv6 :: "parsers \<Rightarrow> string \<Rightarrow> binding \<Rightarrow> (errno + nat) \<times> nat list" where
  "network_bind_ipv6 p address b =
     (case b_socket b of
        Inl e \<Rightarrow> (Inl e, [])
      | Inr fd \<Rightarrow>
          let addr = (if address = ''any'' \<or> address = ''all'' then ''::'' else address)
          in if \<not> inet_pton6_ok p addr then (Inl EINVAL, [])
             else case b_bind b of
                    Some e \<Rightarrow> (Inl e, [fd])
                  | None \<Rightarrow> (Inr fd, []))"

text \<open>
  The loop over the local addresses, each with its printed name. \<open>sz\<close> is the
  allocated size of the array \<open>fds\<close>; a store outside it is undefined.
\<close>

primrec bind_all_loop ::
  "parsers \<Rightarrow> (family \<times> string \<times> binding) list \<Rightarrow> nat \<Rightarrow> nat list \<Rightarrow> nat list
     \<Rightarrow> fault + nat list \<times> nat list" where
  "bind_all_loop p [] sz fds cl = Inr (fds, cl)"
| "bind_all_loop p (x # xs) sz fds cl =
     (case x of (fam, name, b) \<Rightarrow>
        let r = (case fam of
                   AF_INET \<Rightarrow> Some (network_bind_ipv4 p name b)
                 | AF_INET6 \<Rightarrow> Some (network_bind_ipv6 p name b)
                 | AF_OTHER _ \<Rightarrow> None)
        in case r of
             None \<Rightarrow> bind_all_loop p xs sz fds cl
           | Some (Inl e, cl1) \<Rightarrow> bind_all_loop p xs sz fds (cl @ cl1)
           | Some (Inr fd, cl1) \<Rightarrow>
               let sz1 = (if length fds \<ge> sz then sz + 2 else sz)
               in if length fds \<ge> sz1 then Inl Undefined
                  else bind_all_loop p xs sz1 (fds @ [fd]) (cl @ cl1))"

definition network_bind_all ::
  "parsers \<Rightarrow> (family \<times> string \<times> binding) list option \<Rightarrow> fault + (bool \<times> nat list \<times> nat list)" where
  "network_bind_all p addrs =
     (case addrs of
        None \<Rightarrow> Inr (False, [], [])
      | Some xs \<Rightarrow>
          ebind (bind_all_loop p xs 2 [] []) (\<lambda>(fds, cl). Inr (length fds > 0, fds, cl)))"

subsection \<open>Accepting\<close>

definition FD_SETSIZE :: nat where "FD_SETSIZE = 1024"

text \<open>
  \<open>ready\<close> is what \<open>select\<close> returns: a failure or the set of descriptors it left in
  \<open>readfds\<close>. A descriptor that does not fit an \<open>fd_set\<close> is undefined.
\<close>

definition network_wait_any :: "nat list \<Rightarrow> errno + nat list \<Rightarrow> fault + (errno + nat option)" where
  "network_wait_any fds ready =
     (if \<exists>fd \<in> set fds. fd \<ge> FD_SETSIZE then Inl Undefined
      else case ready of
             Inl e \<Rightarrow> Inr (Inl e)
           | Inr rs \<Rightarrow> Inr (Inr (find (\<lambda>fd. fd \<in> set rs) fds)))"

text \<open>\<open>acc fd\<close> is the result of \<open>accept\<close>. None is \<open>INVALID_SOCKET\<close> with \<open>errno\<close> as it was.\<close>

definition network_accept_any ::
  "nat list \<Rightarrow> errno + nat list \<Rightarrow> (nat \<Rightarrow> errno + 'a) \<Rightarrow> errno \<Rightarrow> fault + (errno + 'a)" where
  "network_accept_any fds ready acc e0 =
     ebind (network_wait_any fds ready) (\<lambda>r.
       case r of
         Inl e \<Rightarrow> Inr (Inl e)
       | Inr None \<Rightarrow> Inr (Inl e0)
       | Inr (Some fd) \<Rightarrow> Inr (acc fd))"

subsection \<open>Connecting\<close>

text \<open>None is success, \<open>Some e\<close> a failure.\<close>

definition network_source :: "parsers \<Rightarrow> attempt \<Rightarrow> string option \<Rightarrow> errno option" where
  "network_source p x source =
     (case source of
        None \<Rightarrow> None
      | Some src \<Rightarrow>
          if src = ''all'' \<or> src = ''any'' then None
          else (case ai_family x of
                  AF_INET \<Rightarrow> if \<not> inet_aton_ok p src then Some EINVAL else a_bind x
                | AF_INET6 \<Rightarrow> if \<not> inet_pton6_ok p src then Some EINVAL else a_bind x
                | AF_OTHER _ \<Rightarrow> Some EAFNOSUPPORT))"

fun connect_wait :: "sel_result list \<Rightarrow> errno + errno option \<Rightarrow> errno option" where
  "connect_wait (Sel_Err e # ws) so = (if e = EINTR then connect_wait ws so else Some e)"
| "connect_wait (Sel_Timeout # ws) so = Some ETIMEDOUT"
| "connect_wait _ so = (case so of Inl e \<Rightarrow> Some e | Inr err \<Rightarrow> err)"

definition connect_one :: "int \<Rightarrow> attempt \<Rightarrow> errno option" where
  "connect_one timeout x =
     (if timeout = 0 then a_connect x
      else if a_connect x = Some EINPROGRESS then connect_wait (a_selects x) (a_so_error x)
      else a_connect x)"

text \<open>\<open>fd\<close> is the socket of the last attempt, still open, and \<open>e\<close> its \<open>errno\<close>.\<close>

primrec connect_loop ::
  "parsers \<Rightarrow> string option \<Rightarrow> int \<Rightarrow> attempt list \<Rightarrow> nat option \<Rightarrow> errno \<Rightarrow> nat list
     \<Rightarrow> (errno + nat \<times> sock) \<times> nat list" where
  "connect_loop p source timeout [] fd e cl = (Inl e, cl @ (case fd of None \<Rightarrow> [] | Some n \<Rightarrow> [n]))"
| "connect_loop p source timeout (x # xs) fd e cl =
     (let cl1 = cl @ (case fd of None \<Rightarrow> [] | Some n \<Rightarrow> [n])
      in case a_socket x of
           Inl e1 \<Rightarrow> connect_loop p source timeout xs None e1 cl1
         | Inr n \<Rightarrow>
             (case network_source p x source of
                Some e1 \<Rightarrow> connect_loop p source timeout xs (Some n) e1 cl1
              | None \<Rightarrow>
                  (case connect_one timeout x of
                     Some e1 \<Rightarrow> connect_loop p source timeout xs (Some n) e1 cl1
                   | None \<Rightarrow> (Inr (n, a_conn x), cl1))))"

definition network_connect ::
  "parsers \<Rightarrow> attempt list \<Rightarrow> string option \<Rightarrow> int \<Rightarrow> errno \<Rightarrow> (errno + nat \<times> sock) \<times> nat list" where
  "network_connect p ai source timeout e0 = connect_loop p source timeout ai None e0 []"

text \<open>The same for a host, whose addresses the resolver reports, and a socket that is not connected yet.\<close>

definition network_connect_host ::
  "parsers \<Rightarrow> attempt list option \<Rightarrow> string option \<Rightarrow> int \<Rightarrow> errno \<Rightarrow> (errno + nat \<times> sock) \<times> nat list" where
  "network_connect_host p resolved source timeout e0 =
     (case resolved of None \<Rightarrow> (Inl e0, []) | Some ai \<Rightarrow> network_connect p ai source timeout e0)"

definition network_client_create :: "parsers \<Rightarrow> attempt \<Rightarrow> string option \<Rightarrow> (errno + nat) \<times> nat list" where
  "network_client_create p x source =
     (case a_socket x of
        Inl e \<Rightarrow> (Inl e, [])
      | Inr n \<Rightarrow> (case network_source p x source of Some e \<Rightarrow> (Inl e, [n]) | None \<Rightarrow> (Inr n, [])))"

subsection \<open>Reference\<close>

text \<open>
  What an address comes to on its own, and the sockets that some addresses made.
  Connecting takes the first address that works and closes the sockets of those
  before it.
\<close>

definition attempt_result :: "parsers \<Rightarrow> string option \<Rightarrow> int \<Rightarrow> attempt \<Rightarrow> errno option" where
  "attempt_result p source timeout x =
     (case a_socket x of
        Inl e \<Rightarrow> Some e
      | Inr _ \<Rightarrow> (case network_source p x source of Some e \<Rightarrow> Some e | None \<Rightarrow> connect_one timeout x))"

definition sockets_of :: "attempt list \<Rightarrow> nat list" where
  "sockets_of xs = concat (map (\<lambda>x. case a_socket x of Inl _ \<Rightarrow> [] | Inr n \<Rightarrow> [n]) xs)"

primrec last_errno :: "('a \<Rightarrow> errno option) \<Rightarrow> 'a list \<Rightarrow> errno \<Rightarrow> errno" where
  "last_errno f [] e = e"
| "last_errno f (x # xs) e = last_errno f xs (case f x of Some e1 \<Rightarrow> e1 | None \<Rightarrow> e)"

definition first_connection ::
  "parsers \<Rightarrow> attempt list \<Rightarrow> string option \<Rightarrow> int \<Rightarrow> errno \<Rightarrow> (errno + nat \<times> sock) \<times> nat list" where
  "first_connection p ai source timeout e0 =
     (let works = (\<lambda>x. attempt_result p source timeout x = None);
          failed = takeWhile (\<lambda>x. \<not> works x) ai
      in (case dropWhile (\<lambda>x. \<not> works x) ai of
            [] \<Rightarrow> Inl (last_errno (attempt_result p source timeout) failed e0)
          | x # _ \<Rightarrow> (case a_socket x of Inr n \<Rightarrow> Inr (n, a_conn x) | Inl e \<Rightarrow> Inl e),
          sockets_of failed))"

lemma connect_loop_first:
  "connect_loop p source timeout ai fd e cl
     = (case first_connection p ai source timeout e of
          (r, cl1) \<Rightarrow> (r, cl @ (case fd of None \<Rightarrow> [] | Some n \<Rightarrow> [n]) @ cl1))"
proof (induction ai arbitrary: fd e cl)
  case Nil
  then show ?case by (simp add: first_connection_def sockets_of_def)
next
  case (Cons x xs)
  show ?case
  proof (cases "attempt_result p source timeout x")
    case None
    then show ?thesis
      by (auto simp: first_connection_def sockets_of_def attempt_result_def split: sum.splits option.splits)
  next
    case (Some e1)
    then have "connect_loop p source timeout (x # xs) fd e cl
      = connect_loop p source timeout xs (case a_socket x of Inl _ \<Rightarrow> None | Inr n \<Rightarrow> Some n) e1
          (cl @ (case fd of None \<Rightarrow> [] | Some n \<Rightarrow> [n]))"
      by (auto simp: attempt_result_def split: sum.splits option.splits)
    moreover have "first_connection p (x # xs) source timeout e
      = (case first_connection p xs source timeout e1 of
           (r, cl1) \<Rightarrow> (r, (case a_socket x of Inl _ \<Rightarrow> [] | Inr n \<Rightarrow> [n]) @ cl1))"
      using Some
      by (cases "dropWhile (\<lambda>x. attempt_result p source timeout x \<noteq> None) xs")
         (simp_all add: first_connection_def sockets_of_def Let_def del: not_None_eq dropWhile_eq_Nil_conv)
    ultimately show ?thesis
      using Cons.IH by (cases "a_socket x") (simp_all split: prod.splits)
  qed
qed

lemma bind_all_loop_returns:
  assumes "length fds \<le> sz"
  shows "\<exists>fds1 cl1. bind_all_loop p xs sz fds cl = Inr (fds @ fds1, cl @ cl1)"
  using assms
proof (induction xs arbitrary: sz fds cl)
  case (Cons x xs)
  have step: "\<exists>fds1 cl1. bind_all_loop p xs sz1 (fds @ f) (cl @ c) = Inr (fds @ fds1, cl @ cl1)"
    if "length (fds @ f) \<le> sz1" for sz1 f c
    using Cons.IH [OF that, of "cl @ c"] by (metis append.assoc)
  show ?case
    using step [of "[]" sz "[]"] step [of "[]" sz] step [of "[_]" sz] step [of "[_]" "sz + 2"] Cons.prems
    by (auto simp: Let_def split: prod.splits family.splits sum.splits option.splits)
qed simp

subsection \<open>Properties\<close>

text \<open>
  C33: \<open>network_connect\<close> returns the socket of the first address that can be
  reached from the source address, having closed the socket of every address it
  gave up on; if none can be reached it has closed all it opened and leaves the
  \<open>errno\<close> of the last address.
\<close>

theorem network_connect_first:
  "network_connect p ai source timeout e0 = first_connection p ai source timeout e0"
  by (simp add: network_connect_def connect_loop_first split: prod.splits)

text \<open>\<open>network_bind_all\<close> never stores outside the array of descriptors.\<close>

lemma network_bind_all_returns: "\<exists>r. network_bind_all p addrs = Inr r"
proof (cases addrs)
  case (Some xs)
  obtain fds cl where "bind_all_loop p xs 2 [] [] = Inr (fds, cl)"
    using bind_all_loop_returns [of "[]" 2 p xs "[]"] by auto
  with Some show ?thesis by (simp add: network_bind_all_def)
qed (auto simp: network_bind_all_def)

text \<open>An address that does not parse leaves the socket open.\<close>

lemma bind_invalid_leaks:
  "b_socket b = Inr fd \<Longrightarrow> \<not> inet_aton_ok p addr \<Longrightarrow> addr \<noteq> ''any'' \<Longrightarrow> addr \<noteq> ''all''
     \<Longrightarrow> network_bind_ipv4 p addr b = (Inl EINVAL, [])"
  by (simp add: network_bind_ipv4_def)

end
