(* ===== verification/Client_Proto.thy ===== *)
theory Client_Proto
  imports Server_Types Network
begin

text \<open>
  The client's side of the protocols: \<^verbatim>\<open>src/client/client-v1.c\<close>,
  \<^verbatim>\<open>src/client/client-v2.c\<close>, the error functions of \<^verbatim>\<open>src/client/error.c\<close> and
  the structures of \<^verbatim>\<open>src/client/internal.h\<close> and \<^verbatim>\<open>src/client/remctl.h\<close>.

  The remctl struct extends the connection of theory \<open>Tokens\<close>, whose scripts
  describe the socket the struct holds at the moment. A descriptor is a number
  and \<open>INVALID_SOCKET\<close> is None; \<open>closes\<close> records the calls of \<open>socket_close\<close>.
  Error messages that end in a system or GSS-API message keep the code instead.
  Memory allocation succeeds.
\<close>

subsection \<open>Data\<close>

datatype remctl_output_type = REMCTL_OUT_OUTPUT | REMCTL_OUT_STATUS | REMCTL_OUT_ERROR | REMCTL_OUT_DONE

record remctl_output =
  out_type :: remctl_output_type
  out_data :: bytes
  out_stream :: int
  out_status :: int
  out_error :: int

datatype error_text =
    Err string
  | Err_errno string errno
  | Err_gssapi string gss_status

text \<open>What \<open>getaddrinfo\<close> returns, one entry per call.\<close>

datatype dial = Unknown_host string | Addresses "attempt list"

record 'c remctl = "'c chan" +
  host :: "string option"
  port :: nat
  principal :: "string option"
  r_protocol :: nat
  source :: "string option"
  r_timeout :: int
  ccache :: "string option"
  fd :: "nat option"
  has_context :: bool
  r_error :: "error_text option"
  r_output :: "remctl_output option"
  r_status :: int
  ready :: bool
  krb_ctx :: bool
  krb_ccache :: "string option"
  closes :: "nat list"
  dials :: "dial list"

subsection \<open>Errors\<close>

definition internal_set_error :: "error_text \<Rightarrow> ('c, 'z) remctl_scheme \<Rightarrow> ('c, 'z) remctl_scheme" where
  "internal_set_error e r = r\<lparr>r_error := Some e\<rparr>"

definition internal_gssapi_error ::
  "string \<Rightarrow> gss_status \<Rightarrow> ('c, 'z) remctl_scheme \<Rightarrow> ('c, 'z) remctl_scheme" where
  "internal_gssapi_error e st r = r\<lparr>r_error := Some (Err_gssapi e st)\<rparr>"

definition internal_token_error ::
  "string \<Rightarrow> token_status \<Rightarrow> ('c, 'z) remctl_scheme \<Rightarrow> ('c, 'z) remctl_scheme" where
  "internal_token_error e status r =
     (case status of
        TOKEN_OK \<Rightarrow> internal_set_error (Err (''error '' @ e)) r
      | TOKEN_FAIL_SYSTEM \<Rightarrow> internal_set_error (Err_errno (''error '' @ e) (socket_errno r)) r
      | TOKEN_FAIL_SOCKET \<Rightarrow> internal_set_error (Err_errno (''error '' @ e) (socket_errno r)) r
      | TOKEN_FAIL_INVALID \<Rightarrow> internal_set_error (Err (''error '' @ e @ '': invalid token format'')) r
      | TOKEN_FAIL_LARGE \<Rightarrow> internal_set_error (Err (''error '' @ e @ '': token too larger'')) r
      | TOKEN_FAIL_EOF \<Rightarrow> internal_set_error (Err (''error '' @ e @ '': unexpected end of file'')) r
      | TOKEN_FAIL_GSSAPI \<Rightarrow> internal_gssapi_error e (gss_error r) r
      | TOKEN_FAIL_TIMEOUT \<Rightarrow> internal_set_error (Err (''error '' @ e @ '': timed out'')) r)"

text \<open>\<open>internal_output_wipe\<close> leaves every field zero and the type \<open>REMCTL_OUT_DONE\<close>.\<close>

definition internal_output_wipe :: remctl_output where
  "internal_output_wipe =
     \<lparr>out_type = REMCTL_OUT_DONE, out_data = [], out_stream = 0, out_status = 0, out_error = 0\<rparr>"

text \<open>\<open>socket_close\<close> on the descriptor of the struct.\<close>

definition socket_close :: "('c, 'z) remctl_scheme \<Rightarrow> ('c, 'z) remctl_scheme" where
  "socket_close r = (case fd r of None \<Rightarrow> r | Some n \<Rightarrow> r\<lparr>closes := closes r @ [n]\<rparr>)"

subsection \<open>Protocol one\<close>

text \<open>The length of the message, or None when its computation would overflow.\<close>

primrec v1_length :: "bytes list \<Rightarrow> nat \<Rightarrow> nat option" where
  "v1_length [] len = Some len"
| "v1_length (a # as) len =
     (if len \<ge> size_sub (size_sub SIZE_MAX 4) (length a) then None
      else v1_length as (len + (4 + length a)))"

primrec v1_arguments :: "bytes list \<Rightarrow> bytes \<Rightarrow> bytes option" where
  "v1_arguments [] p = Some p"
| "v1_arguments (a # as) p =
     (if length a > UINT32_MAX then None
      else v1_arguments as (p @ put_u32 (word_of_nat (length a)) @ a))"

definition internal_v1_commandv ::
  "'c gss \<Rightarrow> bytes list \<Rightarrow> ('c, 'z) remctl_scheme \<Rightarrow> bool \<times> ('c, 'z) remctl_scheme" where
  "internal_v1_commandv g argv r =
     (if length argv > UINT32_MAX
      then (False, internal_set_error (Err ''too many arguments to command'') r)
      else case v1_length argv 4 of
        None \<Rightarrow> (False, internal_set_error (Err ''memory allocation too large'') r)
      | Some _ \<Rightarrow>
          (case v1_arguments argv (put_u32 (word_of_nat (length argv))) of
             None \<Rightarrow> (False, internal_set_error (Err ''command component too long'') r)
           | Some token \<Rightarrow>
               (case token_send_priv g (TOKEN_DATA OR TOKEN_SEND_MIC) token (r_timeout r) r of
                  (status, r1) \<Rightarrow>
                    if status \<noteq> TOKEN_OK then (False, internal_token_error ''sending token'' status r1)
                    else (True, r1\<lparr>ready := True\<rparr>))))"

text \<open>Closing the connection: delete the context, close the socket, expect nothing more.\<close>

definition v1_hang_up :: "('c, 'z) remctl_scheme \<Rightarrow> ('c, 'z) remctl_scheme" where
  "v1_hang_up r = (socket_close r)\<lparr>has_context := False, fd := None, ready := False\<rparr>"

text \<open>
  Reading the answer. The fields \<open>status\<close> and \<open>error\<close> of the new output are not
  initialised by the code, and nothing reads them for this type; they are 0 here.
\<close>

definition v1_read_output ::
  "'c gss \<Rightarrow> ('c, 'z) remctl_scheme \<Rightarrow> remctl_output option \<times> ('c, 'z) remctl_scheme" where
  "v1_read_output g r =
     (case token_recv_priv g TOKEN_MAX_LENGTH (r_timeout r) r of
        (Inl status, r1) \<Rightarrow>
          let r2 = internal_token_error ''receiving token'' status r1
          in (None, if status = TOKEN_FAIL_EOF \<or> status = TOKEN_FAIL_TIMEOUT then v1_hang_up r2 else r2)
      | (Inr (flags, token), r1) \<Rightarrow>
          if flags \<noteq> TOKEN_DATA
          then (None, internal_set_error (Err ''unexpected token from server'') r1)
          else if length token < 8
          then (None, internal_set_error (Err ''malformed result token from server'') r1)
          else
            let r2 = r1\<lparr>r_status := sint (get_u32 token)\<rparr>; len = unat (get_u32 (drop 4 token))
            in if len \<noteq> length token - 8
               then (None, internal_set_error (Err ''malformed result token from server'') r2)
               else
                 let out = \<lparr>out_type = REMCTL_OUT_OUTPUT, out_data = drop 8 token, out_stream = 1,
                            out_status = 0, out_error = 0\<rparr>
                 in (Some out, v1_hang_up (r2\<lparr>r_output := Some out\<rparr>)))"

definition internal_v1_output ::
  "'c gss \<Rightarrow> ('c, 'z) remctl_scheme \<Rightarrow> remctl_output option \<times> ('c, 'z) remctl_scheme" where
  "internal_v1_output g r =
     (case r_output r of
        Some out \<Rightarrow>
          if \<not> ready r then
            let out1 = (if out_type out = REMCTL_OUT_STATUS then out\<lparr>out_type := REMCTL_OUT_DONE\<rparr>
                        else internal_output_wipe\<lparr>out_type := REMCTL_OUT_STATUS\<rparr>);
                out2 = out1\<lparr>out_status := r_status r\<rparr>
            in (Some out2, r\<lparr>r_output := Some out2\<rparr>)
          else v1_read_output g r
      | None \<Rightarrow> v1_read_output g r)"

subsection \<open>Protocol two: sending\<close>

text \<open>
  \<open>fill_token\<close> is the inner loop of \<open>internal_v2_commandv\<close>: as much of the
  arguments as fits in the \<open>left\<close> octets of the token. \<open>offset\<close> is how much of
  the first argument was sent before; the result is what remains, the new offset,
  the room left and the octets written. None is the error of an argument too long.
\<close>

primrec fill_token ::
  "bytes list \<Rightarrow> nat \<Rightarrow> nat \<Rightarrow> bytes \<Rightarrow> (bytes list \<times> nat \<times> nat \<times> bytes) option" where
  "fill_token [] offset left p = Some ([], offset, left, p)"
| "fill_token (a # as) offset left p =
     (if offset = 0 \<and> (left < 4 \<or> (left < 5 \<and> length a > 0)) then Some (a # as, offset, left, p)
      else if offset = 0 \<and> length a > UINT32_MAX then None
      else
        let p1 = (if offset = 0 then p @ put_u32 (word_of_nat (length a)) else p);
            left1 = (if offset = 0 then left - 4 else left);
            delta = (if left1 \<ge> length a - offset then length a - offset else left1);
            p2 = p1 @ take delta (drop offset a);
            offset2 = offset + delta;
            left2 = left1 - delta
        in if offset2 < length a then Some (a # as, offset2, left2, p2)
           else fill_token as 0 left2 p2)"

text \<open>
  One round: the header, the argument count in the first token, the arguments.
  \<open>cap\<close> is the size of the buffer; storing the count past it is undefined.
  \<open>conveyed\<close> is the variable \<open>sent\<close>.
\<close>

datatype v2_built = Built bytes "bytes list" nat nat | Too_long

definition v2_build :: "nat \<Rightarrow> nat \<Rightarrow> nat \<Rightarrow> bytes list \<Rightarrow> nat \<Rightarrow> fault + v2_built" where
  "v2_build count len conveyed args offset =
     (let cap = (if len - conveyed > TOKEN_MAX_DATA - 4 then TOKEN_MAX_DATA else len - conveyed + 4);
          left = cap - 4;
          cont = (if cap = len - conveyed + 4 then (if conveyed = 0 then 0 else 3)
                  else (if conveyed = 0 then 1 else 2));
          header = [CHR 0x02, char_of MESSAGE_COMMAND, CHR 0x01, char_of (cont :: nat)]
      in if conveyed = 0 \<and> left < 4 then Inl Undefined
         else
           let p = (if conveyed = 0 then header @ put_u32 (word_of_nat count) else header);
               left1 = (if conveyed = 0 then left - 4 else left)
           in case fill_token args offset left1 p of
                None \<Rightarrow> Inr Too_long
              | Some (args1, offset1, left2, token) \<Rightarrow>
                  Inr (Built token args1 offset1 (conveyed + (length token - 4))))"

function v2_send_loop ::
  "'c gss \<Rightarrow> nat \<Rightarrow> nat \<Rightarrow> nat \<Rightarrow> bytes list \<Rightarrow> nat \<Rightarrow> ('c, 'z) remctl_scheme
     \<Rightarrow> fault + bool \<times> ('c, 'z) remctl_scheme" where
  "v2_send_loop g count len conveyed args offset r =
     (if \<not> conveyed < len then Inr (True, r\<lparr>ready := True\<rparr>)
      else ebind (v2_build count len conveyed args offset) (\<lambda>b.
        case b of
          Too_long \<Rightarrow> Inr (False, internal_set_error (Err ''command component too long'') r)
        | Built token args1 offset1 conveyed1 \<Rightarrow>
            (case token_send_priv g (TOKEN_DATA OR TOKEN_PROTOCOL) token (r_timeout r) r of
               (status, r1) \<Rightarrow>
                 if status \<noteq> TOKEN_OK
                 then Inr (False, internal_token_error ''sending token'' status r1)
                 else v2_send_loop g count len conveyed1 args1 offset1 r1)))"
  by pat_completeness auto
termination
  by (relation "measure (\<lambda>(g, count, len, conveyed, args, offset, r). length (wr r))")
     (auto dest!: sym [of "(_, _)"] token_send_priv_spends)

declare v2_send_loop.simps [simp del]

text \<open>The length of the message, in \<open>size_t\<close>: 4 for the count and 4 for each length.\<close>

definition v2_length :: "bytes list \<Rightarrow> nat" where
  "v2_length argv = foldl (\<lambda>len a. size_add len (size_add 4 (length a))) 4 argv"

definition internal_v2_commandv ::
  "'c gss \<Rightarrow> bytes list \<Rightarrow> ('c, 'z) remctl_scheme \<Rightarrow> fault + bool \<times> ('c, 'z) remctl_scheme" where
  "internal_v2_commandv g argv r =
     (if length argv > UINT32_MAX
      then Inr (False, internal_set_error (Err ''too many arguments to command'') r)
      else v2_send_loop g (length argv) (v2_length argv) 0 argv 0 r)"

definition internal_v2_quit ::
  "'c gss \<Rightarrow> ('c, 'z) remctl_scheme \<Rightarrow> bool \<times> ('c, 'z) remctl_scheme" where
  "internal_v2_quit g r =
     (case token_send_priv g (TOKEN_DATA OR TOKEN_PROTOCOL) [CHR 0x02, char_of MESSAGE_QUIT] (r_timeout r) r of
        (status, r1) \<Rightarrow>
          if status \<noteq> TOKEN_OK then (False, internal_token_error ''sending QUIT token'' status r1)
          else (True, r1))"

subsection \<open>Protocol two: receiving\<close>

text \<open>
  On a lost connection the code deletes the context, which sets it to
  \<open>GSS_C_NO_CONTEXT\<close>, and closes the socket; \<open>ready\<close> is left as it is.
\<close>

definition internal_v2_read_token ::
  "'c gss \<Rightarrow> ('c, 'z) remctl_scheme \<Rightarrow> bytes option \<times> ('c, 'z) remctl_scheme" where
  "internal_v2_read_token g r =
     (case token_recv_priv g TOKEN_MAX_LENGTH (r_timeout r) r of
        (Inl status, r1) \<Rightarrow>
          let r2 = internal_token_error ''receiving token'' status r1
          in (None, if status = TOKEN_FAIL_EOF \<or> status = TOKEN_FAIL_TIMEOUT
                    then (socket_close r2)\<lparr>has_context := False, fd := None\<rparr> else r2)
      | (Inr (flags, token), r1) \<Rightarrow>
          if flags \<noteq> TOKEN_DATA OR TOKEN_PROTOCOL
          then (None, internal_set_error (Err ''unexpected token from server'') r1)
          else if length token < 2
          then (None, internal_set_error (Err ''malformed result token from server'') r1)
          else if schar (token ! 0) \<noteq> 2 \<and> schar (token ! 0) \<noteq> 3
          then (None, internal_set_error (Err (''unexpected protocol '' @ show_int (schar (token ! 0))
                                               @ '' from server'')) r1)
          else (Some token, r1))"

text \<open>The string whose length is at \<open>offset\<close>, when it fills the rest of the token.\<close>

definition internal_v2_read_string :: "bytes \<Rightarrow> nat \<Rightarrow> bytes option" where
  "internal_v2_read_string token offset =
     (if unat (get_u32 (drop offset token)) \<noteq> length token - (offset + 4) then None
      else Some (drop (offset + 4) token))"

text \<open>
  What a message of the server is turned into: the output, and whether more is
  to be expected (\<open>ready\<close>); or an error, and what the output struct holds then.
\<close>

definition v2_decode :: "bytes \<Rightarrow> (remctl_output \<times> bool) + (error_text \<times> remctl_output)" where
  "v2_decode token =
     (let wiped = internal_output_wipe;
          malformed = Err ''malformed result token from server'';
          mtype = schar (token ! 1)
      in if mtype = int MESSAGE_OUTPUT then
           if length token < 2 + 5 then Inr (malformed, wiped)
           else
             let out = wiped\<lparr>out_type := REMCTL_OUT_OUTPUT\<rparr>; p2 = schar (token ! 2)
             in if p2 \<noteq> 1 \<and> p2 \<noteq> 2
                then Inr (Err (''unexpected stream '' @ show_int (schar (token ! 0)) @ '' from server''), out)
                else (case internal_v2_read_string token 3 of
                        None \<Rightarrow> Inr (malformed, out\<lparr>out_stream := p2\<rparr>)
                      | Some d \<Rightarrow> Inl (out\<lparr>out_stream := p2, out_data := d\<rparr>, True))
         else if mtype = int MESSAGE_STATUS then
           if length token \<noteq> 2 + 1 then Inr (malformed, wiped)
           else Inl (wiped\<lparr>out_type := REMCTL_OUT_STATUS, out_status := schar (token ! 2)\<rparr>, False)
         else if mtype = int MESSAGE_ERROR then
           if length token < 2 + 8 then Inr (malformed, wiped)
           else
             let out = wiped\<lparr>out_type := REMCTL_OUT_ERROR, out_error := sint (get_u32 (drop 2 token))\<rparr>
             in (case internal_v2_read_string token 6 of
                   None \<Rightarrow> Inr (malformed, out)
                 | Some d \<Rightarrow> Inl (out\<lparr>out_data := d\<rparr>, False))
         else Inr (Err (''unknown message type '' @ show_int mtype @ '' from server''), wiped))"

definition internal_v2_output ::
  "'c gss \<Rightarrow> ('c, 'z) remctl_scheme \<Rightarrow> remctl_output option \<times> ('c, 'z) remctl_scheme" where
  "internal_v2_output g r =
     (let r1 = r\<lparr>r_output := Some internal_output_wipe\<rparr>
      in if \<not> ready r1 then (Some internal_output_wipe, r1)
         else case internal_v2_read_token g r1 of
           (None, r2) \<Rightarrow> (None, r2)
         | (Some token, r2) \<Rightarrow>
             (case v2_decode token of
                Inl (out, again) \<Rightarrow>
                  (Some out, r2\<lparr>r_output := Some out, ready := (ready r2 \<and> again)\<rparr>)
              | Inr (e, out) \<Rightarrow> (None, internal_set_error e (r2\<lparr>r_output := Some out\<rparr>))))"

definition internal_noop ::
  "'c gss \<Rightarrow> ('c, 'z) remctl_scheme \<Rightarrow> bool \<times> ('c, 'z) remctl_scheme" where
  "internal_noop g r =
     (case token_send_priv g (TOKEN_DATA OR TOKEN_PROTOCOL) [CHR 0x03, char_of MESSAGE_NOOP] (r_timeout r) r of
        (status, r1) \<Rightarrow>
          if status \<noteq> TOKEN_OK then (False, internal_token_error ''sending NOOP token'' status r1)
          else case internal_v2_read_token g r1 of
            (None, r2) \<Rightarrow> (False, r2)
          | (Some token, r2) \<Rightarrow>
              if schar (token ! 1) \<noteq> int MESSAGE_NOOP
              then (False, internal_set_error (Err (''unexpected message type '' @ show_int (schar (token ! 1))
                                                    @ '' from server'')) r2)
              else (True, r2))"

end
