(* ===== verification/Client_Server.thy ===== *)
theory Client_Server
  imports Messages Client_Proto
begin

text \<open>
  Client and server together. The client cuts a command into tokens
  (\<open>internal_v2_commandv\<close>) and the server puts it together again
  (\<open>server_v2_handle_command\<close>); the server encodes its answers and the client
  decodes them (\<open>internal_v2_output\<close>, \<open>internal_v1_output\<close>). The two sides are
  joined by the octets on the wire and by a GSS-API context that unwraps what the
  other end wrapped.
\<close>

subsection \<open>The tokens of a command\<close>

definition command_header :: "nat \<Rightarrow> bytes" where
  "command_header cont = [CHR 0x02, char_of MESSAGE_COMMAND, CHR 0x01, char_of cont]"

fun part_tokens :: "bool \<Rightarrow> bytes list \<Rightarrow> bytes list" where
  "part_tokens first [] = []"
| "part_tokens first [p] = [command_header (if first then 0 else 3) @ p]"
| "part_tokens first (p # q # ps) =
     (command_header (if first then 1 else 2) @ p) # part_tokens False (q # ps)"

text \<open>What is still to be sent: the arguments, less \<open>offset\<close> octets and the length of the first.\<close>

definition pending :: "bytes list \<Rightarrow> nat \<Rightarrow> bytes" where
  "pending args offset =
     (if offset = 0 then concat (map encode_arg args)
      else drop offset (hd args) @ concat (map encode_arg (tl args)))"

definition place_ok :: "bytes list \<Rightarrow> nat \<Rightarrow> bool" where
  "place_ok args offset \<longleftrightarrow> offset = 0 \<or> args \<noteq> [] \<and> offset < length (hd args)"

lemma pending_Nil [simp]: "pending [] 0 = []"
  by (simp add: pending_def)

lemma pending_empty: "place_ok args offset \<Longrightarrow> pending args offset = [] \<longleftrightarrow> args = []"
  by (cases args) (auto simp: pending_def place_ok_def encode_arg_def)

definition stops :: "nat \<Rightarrow> nat \<Rightarrow> bytes \<Rightarrow> bool" where
  "stops offset left a \<longleftrightarrow> offset = 0 \<and> (left < 4 \<or> (left < 5 \<and> length a > 0))"

lemma fill_token_Cons:
  fixes a :: bytes and offset left :: nat
  defines "h \<equiv> (if offset = 0 then put_u32 (word_of_nat (length a)) else [])"
  defines "d \<equiv> min (left - length h) (length a - offset)"
  assumes "fill_token (a # as) offset left p = Some res"
  shows "(if stops offset left a then res = (a # as, offset, left, p)
          else length h \<le> left \<and>
            (if offset + d < length a
             then res = (a # as, offset + d, left - length h - d, p @ h @ take d (drop offset a))
             else fill_token as 0 (left - length h - d) (p @ h @ take d (drop offset a)) = Some res))"
  using assms(3) unfolding h_def d_def stops_def
  by (cases "offset = 0") (auto simp: Let_def min_def split: if_splits)

lemma take_then_drop: "take d (drop n xs) @ drop (n + d) xs = drop n xs"
  by (metis append_take_drop_id drop_drop add.commute)

lemma fill_token_split:
  assumes "fill_token args offset left p = Some (args1, offset1, left1, p1)" "place_ok args offset"
  shows "place_ok args1 offset1 \<and>
    (\<exists>e. p1 = p @ e \<and> length e + left1 = left \<and> pending args offset = e @ pending args1 offset1)"
  using assms
proof (induction args arbitrary: offset left p)
  case Nil
  then show ?case by (auto simp: place_ok_def)
next
  case (Cons a as)
  define h where "h = (if offset = 0 then put_u32 (word_of_nat (length a)) else [])"
  define d where "d = min (left - length h) (length a - offset)"
  note step = fill_token_Cons [OF Cons.prems(1), folded h_def, folded d_def]
  have off: "offset \<le> length a" using Cons.prems(2) by (auto simp: place_ok_def)
  have d: "d \<le> left - length h" "d \<le> length a - offset" by (simp_all add: d_def)
  have pend: "pending (a # as) offset = h @ drop offset a @ concat (map encode_arg as)"
    by (simp add: pending_def encode_arg_def h_def)
  consider (stop) "stops offset left a"
    | (cut) "\<not> stops offset left a" "offset + d < length a"
    | (all) "\<not> stops offset left a" "\<not> offset + d < length a"
    by blast
  then show ?case
  proof cases
    case stop
    then show ?thesis using step by (auto simp: place_ok_def stops_def)
  next
    case cut
    then have r: "args1 = a # as" "offset1 = offset + d" "left1 = left - length h - d"
      "p1 = p @ h @ take d (drop offset a)" and h: "length h \<le> left"
      using step by simp_all
    have pos: "0 < offset + d" using cut by (auto simp: d_def h_def min_def stops_def)
    have "pending args1 offset1 = drop (offset + d) a @ concat (map encode_arg as)"
      using pos r by (auto simp: pending_def)
    then have "pending (a # as) offset = (h @ take d (drop offset a)) @ pending args1 offset1"
      unfolding pend using take_then_drop [of d offset a] by simp
    moreover have "length (h @ take d (drop offset a)) + left1 = left" using r(3) h d off by simp
    moreover have "place_ok args1 offset1" using r cut by (simp add: place_ok_def)
    ultimately show ?thesis using r(4) by (intro conjI exI [of _ "h @ take d (drop offset a)"]) simp_all
  next
    case all
    then have dd: "d = length a - offset" using d off by simp
    with all step have rec: "fill_token as 0 (left - length h - d) (p @ h @ drop offset a)
        = Some (args1, offset1, left1, p1)" and h: "length h \<le> left" by simp_all
    from Cons.IH [OF rec] obtain e where
      i: "place_ok args1 offset1" "p1 = (p @ h @ drop offset a) @ e"
        "length e + left1 = left - length h - d" "pending as 0 = e @ pending args1 offset1"
      by (auto simp: place_ok_def)
    have "pending (a # as) offset = (h @ drop offset a @ e) @ pending args1 offset1"
      unfolding pend using i(4) by (simp add: pending_def)
    moreover have "length (h @ drop offset a @ e) + left1 = left" using i(3) dd d(1) h by simp
    ultimately show ?thesis
      using i(1,2) by (intro conjI exI [of _ "h @ drop offset a @ e"]) simp_all
  qed
qed

text \<open>The token takes everything that fits, and with room for five octets it takes something.\<close>

lemma fill_token_all:
  assumes "fill_token args offset left p = Some (args1, offset1, left1, p1)" "place_ok args offset"
    and "length (pending args offset) \<le> left"
  shows "args1 = []"
  using assms
proof (induction args arbitrary: offset left p)
  case (Cons a as)
  define h where "h = (if offset = 0 then put_u32 (word_of_nat (length a)) else [])"
  define d where "d = min (left - length h) (length a - offset)"
  note step = fill_token_Cons [OF Cons.prems(1), folded h_def, folded d_def]
  have off: "offset \<le> length a" using Cons.prems(2) by (auto simp: place_ok_def)
  have len: "length h + (length a - offset) + length (concat (map encode_arg as)) \<le> left"
    using Cons.prems(3) by (auto simp: pending_def h_def)
  then have d: "d = length a - offset" by (simp add: d_def)
  have "\<not> stops offset left a"
    using len by (cases a) (auto simp: h_def stops_def)
  with step d off have "fill_token as 0 (left - length h - d) (p @ h @ take d (drop offset a))
      = Some (args1, offset1, left1, p1)" by simp
  from Cons.IH [OF this] show ?case using len d by (simp add: place_ok_def pending_def)
qed auto

lemma fill_token_some:
  assumes "fill_token args offset left p = Some (args1, offset1, left1, p1)" "place_ok args offset"
    and "args \<noteq> []" "5 \<le> left"
  shows "left1 < left"
proof -
  obtain a as where a: "args = a # as" using assms(3) by (cases args) auto
  define h where "h = (if offset = 0 then put_u32 (word_of_nat (length a)) else [])"
  define d where "d = min (left - length h) (length a - offset)"
  note step = fill_token_Cons [OF assms(1) [unfolded a], folded h_def, folded d_def]
  have pos: "0 < length h + d"
    using assms(2,4) a by (auto simp: h_def d_def place_ok_def)
  show ?thesis
  proof (cases "offset + d < length a")
    case True
    then show ?thesis using step pos assms(4) by (auto simp: stops_def split: if_splits)
  next
    case False
    with step assms(4) have rec: "fill_token as 0 (left - length h - d) (p @ h @ take d (drop offset a))
        = Some (args1, offset1, left1, p1)" "length h \<le> left" by (auto simp: stops_def)
    from fill_token_split [OF rec(1)] have "left1 \<le> left - length h - d" by (auto simp: place_ok_def)
    with pos rec(2) assms(4) show ?thesis by linarith
  qed
qed


text \<open>
  One round of the sending loop. \<open>to_send\<close> is all that is left to convey; the
  round takes a non-empty part off its front, and marks the part as the last
  exactly when nothing is left.
\<close>

definition to_send :: "nat \<Rightarrow> nat \<Rightarrow> bytes list \<Rightarrow> nat \<Rightarrow> bytes" where
  "to_send argc conveyed args offset =
     (if conveyed = 0 then put_u32 (word_of_nat argc) else []) @ pending args offset"

definition sending_ok :: "nat \<Rightarrow> nat \<Rightarrow> nat \<Rightarrow> bytes list \<Rightarrow> nat \<Rightarrow> bool" where
  "sending_ok argc len conveyed args offset \<longleftrightarrow>
     place_ok args offset \<and> len = conveyed + length (to_send argc conveyed args offset)"

lemma v2_build_part:
  assumes ok: "sending_ok argc len conveyed args offset" "conveyed < len"
    and b: "v2_build argc len conveyed args offset = Inr (Built token args1 offset1 conveyed1)"
  obtains part where "token = command_header (if args1 = [] then (if conveyed = 0 then 0 else 3)
                                              else (if conveyed = 0 then 1 else 2)) @ part"
    "part \<noteq> []" "4 + length part \<le> TOKEN_MAX_DATA" "conveyed1 = conveyed + length part"
    "to_send argc conveyed args offset = part @ to_send argc conveyed1 args1 offset1"
    "sending_ok argc len conveyed1 args1 offset1"
proof -
  let ?cap = "if len - conveyed > TOKEN_MAX_DATA - 4 then TOKEN_MAX_DATA else len - conveyed + 4"
  let ?cont = "if ?cap = len - conveyed + 4 then (if conveyed = 0 then 0 else 3)
               else (if conveyed = 0 then 1 else 2) :: nat"
  define n where "n = (if conveyed = 0 then put_u32 (word_of_nat argc) else [])"
  define lft where "lft = ?cap - 4 - length n"
  have M: "TOKEN_MAX_DATA = 65536" by (simp add: TOKEN_MAX_DATA_def)
  have room: "length n + lft = ?cap - 4" "length n + length (pending args offset) = len - conveyed"
    using ok M by (auto simp: lft_def n_def sending_ok_def to_send_def)
  from b obtain left2 where
    f: "fill_token args offset lft (command_header ?cont @ n) = Some (args1, offset1, left2, token)"
    and c1: "conveyed1 = conveyed + (length token - 4)"
    unfolding v2_build_def Let_def lft_def n_def command_header_def
    by (auto split: if_splits option.splits)
  have pl: "place_ok args offset" using ok by (simp add: sending_ok_def)
  from fill_token_split [OF f pl] obtain e where
    e: "place_ok args1 offset1" "token = command_header ?cont @ n @ e" "length e + left2 = lft"
      "pending args offset = e @ pending args1 offset1" by auto
  have last: "?cap = len - conveyed + 4 \<longleftrightarrow> args1 = []"
  proof
    assume "?cap = len - conveyed + 4"
    then show "args1 = []" using fill_token_all [OF f pl] room by simp
  next
    assume "args1 = []"
    then have "pending args offset = e" using e pending_empty [OF e(1)] by simp
    then show "?cap = len - conveyed + 4" using room e(3) M by (auto split: if_splits)
  qed
  have ne: "n @ e \<noteq> []"
  proof (cases "conveyed = 0")
    case False
    then have "n = []" by (simp add: n_def)
    with room ok(2) have "pending args offset \<noteq> []" by auto
    with pending_empty [OF pl] have "args \<noteq> []" by simp
    show ?thesis
    proof (cases "args1 = []")
      case True
      then show ?thesis using e(4) \<open>pending args offset \<noteq> []\<close> pending_empty [OF e(1)] by auto
    next
      case False
      then have "5 \<le> lft" using last M \<open>n = []\<close> room by (auto split: if_splits)
      from fill_token_some [OF f pl \<open>args \<noteq> []\<close> this] e(3) show ?thesis by auto
    qed
  qed (simp add: n_def)
  have len: "length token = 4 + length (n @ e)" using e(2) by (simp add: command_header_def)
  have pos: "0 < conveyed1" using c1 len ne by simp
  have st: "to_send argc conveyed args offset = (n @ e) @ to_send argc conveyed1 args1 offset1"
    using e(4) pos by (simp add: to_send_def n_def)
  show thesis
  proof (rule that [of "n @ e"])
    show "token = command_header (if args1 = [] then (if conveyed = 0 then 0 else 3)
            else (if conveyed = 0 then 1 else 2)) @ n @ e"
      using e(2) last by simp
    show "4 + length (n @ e) \<le> TOKEN_MAX_DATA" using room e(3) M by (auto split: if_splits)
    show "conveyed1 = conveyed + length (n @ e)" using c1 len by simp
    show "sending_ok argc len conveyed1 args1 offset1"
      using ok e(1) st c1 len by (simp add: sending_ok_def)
  qed (use ne st in auto)
qed


subsection \<open>The stream on the wire\<close>

text \<open>\<open>wraps g x toks x1 bs\<close>: from context \<open>x\<close>, the tokens \<open>toks\<close> become the octets \<open>bs\<close>.\<close>

primrec wraps :: "'c gss \<Rightarrow> 'c \<Rightarrow> bytes list \<Rightarrow> 'c \<Rightarrow> bytes \<Rightarrow> bool" where
  "wraps g x [] x1 bs \<longleftrightarrow> x1 = x \<and> bs = []"
| "wraps g x (t # ts) x1 bs \<longleftrightarrow>
     (\<exists>y w bs1. gss_wrap g x t = (y, Inr w) \<and> wraps g y ts x1 bs1
        \<and> bs = token_frame (TOKEN_DATA OR TOKEN_PROTOCOL) w @ bs1)"

text \<open>The loop sends the stream as the tokens of its parts.\<close>

lemma v2_send_loop_parts:
  "v2_send_loop g argc len conveyed args offset r = Inr (True, r1) \<Longrightarrow>
   sending_ok argc len conveyed args offset \<Longrightarrow>
   \<exists>parts bs. concat parts = to_send argc conveyed args offset \<and> [] \<notin> set parts
     \<and> (\<forall>p \<in> set parts. 4 + length p \<le> TOKEN_MAX_DATA)
     \<and> wraps g (context_id r) (part_tokens (conveyed = 0) parts) (context_id r1) bs
     \<and> sent r1 = sent r @ bs"
proof (induction g argc len conveyed args offset r rule: v2_send_loop.induct)
  case (1 g argc len conveyed args offset r)
  note ok = "1.prems"(2)
  show ?case
  proof (cases "conveyed < len")
    case False
    then have "to_send argc conveyed args offset = []" using ok by (simp add: sending_ok_def)
    moreover have "r1 = r\<lparr>ready := True\<rparr>"
      using False "1.prems"(1) by (simp add: v2_send_loop.simps [of g argc len conveyed args offset r])
    ultimately show ?thesis by (intro exI [of _ "[]"]) simp
  next
    case True
    note step = "1.prems"(1) [unfolded v2_send_loop.simps [of g argc len conveyed args offset r]]
    from step True obtain token args1 offset1 conveyed1 where
      b: "v2_build argc len conveyed args offset = Inr (Built token args1 offset1 conveyed1)"
      by (cases "v2_build argc len conveyed args offset")
         (auto split: v2_built.split_asm prod.split_asm if_split_asm)
    obtain status r2 where
      snd: "token_send_priv g (TOKEN_DATA OR TOKEN_PROTOCOL) token (r_timeout r) r = (status, r2)"
      by fastforce
    with step True b have st: "status = TOKEN_OK" and
      rest: "v2_send_loop g argc len conveyed1 args1 offset1 r2 = Inr (True, r1)"
      by (auto split: if_split_asm)
    note snd = snd [unfolded st]
    from v2_build_part [OF ok True b] obtain part where
      part: "token = command_header (if args1 = [] then (if conveyed = 0 then 0 else 3)
               else (if conveyed = 0 then 1 else 2)) @ part"
        "part \<noteq> []" "4 + length part \<le> TOKEN_MAX_DATA" "conveyed1 = conveyed + length part"
        "to_send argc conveyed args offset = part @ to_send argc conveyed1 args1 offset1"
        "sending_ok argc len conveyed1 args1 offset1" by metis
    have "\<not> \<not> conveyed < len" using True by simp
    from "1.IH" [OF this b refl snd [symmetric] _ rest part(6)] obtain parts bs where
      ih: "concat parts = to_send argc conveyed1 args1 offset1" "[] \<notin> set parts"
        "\<forall>p \<in> set parts. 4 + length p \<le> TOKEN_MAX_DATA"
        "wraps g (context_id r2) (part_tokens (conveyed1 = 0) parts) (context_id r1) bs"
        "sent r1 = sent r2 @ bs" by auto
    from token_send_priv_wraps [OF snd mic_flags(1)] obtain w where
      w: "gss_wrap g (context_id r) token = (context_id r2, Inr w)"
        "sent r2 = sent r @ token_frame (TOKEN_DATA OR TOKEN_PROTOCOL) w" by blast
    have c1: "conveyed1 \<noteq> 0" using part(2,4) by simp
    have "place_ok args1 offset1" using part(6) by (simp add: sending_ok_def)
    from pending_empty [OF this] c1 ih(1,2) have e: "parts = [] \<longleftrightarrow> args1 = []"
      by (cases parts) (auto simp: to_send_def)
    have "part_tokens (conveyed = 0) (part # parts) = token # part_tokens False parts"
      using part(1) e by (cases parts) auto
    then have "wraps g (context_id r) (part_tokens (conveyed = 0) (part # parts)) (context_id r1)
        (token_frame (TOKEN_DATA OR TOKEN_PROTOCOL) w @ bs)"
      using w(1) ih(4) c1 by auto
    then show ?thesis
      using part ih w(2)
      by (intro exI [of _ "part # parts"] exI [of _ "token_frame (TOKEN_DATA OR TOKEN_PROTOCOL) w @ bs"]) auto
  qed
qed

lemma v2_length_exact:
  assumes "length (encode_command argv) < 2 ^ 64"
  shows "v2_length argv = length (encode_command argv)"
proof -
  have "n + length (concat (map encode_arg as)) < 2 ^ 64 \<Longrightarrow>
      foldl (\<lambda>len a. size_add len (size_add 4 (length a))) n as = n + length (concat (map encode_arg as))" for n as
    by (induction as arbitrary: n) auto
  with assms show ?thesis by (simp add: v2_length_def encode_command_def)
qed

lemma internal_v2_commandv_parts:
  assumes "internal_v2_commandv g argv r = Inr (True, r1)" "length (encode_command argv) < 2 ^ 64"
  shows "\<exists>parts bs. concat parts = encode_command argv \<and> [] \<notin> set parts
     \<and> (\<forall>p \<in> set parts. 4 + length p \<le> TOKEN_MAX_DATA)
     \<and> wraps g (context_id r) (part_tokens True parts) (context_id r1) bs \<and> sent r1 = sent r @ bs"
proof -
  have s: "to_send (length argv) 0 argv 0 = encode_command argv"
    by (simp add: to_send_def encode_command_def pending_def)
  have "sending_ok (length argv) (v2_length argv) 0 argv 0"
    using v2_length_exact [OF assms(2)] by (simp add: sending_ok_def s place_ok_def)
  from v2_send_loop_parts [OF _ this, of g r r1] assms(1) show ?thesis
    by (auto simp: internal_v2_commandv_def s split: if_splits)
qed


subsection \<open>The server reads what was sent\<close>

text \<open>
  \<open>linked g R x c ts x1 rest\<close>: the server side \<open>c\<close> is about to receive the tokens
  \<open>ts\<close>, sent from context \<open>x\<close> and leaving it as \<open>x1\<close>, followed by \<open>rest\<close>.
\<close>

definition linked ::
  "'c gss \<Rightarrow> ('c \<Rightarrow> 'c \<Rightarrow> bool) \<Rightarrow> 'c \<Rightarrow> ('c, 'z) chan_scheme \<Rightarrow> bytes list \<Rightarrow> 'c \<Rightarrow> bytes \<Rightarrow> bool" where
  "linked g R x c ts x1 rest \<longleftrightarrow>
     R x (context_id c) \<and> calm c \<and> (\<exists>bs. wraps g x ts x1 bs \<and> incoming (rd c) = bs @ rest)"

lemma linked_keepalive [simp]:
  "linked g R x (c\<lparr>keepalive := b\<rparr>) ts x1 rest = linked g R x c ts x1 rest"
  for c :: "('c, 'z) client_scheme"
  by (simp add: linked_def calm_def)

lemma read_linked:
  fixes c :: "('c, 'z) client_scheme"
  assumes g: "gss_sealed g R ov" and l: "linked g R x c (t # ts) x1 rest"
    and len: "length t + ov \<le> TOKEN_MAX_LENGTH"
  shows "\<exists>y c1. server_v2_read_token g c = Inr (Inr t, c1) \<and> linked g R y c1 ts x1 rest
           \<and> chan.more c1 = chan.more c \<and> sent c1 = sent c \<and> wr c1 = wr c"
proof -
  from l obtain y w bs1 where w: "gss_wrap g x t = (y, Inr w)" "wraps g y ts x1 bs1"
    "incoming (rd c) = token_frame (TOKEN_DATA OR TOKEN_PROTOCOL) w @ bs1 @ rest"
    and c: "R x (context_id c)" "calm c" by (auto simp: linked_def)
  from recv_wrapped [OF g c(1) w(1) mic_flags(1) len _ c(2) _ w(3), of TIMEOUT] obtain c1 where
    "token_recv_priv g TOKEN_MAX_LENGTH TIMEOUT c = (Inr (TOKEN_DATA OR TOKEN_PROTOCOL, t), c1)"
    "R y (context_id c1)" "calm c1" "incoming (rd c1) = bs1 @ rest" "chan.more c1 = chan.more c" "sent c1 = sent c" "wr c1 = wr c"
    by (auto simp: TOKEN_MAX_LENGTH_def TIMEOUT_def)
  with w(2) show ?thesis by (auto simp: server_v2_read_token_def linked_def)
qed

lemma length_command_header [simp]: "length (command_header cont) = 4"
  by (simp add: command_header_def)

lemma schar_small: "n < 128 \<Longrightarrow> schar (char_of (n :: nat)) = int n"
  unfolding schar_def of_nat_of_char [symmetric, where ?'a = int] by simp

lemma schar_literal: "schar (CHR 0x01) = 1" "schar (CHR 0x02) = 2"
  by (simp_all add: schar_def)

lemma octet_header [simp]:
  "octet (command_header cont @ p) 0 = Inr 2" "octet (command_header cont @ p) (Suc 0) = Inr 1"
  "octet (command_header cont @ p) 2 = Inr 1"
  "cont < 128 \<Longrightarrow> octet (command_header cont @ p) 3 = Inr (int cont)"
  "drop 4 (command_header cont @ p) = p"
  by (simp_all add: octet_def command_header_def schar_small MESSAGE_COMMAND_def schar_literal)

lemma continuation_linked:
  fixes c :: "('c, 'z) client_scheme"
  assumes g: "gss_sealed g R ov" and l: "linked g R x c ((command_header cont @ p) # ts) x1 rest"
    and len: "4 + length p + ov \<le> TOKEN_MAX_LENGTH"
  shows "\<exists>y c1. server_v2_read_continuation g c = Inr (Some (command_header cont @ p), c1)
           \<and> linked g R y c1 ts x1 rest \<and> chan.more c1 = chan.more c \<and> sent c1 = sent c \<and> wr c1 = wr c"
proof -
  from read_linked [OF g l] len obtain y c1 where
    "server_v2_read_token g c = Inr (Inr (command_header cont @ p), c1)" "linked g R y c1 ts x1 rest"
    "chan.more c1 = chan.more c" "sent c1 = sent c" "wr c1 = wr c" by auto
  then show ?thesis
    by (auto simp: server_v2_read_continuation_def message_types)
qed


subsection \<open>Reassembly\<close>

lemma v2_command_part_single:
  assumes "4 + length p \<le> TOKEN_MAX_DATA" "length p < COMMAND_MAX_DATA"
  shows "v2_command_part g (command_header 0 @ p) None False c = Inr (Done (In_token p), c\<lparr>keepalive := True\<rparr>)"
  using assms by (auto simp: v2_command_part_def Let_def command_total_def COMMAND_MAX_DATA_def)

lemma v2_command_part_last:
  assumes "4 + length p \<le> TOKEN_MAX_DATA" "length b + length p < COMMAND_MAX_DATA" "b @ p \<noteq> []"
  shows "v2_command_part g (command_header 3 @ p) (Some b) True c
           = Inr (Done (In_buffer (b @ p)), c\<lparr>keepalive := True\<rparr>)"
  using assms by (auto simp: v2_command_part_def Let_def command_total_def grown_def COMMAND_MAX_DATA_def)

lemma v2_command_part_next:
  fixes c :: "('c, 'z) client_scheme"
  assumes g: "gss_sealed g R ov" and l: "linked g R x c ((command_header cont @ q) # ts) x1 rest"
    and len: "4 + length q + ov \<le> TOKEN_MAX_LENGTH"
    and p: "4 + length p \<le> TOKEN_MAX_DATA" "command_total buffer + length p < COMMAND_MAX_DATA"
  shows "\<exists>y c1. v2_command_part g (command_header (if buffer = None then 1 else 2) @ p) buffer (buffer \<noteq> None) c
             = Inr (Next (command_header cont @ q) (grown buffer p), c1)
           \<and> linked g R y c1 ts x1 rest \<and> chan.more c1 = chan.more (c\<lparr>keepalive := True\<rparr>) \<and> sent c1 = sent c \<and> wr c1 = wr c"
proof -
  from continuation_linked [OF g _ len, of x "c\<lparr>keepalive := True\<rparr>" cont ts x1 rest] l
  obtain y c1 where r: "server_v2_read_continuation g (c\<lparr>keepalive := True\<rparr>)
      = Inr (Some (command_header cont @ q), c1)"
    "linked g R y c1 ts x1 rest" "chan.more c1 = chan.more (c\<lparr>keepalive := True\<rparr>)" "sent c1 = sent c" "wr c1 = wr c"
    by auto
  have "\<not> size_sub COMMAND_MAX_DATA (command_total buffer) \<le> length p"
    using p(2) by (simp add: COMMAND_MAX_DATA_def)
  with r p(1) show ?thesis by (cases buffer) (auto simp: v2_command_part_def Let_def)
qed

lemma chan_more_keepalive:
  fixes c c1 c2 :: "('c, 'z) client_scheme"
  assumes "chan.more c1 = chan.more (c\<lparr>keepalive := b\<rparr>)" "chan.more c2 = chan.more (c1\<lparr>keepalive := b\<rparr>)"
  shows "chan.more c2 = chan.more (c\<lparr>keepalive := b\<rparr>)"
  using assms by (cases c; cases c1; cases c2) simp

lemma v2_command_loop_more:
  fixes c :: "('c, 'z) client_scheme"
  assumes g: "gss_sealed g R ov" and ov: "TOKEN_MAX_DATA + ov \<le> TOKEN_MAX_LENGTH"
  shows "linked g R x c ts x1 rest \<Longrightarrow> part_tokens False (p # ps) = tok # ts \<Longrightarrow> b \<noteq> [] \<Longrightarrow>
    \<forall>q \<in> set (p # ps). q \<noteq> [] \<and> 4 + length q \<le> TOKEN_MAX_DATA \<Longrightarrow>
    length b + length (concat (p # ps)) < COMMAND_MAX_DATA \<Longrightarrow>
    \<exists>y c1. v2_command_loop g tok (Some b) True c = Inr ((In_buffer (b @ concat (p # ps)), True), c1)
      \<and> linked g R y c1 [] x1 rest \<and> chan.more c1 = chan.more (c\<lparr>keepalive := True\<rparr>) \<and> sent c1 = sent c \<and> wr c1 = wr c"
proof (induction ps arbitrary: p b c x tok ts)
  case Nil
  then have tok: "tok = command_header 3 @ p" "ts = []" by auto
  have "v2_command_part g tok (Some b) True c = Inr (Done (In_buffer (b @ p)), c\<lparr>keepalive := True\<rparr>)"
    unfolding tok(1) by (rule v2_command_part_last) (use Nil.prems in auto)
  then show ?case
    using Nil.prems(1) tok(2)
    by (intro exI [of _ x] exI [of _ "c\<lparr>keepalive := True\<rparr>"])
       (simp add: v2_command_loop.simps [of g tok "Some b" True c])
next
  case (Cons q ps)
  obtain tok1 ts1 where t1: "part_tokens False (q # ps) = tok1 # ts1" by (cases ps) auto
  then obtain cont where tok1: "tok1 = command_header cont @ q" by (cases ps) auto
  have tok: "tok = command_header 2 @ p" "ts = tok1 # ts1" using Cons.prems(2) t1 by auto
  have l: "linked g R x c ((command_header cont @ q) # ts1) x1 rest"
    using Cons.prems(1) tok(2) tok1 by simp
  have "4 + length q + ov \<le> TOKEN_MAX_LENGTH" using Cons.prems(4) ov by auto
  from v2_command_part_next [OF g l this, of p "Some b"] Cons.prems(4,5) obtain y c1 where
    n: "v2_command_part g tok (Some b) True c = Inr (Next tok1 (Some (b @ p)), c1)"
      "linked g R y c1 ts1 x1 rest" "chan.more c1 = chan.more (c\<lparr>keepalive := True\<rparr>)" "sent c1 = sent c" "wr c1 = wr c"
    using Cons.prems(3) by (auto simp: tok tok1 grown_def command_total_def)
  from Cons.IH [OF n(2) t1, of "b @ p"] Cons.prems obtain y2 c2 where
    r: "v2_command_loop g tok1 (Some (b @ p)) True c1 = Inr ((In_buffer ((b @ p) @ concat (q # ps)), True), c2)"
      "linked g R y2 c2 [] x1 rest" "chan.more c2 = chan.more (c1\<lparr>keepalive := True\<rparr>)" "sent c2 = sent c1" "wr c2 = wr c1"
    by auto
  show ?case
    using r n(1,4,5) chan_more_keepalive [OF n(3) r(3)]
    by (auto simp: v2_command_loop.simps [of g tok "Some b" True c])
qed


text \<open>The first token and all that follow: the loop returns the parts put together again.\<close>

lemma v2_command_loop_parts:
  fixes c :: "('c, 'z) client_scheme"
  assumes g: "gss_sealed g R ov" and ov: "TOKEN_MAX_DATA + ov \<le> TOKEN_MAX_LENGTH"
    and l: "linked g R x c ts x1 rest" and t: "part_tokens True parts = tok # ts"
    and ok: "[] \<notin> set parts" "\<forall>q \<in> set parts. 4 + length q \<le> TOKEN_MAX_DATA"
      "length (concat parts) < COMMAND_MAX_DATA"
  shows "\<exists>y c1. v2_command_loop g tok None False c
             = Inr (if length parts = 1 then (In_token (concat parts), False)
                    else (In_buffer (concat parts), True), c1)
           \<and> linked g R y c1 [] x1 rest \<and> chan.more c1 = chan.more (c\<lparr>keepalive := True\<rparr>) \<and> sent c1 = sent c \<and> wr c1 = wr c"
proof (cases "(True, parts)" rule: part_tokens.cases)
  case (2 first p)
  then have tok: "tok = command_header 0 @ p" "ts = []" "parts = [p]" using t by auto
  have "v2_command_part g tok None False c = Inr (Done (In_token p), c\<lparr>keepalive := True\<rparr>)"
    unfolding tok(1) by (rule v2_command_part_single) (use ok tok(3) in auto)
  then show ?thesis
    using l tok by (intro exI [of _ x] exI [of _ "c\<lparr>keepalive := True\<rparr>"])
      (simp add: v2_command_loop.simps [of g "command_header 0 @ p" None False c])
next
  case (3 first p q ps)
  then have parts: "parts = p # q # ps" by simp
  obtain tok1 ts1 where t1: "part_tokens False (q # ps) = tok1 # ts1" by (cases ps) auto
  then obtain cont where tok1: "tok1 = command_header cont @ q" by (cases ps) auto
  have tok: "tok = command_header 1 @ p" "ts = tok1 # ts1" using t t1 parts by auto
  have l': "linked g R x c ((command_header cont @ q) # ts1) x1 rest" using l tok(2) tok1 by simp
  have "4 + length q + ov \<le> TOKEN_MAX_LENGTH" using ok ov parts by auto
  from v2_command_part_next [OF g l' this, of p None] ok parts obtain y c1 where
    n: "v2_command_part g tok None False c = Inr (Next tok1 (Some p), c1)"
      "linked g R y c1 ts1 x1 rest" "chan.more c1 = chan.more (c\<lparr>keepalive := True\<rparr>)" "sent c1 = sent c" "wr c1 = wr c"
    by (auto simp: tok tok1 grown_def command_total_def)
  from v2_command_loop_more [OF g ov n(2) t1, of p] ok parts obtain y2 c2 where
    r: "v2_command_loop g tok1 (Some p) True c1 = Inr ((In_buffer (p @ concat (q # ps)), True), c2)"
      "linked g R y2 c2 [] x1 rest" "chan.more c2 = chan.more (c1\<lparr>keepalive := True\<rparr>)" "sent c2 = sent c1" "wr c2 = wr c1"
    by auto
  show ?thesis
    using r n(1,4,5) parts chan_more_keepalive [OF n(3) r(3)]
    by (auto simp: v2_command_loop.simps [of g tok None False c])
qed (use t in auto)

lemma part_tokens_first:
  assumes "parts \<noteq> []"
  obtains cont p ts where "part_tokens True parts = (command_header cont @ p) # ts" "p = hd parts"
  using assms by (cases "(True, parts)" rule: part_tokens.cases) auto

text \<open>The client's command, delivered: what the server reads is what the client was given.\<close>

lemma command_delivered:
  fixes c :: "('c, 'z) server_scheme"
  assumes "internal_v2_commandv g argv r = Inr (True, r1)"
    and "command_ok argv" "length (encode_command argv) < COMMAND_MAX_DATA"
    and "gss_sealed g R ov" "TOKEN_MAX_DATA + ov \<le> TOKEN_MAX_LENGTH"
    and "R (context_id r) (context_id c)" "calm c"
    and "sent r @ incoming (rd c) = sent r1 @ rest"
  shows "\<exists>token c1 c2. server_v2_read_token g c = Inr (Inr token, c1)
     \<and> server_v2_handle_token g depth env rs token c1
         = ebind (server_run_command g depth env rs argv c2) (\<lambda>(_, c3). Inr (\<not> fatal c3, c3))
     \<and> ident c2 = ident c \<and> spawned c2 = spawned c \<and> keepalive c2
     \<and> calm c2 \<and> incoming (rd c2) = rest \<and> R (context_id r1) (context_id c2)
     \<and> sent c2 = sent c \<and> wr c2 = wr c \<and> fatal c2 = fatal c \<and> procs c2 = procs c"
proof -
  have "length (encode_command argv) < 2 ^ 64" using assms(3) by (simp add: COMMAND_MAX_DATA_def)
  from internal_v2_commandv_parts [OF assms(1) this] obtain parts bs where
    p: "concat parts = encode_command argv" "[] \<notin> set parts"
      "\<forall>p \<in> set parts. 4 + length p \<le> TOKEN_MAX_DATA"
      "wraps g (context_id r) (part_tokens True parts) (context_id r1) bs" "sent r1 = sent r @ bs"
    by blast
  have "parts \<noteq> []" using p(1) by (auto simp: encode_command_def)
  then obtain cont q ts where t: "part_tokens True parts = (command_header cont @ q) # ts" "q = hd parts"
    by (rule part_tokens_first)
  have l: "linked g R (context_id r) c ((command_header cont @ q) # ts) (context_id r1) rest"
    using p(4,5) t assms(6-8) by (auto simp: linked_def)
  have "q \<in> set parts" using t(2) \<open>parts \<noteq> []\<close> by simp
  with p(3) assms(5) have "length (command_header cont @ q) + ov \<le> TOKEN_MAX_LENGTH" by auto
  from read_linked [OF assms(4) l this] obtain y c1 where
    rd: "server_v2_read_token g c = Inr (Inr (command_header cont @ q), c1)"
      "linked g R y c1 ts (context_id r1) rest" "chan.more c1 = chan.more c" "sent c1 = sent c" "wr c1 = wr c" by blast
  from v2_command_loop_parts [OF assms(4,5) rd(2) t(1) p(2,3)] p(1) assms(3) obtain y2 c2 where
    lp: "v2_command_loop g (command_header cont @ q) None False c1
          = Inr (if length parts = 1 then (In_token (encode_command argv), False)
                 else (In_buffer (encode_command argv), True), c2)"
      "linked g R y2 c2 [] (context_id r1) rest" "chan.more c2 = chan.more (c1\<lparr>keepalive := True\<rparr>)"
      "sent c2 = sent c1" "wr c2 = wr c1" by auto
  have "server_v2_handle_token g depth env rs (command_header cont @ q) c1
      = ebind (server_run_command g depth env rs argv c2) (\<lambda>(_, c3). Inr (\<not> fatal c3, c3))"
    using lp(1) parse_command_encode [OF assms(2), of g c2]
    by (auto simp: server_v2_handle_token_def server_v2_handle_command_def MESSAGE_COMMAND_def Let_def)
  moreover have "ident c2 = ident c \<and> spawned c2 = spawned c \<and> keepalive c2 \<and> procs c2 = procs c"
    using chan_more_ident [OF rd(3)] chan_more_ident [OF lp(3)]
    by (auto simp: srv_core_def dest!: srv_core_more)
  moreover have "fatal c2 = fatal c" using rd(3) lp(3) by (cases c; cases c1; cases c2) simp
  ultimately show ?thesis using rd(1,4,5) lp(2,4,5) by (auto simp: linked_def)
qed

subsection \<open>Properties\<close>

text \<open>
  C3: a command sent by the client library is the command the server runs. If
  \<open>internal_v2_commandv\<close> reports success for \<open>argv\<close>, then a server that is linked
  to the client by a GSS-API context and receives what was put on the wire, in
  chunks of any size, reads a token whose handling is to run exactly \<open>argv\<close>, for
  the same client, with the rest of the stream untouched, however many tokens the
  client had to cut the command into.
\<close>

theorem command_end_to_end:
  fixes c :: "('c, 'z) server_scheme"
  assumes "internal_v2_commandv g argv r = Inr (True, r1)"
    and "command_ok argv" "length (encode_command argv) < COMMAND_MAX_DATA"
    and "gss_sealed g R ov" "TOKEN_MAX_DATA + ov \<le> TOKEN_MAX_LENGTH"
    and "R (context_id r) (context_id c)" "calm c"
    and "sent r @ incoming (rd c) = sent r1 @ rest"
  shows "\<exists>token c1 c2. server_v2_read_token g c = Inr (Inr token, c1)
     \<and> server_v2_handle_token g depth env rs token c1
         = ebind (server_run_command g depth env rs argv c2) (\<lambda>(_, c3). Inr (\<not> fatal c3, c3))
     \<and> ident c2 = ident c \<and> spawned c2 = spawned c \<and> keepalive c2
     \<and> calm c2 \<and> incoming (rd c2) = rest \<and> R (context_id r1) (context_id c2)"
  using command_delivered [OF assms, of depth env rs] by blast

definition demo_remctl :: "nat remctl" where
  "demo_remctl = chan.extend demo_chan
     \<lparr>host = Some ''h'', port = 0, principal = None, r_protocol = 2, source = None, r_timeout = 0,
      ccache = None, fd = Some 3, has_context = True, r_error = None, r_output = None, r_status = 0,
      ready = False, krb_ctx = False, krb_ccache = None, closes = [], dials = []\<rparr>"

lemma demo_remctl_simps [simp]:
  "sel demo_remctl = []" "rd demo_remctl = []" "wr demo_remctl = []" "clock demo_remctl = []"
  "sent demo_remctl = []" "context_id demo_remctl = 0" "r_timeout demo_remctl = 0"
  by (simp_all add: demo_remctl_def demo_chan_def chan.extend_def idle_def sock.extend_def)

definition demo_sent :: "nat remctl" where
  "demo_sent = demo_remctl\<lparr>context_id := 1, ready := True,
     sent := token_frame (TOKEN_DATA OR TOKEN_PROTOCOL)
               (CHR ''#'' # command_header 0 @ encode_command [''test'', ''x''])\<rparr>"

lemma demo_commandv_reading:
  "internal_v2_commandv demo_gss [''test'', ''x''] (demo_remctl\<lparr>rd := q, wr := [Wr_Room 100]\<rparr>)
     = Inr (True, demo_sent\<lparr>rd := q\<rparr>)"
proof -
  let ?argv = "[''test'', ''x'']" and ?r = "demo_remctl\<lparr>rd := q, wr := [Wr_Room 100]\<rparr>"
  have len: "v2_length ?argv = 17" by (simp add: v2_length_def)
  have e: "encode_command ?argv = put_u32 2 @ put_u32 4 @ ''test'' @ put_u32 1 @ ''x''"
    by (simp add: encode_command_def encode_arg_def)
  have b: "v2_build 2 17 0 ?argv 0 = Inr (Built (command_header 0 @ encode_command ?argv) [] 0 17)"
    by (simp add: v2_build_def Let_def TOKEN_MAX_DATA_def UINT32_MAX_def command_header_def e)
  have "token_send_priv demo_gss (TOKEN_DATA OR TOKEN_PROTOCOL) (command_header 0 @ encode_command ?argv) 0 ?r
      = (TOKEN_OK, ?r\<lparr>context_id := 1, wr := [],
           sent := token_frame (TOKEN_DATA OR TOKEN_PROTOCOL) (CHR ''#'' # command_header 0 @ encode_command ?argv)\<rparr>)"
    by (subst demo_send_priv [where k = 100 and r = "[]"]) (simp_all add: TOKEN_MAX_DATA_def e)
  moreover have "\<not> UINT32_MAX < Suc (Suc 0)" by (simp add: UINT32_MAX_def)
  ultimately show ?thesis
    using b by (simp add: internal_v2_commandv_def len v2_send_loop.simps [of _ _ _ 0]
        v2_send_loop.simps [of _ _ _ 17] demo_sent_def numeral_2_eq_2)
qed

lemma demo_commandv:
  "internal_v2_commandv demo_gss [''test'', ''x''] (demo_remctl\<lparr>wr := [Wr_Room 100]\<rparr>) = Inr (True, demo_sent)"
proof -
  have "demo_remctl\<lparr>rd := [], wr := w\<rparr> = demo_remctl\<lparr>wr := w\<rparr>" "demo_sent\<lparr>rd := []\<rparr> = demo_sent" for w
    by (simp_all add: demo_sent_def demo_remctl_def demo_chan_def chan.extend_def idle_def sock.extend_def)
  then show ?thesis using demo_commandv_reading [of "[]"] by metis
qed

theorem command_end_to_end_witness:
  "\<exists>token c1 c2. server_v2_read_token demo_gss (demo_server\<lparr>rd := [Rd_Data (sent demo_sent)]\<rparr>) = Inr (Inr token, c1)
     \<and> server_v2_handle_token demo_gss 3 demo_env [demo_anyuser] token c1
         = ebind (server_run_command demo_gss 3 demo_env [demo_anyuser] [''test'', ''x''] c2)
             (\<lambda>(_, c3). Inr (\<not> fatal c3, c3))
     \<and> spawned c2 = [] \<and> keepalive c2 \<and> incoming (rd c2) = []"
proof -
  let ?c = "demo_server\<lparr>rd := [Rd_Data (sent demo_sent)]\<rparr>"
  have s: "sent demo_sent \<noteq> []" by (simp add: demo_sent_def)
  have "command_ok [''test'', ''x'']" by (simp add: command_ok_def COMMAND_MAX_ARGS_def)
  moreover have "length (encode_command [''test'', ''x'']) < COMMAND_MAX_DATA"
    by (simp add: encode_command_def COMMAND_MAX_DATA_def)
  moreover have "context_id demo_server = 0"
    by (simp add: demo_server_def client.extend_def demo_client_def chan.extend_def demo_chan_def sock.extend_def)
  ultimately show ?thesis
    using command_end_to_end [OF demo_commandv, where c = ?c and ov = 1 and R = "(=)" and rest = "[]" and depth = 3
        and env = demo_env and rs = "[demo_anyuser]"] demo_sealed s
    by (auto simp: calm_def TOKEN_MAX_DATA_def TOKEN_MAX_LENGTH_def)
qed

subsection \<open>The answers\<close>

lemma schar_byte: "0 \<le> st \<Longrightarrow> st \<le> 255 \<Longrightarrow> schar (char_of (nat st)) = (if st < 128 then st else st - 256)"
  unfolding schar_def of_nat_of_char [symmetric, where ?'a = int] by (auto simp: nat_less_iff)

lemma decode_output:
  assumes "stream \<in> {1, 2}" "length bs < 2 ^ 32"
  shows "v2_decode (v2_output_payload stream bs)
    = Inl (internal_output_wipe\<lparr>out_type := REMCTL_OUT_OUTPUT, out_stream := int stream, out_data := bs\<rparr>, True)"
proof -
  let ?t = "v2_output_payload stream bs"
  have t: "?t = [char_of (2::nat), char_of MESSAGE_OUTPUT, char_of stream] @ put_u32 (word_of_nat (length bs)) @ bs"
    by (simp add: v2_output_payload_def)
  have "drop 3 ?t = put_u32 (word_of_nat (length bs)) @ bs" "drop 7 ?t = bs" "length ?t = 7 + length bs"
    unfolding t by simp_all
  moreover have "schar (?t ! 1) = 3" "schar (?t ! 2) = int stream"
    using assms(1) unfolding t by (auto simp: schar_small message_types)
  ultimately show ?thesis
    using assms by (auto simp: v2_decode_def Let_def message_types internal_v2_read_string_def)
qed

lemma decode_status:
  assumes "0 \<le> st" "st \<le> 255"
  shows "v2_decode (v2_status_payload st)
    = Inl (internal_output_wipe\<lparr>out_type := REMCTL_OUT_STATUS,
             out_status := (if st < 128 then st else st - 256)\<rparr>, False)"
proof -
  have t: "v2_status_payload st = [char_of (2::nat), char_of MESSAGE_STATUS, char_of (nat st)]"
    using assms by (simp add: v2_status_payload_def)
  show ?thesis
    unfolding t v2_decode_def Let_def using schar_byte [OF assms] by (simp add: schar_small message_types)
qed

lemma decode_error:
  assumes "length m < 2 ^ 32"
  shows "v2_decode (v2_error_payload code m)
    = Inl (internal_output_wipe\<lparr>out_type := REMCTL_OUT_ERROR, out_error := int (error_number code),
             out_data := m\<rparr>, False)"
proof -
  let ?t = "v2_error_payload code m"
  have t: "?t = [char_of (2::nat), char_of MESSAGE_ERROR] @ put_u32 (word_of_nat (error_number code))
      @ put_u32 (word_of_nat (length m)) @ m"
    by (simp add: v2_error_payload_def)
  have "drop 2 ?t = put_u32 (word_of_nat (error_number code)) @ put_u32 (word_of_nat (length m)) @ m"
    "drop 6 ?t = put_u32 (word_of_nat (length m)) @ m" "drop 10 ?t = m" "length ?t = 10 + length m"
    unfolding t by simp_all
  moreover have "schar (?t ! 1) = 5" unfolding t by (simp add: schar_small message_types)
  moreover have "sint (word_of_nat (error_number code) :: u32) = int (error_number code)"
    by (cases code) simp_all
  ultimately show ?thesis
    using assms by (simp add: v2_decode_def Let_def message_types internal_v2_read_string_def)
qed

text \<open>
  The client decodes each answer of the server into what the server meant:
  the output and its stream, the exit status, the error code and message.
  Exit statuses from 128 on arrive as the negative number with the same octet,
  because the client reads the octet as a signed char.
\<close>

theorem v2_answers_decoded:
  assumes "stream \<in> {1, 2}" "length bs < 2 ^ 32" "0 \<le> st" "st \<le> 255" "length m < 2 ^ 32"
  shows "v2_decode (v2_output_payload stream bs)
       = Inl (internal_output_wipe\<lparr>out_type := REMCTL_OUT_OUTPUT, out_stream := int stream, out_data := bs\<rparr>, True)
   \<and> v2_decode (v2_status_payload st)
       = Inl (internal_output_wipe\<lparr>out_type := REMCTL_OUT_STATUS,
                out_status := (if st < 128 then st else st - 256)\<rparr>, False)
   \<and> v2_decode (v2_error_payload code m)
       = Inl (internal_output_wipe\<lparr>out_type := REMCTL_OUT_ERROR, out_error := int (error_number code),
                out_data := m\<rparr>, False)"
  using decode_output [OF assms(1,2)] decode_status [OF assms(3,4)] decode_error [OF assms(5)] by blast

theorem v2_answers_decoded_witness:
  "v2_decode (v2_output_payload 1 ''hi'')
       = Inl (internal_output_wipe\<lparr>out_type := REMCTL_OUT_OUTPUT, out_stream := 1, out_data := ''hi''\<rparr>, True)
   \<and> v2_decode (v2_status_payload 200)
       = Inl (internal_output_wipe\<lparr>out_type := REMCTL_OUT_STATUS, out_status := -56\<rparr>, False)"
  using v2_answers_decoded [of 1 "''hi''" 200 "''no''" ERROR_ACCESS] by simp

end
