(* ===== verification/Handshake.thy ===== *)
theory Handshake
  imports Messages
begin

text \<open>
  Accepting a connection: \<open>server_new_client\<close> and \<open>server_free_client\<close> of
  \<^verbatim>\<open>src/server/generic.c\<close> and \<open>handle_connection\<close> of \<^verbatim>\<open>src/server/remctld.c\<close>.

  The acceptor's side of GSS-API is a parameter, a record of its calls with the
  credentials of the server fixed. The peer's addresses are what \<open>getpeername\<close>
  and \<open>getnameinfo\<close> report.
\<close>

subsection \<open>The library\<close>

datatype gss_major = GSS_S_COMPLETE | GSS_S_CONTINUE_NEEDED | GSS_S_OTHER gss_status

record 'c gss_step =
  step_major :: gss_major
  step_context :: 'c
  step_token :: bytes
  step_flags :: u32

record ('c, 'n) accepted = "'c gss_step" +
  src_name :: 'n
  time_rec :: int

record ('c, 'n) acceptor =
  no_context :: 'c
  accept_sec_context :: "'c \<Rightarrow> bytes \<Rightarrow> ('c, 'n) accepted"
  display_name :: "'n \<Rightarrow> gss_status + bytes \<times> bool"
  delete_sec_context :: "'c \<Rightarrow> gss_major"

definition GSS_C_MUTUAL_FLAG :: u32 where "GSS_C_MUTUAL_FLAG = 2"
definition GSS_C_CONF_FLAG :: u32 where "GSS_C_CONF_FLAG = 16"
definition GSS_C_INTEG_FLAG :: u32 where "GSS_C_INTEG_FLAG = 32"

definition req_gss_flags :: u32 where
  "req_gss_flags = GSS_C_MUTUAL_FLAG OR GSS_C_CONF_FLAG OR GSS_C_INTEG_FLAG"

datatype peer = No_peer errno | Peer "string + string" "string option"

subsection \<open>Operations\<close>

text \<open>The negotiation loop; None is a failure, which has been logged.\<close>

definition context_flags :: "nat \<Rightarrow> u8" where
  "context_flags proto = (if proto > 1 then TOKEN_CONTEXT OR TOKEN_PROTOCOL else TOKEN_CONTEXT)"

definition accept_token ::
  "('c, 'n) acceptor \<Rightarrow> bytes \<Rightarrow> ('c, 'z) client_scheme
     \<Rightarrow> ('c, 'n) accepted option \<times> ('c, 'z) client_scheme" where
  "accept_token a tok c =
     (let r = accept_sec_context a (context_id c) tok;
          c1 = c\<lparr>context_id := step_context r, ctx_flags := step_flags r\<rparr>;
          (status, c2) = (if step_token r \<noteq> []
                          then token_send (context_flags (protocol c1)) (step_token r) TIMEOUT c1
                          else (TOKEN_OK, c1))
      in if status \<noteq> TOKEN_OK then (None, warn_token ''sending context token'' status c2)
         else case step_major r of
                GSS_S_OTHER e \<Rightarrow> (None, log_msg (Log_gssapi Warn ''while accepting context'' e) c2)
              | _ \<Rightarrow> (Some r, c2))"

definition context_token ::
  "('c, 'z) client_scheme \<Rightarrow> bytes option \<times> ('c, 'z) client_scheme" where
  "context_token c =
     (case token_recv TOKEN_MAX_LENGTH TIMEOUT c of
        (Inl status, c1) \<Rightarrow> (None, warn_token ''receiving context token'' status c1)
      | (Inr (flags, tok), c1) \<Rightarrow>
          if flags = TOKEN_CONTEXT then (Some tok, c1\<lparr>protocol := 1\<rparr>)
          else if flags \<noteq> TOKEN_CONTEXT OR TOKEN_PROTOCOL
          then (None, warn (''bad token flags '' @ show_nat (unat flags) @ '' in context token'') c1)
          else (Some tok, c1))"

lemma waiting_negotiation [simp]:
  "waiting (c\<lparr>protocol := p\<rparr>) = waiting c" "waiting (c\<lparr>ctx_flags := f\<rparr>) = waiting c"
  "waiting (warn_token m st c) = waiting c"
  for c :: "('c, 'z) client_scheme"
  using warn_token_is_log [of m st c] by (auto simp: waiting_def)

lemma context_token_waiting: "context_token c = (Some tok, c1) \<Longrightarrow> waiting c1 < waiting c"
  by (auto simp: context_token_def split: prod.split_asm sum.split_asm if_split_asm
      dest: token_recv_ok_waiting)

lemma accept_token_waiting: "accept_token a tok c = (r, c1) \<Longrightarrow> waiting c1 = waiting c"
  by (auto simp: accept_token_def Let_def split: prod.split_asm if_split_asm gss_major.split_asm
      dest!: token_send_waiting)

function negotiate ::
  "('c, 'n) acceptor \<Rightarrow> ('c, 'z) client_scheme
     \<Rightarrow> ('c, 'n) accepted option \<times> ('c, 'z) client_scheme" where
  "negotiate a c =
     (case context_token c of
        (None, c1) \<Rightarrow> (None, c1)
      | (Some tok, c1) \<Rightarrow>
          (case accept_token a tok c1 of
             (None, c2) \<Rightarrow> (None, c2)
           | (Some r, c2) \<Rightarrow>
               if step_major r = GSS_S_CONTINUE_NEEDED then negotiate a c2 else (Some r, c2)))"
  by pat_completeness auto
termination
  by (relation "measure (\<lambda>(a, c). waiting c)")
     (auto dest!: sym [of "(_, _)"] context_token_waiting accept_token_waiting)

declare negotiate.simps [simp del]

text \<open>\<open>xcalloc\<close> and the descriptor; the callbacks are set once the protocol is known.\<close>

definition fresh_client :: "('c, 'n) acceptor \<Rightarrow> ('c, 'z) client_scheme \<Rightarrow> ('c, 'z) client_scheme" where
  "fresh_client a c =
     c\<lparr>context_id := no_context a, protocol := 0, backend := V1, user := [], hostname := None,
       ipaddress := [], anonymous := False, ctx_flags := 0, expires := 0, keepalive := False,
       fatal := False\<rparr>"

definition peer_address :: "peer \<Rightarrow> ('c, 'z) client_scheme \<Rightarrow> bool \<times> ('c, 'z) client_scheme" where
  "peer_address peer c =
     (case peer of
        No_peer e \<Rightarrow> (False, log_msg (Log_errno Warn ''cannot get peer address'' e) c)
      | Peer (Inl e) _ \<Rightarrow> (False, syswarn (''cannot translate IP address of client: '' @ e) c)
      | Peer (Inr ip) name \<Rightarrow> (True, c\<lparr>ipaddress := ip, hostname := name\<rparr>))"

text \<open>The initial token chooses the protocol.\<close>

definition initial_token :: "('c, 'z) client_scheme \<Rightarrow> bool \<times> ('c, 'z) client_scheme" where
  "initial_token c =
     (case token_recv TOKEN_MAX_LENGTH TIMEOUT c of
        (Inl status, c1) \<Rightarrow> (False, warn_token ''receiving initial token'' status c1)
      | (Inr (flags, _), c1) \<Rightarrow>
          if flags = TOKEN_NOOP OR TOKEN_CONTEXT_NEXT OR TOKEN_PROTOCOL then (True, c1\<lparr>protocol := 2\<rparr>)
          else if flags = TOKEN_NOOP OR TOKEN_CONTEXT_NEXT then (True, c1\<lparr>protocol := 1\<rparr>)
          else (False, warn (''bad token flags '' @ show_nat (unat flags) @ '' in initial token'') c1))"

text \<open>The checks behind the loop, the callbacks and the client's name.\<close>

definition name_client ::
  "('c, 'n) acceptor \<Rightarrow> ('c, 'n) accepted \<Rightarrow> ('c, 'z) client_scheme \<Rightarrow> bool \<times> ('c, 'z) client_scheme" where
  "name_client a r c =
     (if protocol c > 1 \<and> ctx_flags c AND req_gss_flags \<noteq> req_gss_flags
      then (False, warn ''client did not negotiate appropriate GSS-API flags'' c)
      else
        let c1 = c\<lparr>backend := (if protocol c = 1 then V1 else V2)\<rparr>
        in case display_name a (src_name r) of
             Inl e \<Rightarrow> (False, log_msg (Log_gssapi Warn ''while displaying client name'' e) c1)
           | Inr (name, anon) \<Rightarrow>
               let (now, c2) = sys_time c1 0
               in (True, c2\<lparr>anonymous := anon, user := x_strndup name (length name),
                            expires := now + time_rec r\<rparr>))"

definition server_new_client ::
  "('c, 'n) acceptor \<Rightarrow> peer \<Rightarrow> ('c, 'z) client_scheme \<Rightarrow> bool \<times> ('c, 'z) client_scheme" where
  "server_new_client a peer c =
     (case peer_address peer (fresh_client a c) of
        (False, c1) \<Rightarrow> (False, c1)
      | (True, c1) \<Rightarrow>
          (case initial_token c1 of
             (False, c2) \<Rightarrow> (False, c2)
           | (True, c2) \<Rightarrow>
               (case negotiate a c2 of
                  (None, c3) \<Rightarrow> (False, c3)
                | (Some r, c3) \<Rightarrow> name_client a r c3)))"

definition server_free_client ::
  "('c, 'n) acceptor \<Rightarrow> nat \<Rightarrow> ('c, 'z) server_scheme \<Rightarrow> ('c, 'z) server_scheme" where
  "server_free_client a fd c =
     (let c1 = (case delete_sec_context a (context_id c) of
                  GSS_S_COMPLETE \<Rightarrow> c
                | GSS_S_CONTINUE_NEEDED \<Rightarrow> log_msg (Log_gssapi Warn ''while deleting context'' (1, 0)) c
                | GSS_S_OTHER e \<Rightarrow> log_msg (Log_gssapi Warn ''while deleting context'' e) c)
      in c1\<lparr>closed := closed c1 @ [fd]\<rparr>)"

definition handle_connection ::
  "'c gss \<Rightarrow> ('c, 'n) acceptor \<Rightarrow> nat \<Rightarrow> acl_env \<Rightarrow> rule list \<Rightarrow> peer \<Rightarrow> nat \<Rightarrow> ('c, 'z) server_scheme
     \<Rightarrow> fault + ('c, 'z) server_scheme" where
  "handle_connection g a depth env rs peer fd c =
     (case server_new_client a peer c of
        (False, c1) \<Rightarrow> Inr (c1\<lparr>closed := closed c1 @ [fd]\<rparr>)
      | (True, c1) \<Rightarrow>
          ebind (if protocol c1 = 1 then server_v1_handle_messages g depth env rs c1
                 else server_v2_handle_messages g depth env rs c1)
                (\<lambda>c2. Inr (server_free_client a fd c2)))"

subsection \<open>What the negotiation establishes\<close>

text \<open>
  \<open>at_most c c1\<close>: the client struct keeps its addresses and all that extends
  it, and the protocol is the same or has been lowered to one.
\<close>

definition at_most :: "('c, 'z) client_scheme \<Rightarrow> ('c, 'z) client_scheme \<Rightarrow> bool" where
  "at_most c c1 \<longleftrightarrow> client.more c1 = client.more c \<and> ipaddress c1 = ipaddress c
     \<and> hostname c1 = hostname c \<and> (protocol c1 = protocol c \<or> protocol c1 = 1)"

lemma at_most_refl [simp]: "at_most c c"
  by (simp add: at_most_def)

lemma at_most_trans [trans]: "at_most c c1 \<Longrightarrow> at_most c1 c2 \<Longrightarrow> at_most c c2"
  by (auto simp: at_most_def)

lemma at_most_log [simp]: "at_most c (log_msg e c1) \<longleftrightarrow> at_most c c1"
  "at_most c (warn_token m st c1) \<longleftrightarrow> at_most c c1"
  using warn_token_is_log [of m st c1] by (auto simp: at_most_def)

lemma warn_token_fields:
  "client.more (warn_token m st c) = client.more c" "ipaddress (warn_token m st c) = ipaddress c"
  "hostname (warn_token m st c) = hostname c"
  using warn_token_is_log [of m st c] by auto

lemma chan_more_at_most: "chan.more c1 = chan.more c \<Longrightarrow> at_most c c1"
  for c c1 :: "('c, 'z) client_scheme"
  by (drule chan_more_ident) (auto simp: at_most_def ident_def)

lemmas token_send_at_most = chan_more_at_most [OF conjunct1 [OF frames_more(1) [OF token_send_more]]]
lemmas token_recv_at_most = chan_more_at_most [OF conjunct1 [OF frames_more(2) [OF token_recv_more]]]

lemma context_token_at_most: "context_token c = (r, c1) \<Longrightarrow> at_most c c1"
  by (auto simp: context_token_def split: prod.split_asm sum.split_asm if_split_asm
      dest!: token_recv_at_most) (auto simp: at_most_def)

lemma accept_token_result:
  assumes "accept_token a tok c = (r, c1)"
  shows "at_most c c1 \<and> (\<forall>x. r = Some x \<longrightarrow> x = accept_sec_context a (context_id c) tok
     \<and> (step_major x = GSS_S_COMPLETE \<or> step_major x = GSS_S_CONTINUE_NEEDED)
     \<and> ctx_flags c1 = step_flags x \<and> context_id c1 = step_context x)"
proof -
  let ?x = "accept_sec_context a (context_id c) tok"
  let ?c = "c\<lparr>context_id := step_context ?x, ctx_flags := step_flags ?x\<rparr>"
  obtain st c2 where s: "(if step_token ?x \<noteq> [] then token_send (context_flags (protocol ?c)) (step_token ?x) TIMEOUT ?c
      else (TOKEN_OK, ?c)) = (st, c2)" by fastforce
  have "chan.more c2 = chan.more ?c \<and> context_id c2 = context_id ?c"
    using s by (cases "step_token ?x = []") (auto dest!: token_send_more dest: frames_more(1))
  then have f: "at_most c c2" "ctx_flags c2 = step_flags ?x" "context_id c2 = step_context ?x"
    using chan_more_ident [of c2 ?c] by (auto simp: at_most_def ident_def)
  from assms s f show ?thesis
    by (auto simp: accept_token_def Let_def split: if_split_asm gss_major.split_asm)
qed

lemma negotiate_result:
  "negotiate a c = (r, c1) \<Longrightarrow> at_most c c1 \<and> (\<forall>x. r = Some x \<longrightarrow>
     (\<exists>ctx tok. x = accept_sec_context a ctx tok) \<and> step_major x = GSS_S_COMPLETE
     \<and> ctx_flags c1 = step_flags x \<and> context_id c1 = step_context x)"
proof (induction a c rule: negotiate.induct)
  case (1 a c)
  obtain t c2 where t: "context_token c = (t, c2)" by fastforce
  note at = context_token_at_most [OF t]
  show ?case
  proof (cases t)
    case None
    then show ?thesis using "1.prems" t at by (simp add: negotiate.simps [of a c])
  next
    case (Some tok)
    obtain x c3 where x: "accept_token a tok c2 = (x, c3)" by fastforce
    note ax = accept_token_result [OF x]
    show ?thesis
    proof (cases x)
      case None
      then show ?thesis using "1.prems" t x Some at ax
        by (auto simp: negotiate.simps [of a c] intro: at_most_trans)
    next
      case (Some y)
      show ?thesis
      proof (cases "step_major y = GSS_S_CONTINUE_NEEDED")
        case True
        with "1.prems" t x Some \<open>t = Some tok\<close> have "negotiate a c3 = (r, c1)"
          by (simp add: negotiate.simps [of a c])
        from "1.IH" [OF t [symmetric] \<open>t = Some tok\<close> x [symmetric] Some True this] ax at
        show ?thesis by (meson at_most_trans)
      next
        case False
        with "1.prems" t x Some \<open>t = Some tok\<close> have "r = Some y" "c1 = c3"
          by (simp_all add: negotiate.simps [of a c])
        with ax at Some False show ?thesis by (auto intro: at_most_trans)
      qed
    qed
  qed
qed

lemma initial_token_result:
  assumes "initial_token c = (ok, c1)"
  shows "client.more c1 = client.more c \<and> ipaddress c1 = ipaddress c \<and> hostname c1 = hostname c
    \<and> (ok \<longrightarrow> protocol c1 = 1 \<or> protocol c1 = 2)"
proof -
  obtain t c0 where t: "token_recv TOKEN_MAX_LENGTH TIMEOUT c = (t, c0)" by fastforce
  from token_recv_at_most [OF t] have "client.more c0 = client.more c \<and> ipaddress c0 = ipaddress c
    \<and> hostname c0 = hostname c" by (simp add: at_most_def)
  with assms t show ?thesis
    by (cases t) (auto simp: initial_token_def warn_token_fields split: if_split_asm)
qed

text \<open>
  \<open>established a c\<close>: the client is the one that a completed negotiation of the
  acceptor \<open>a\<close> authenticated, and its callbacks are those of its protocol.
\<close>

definition established :: "('c, 'n) acceptor \<Rightarrow> ('c, 'z) client_scheme \<Rightarrow> bool" where
  "established a c \<longleftrightarrow>
     (\<exists>ctx tok r name. r = accept_sec_context a ctx tok \<and> step_major r = GSS_S_COMPLETE
        \<and> context_id c = step_context r \<and> ctx_flags c = step_flags r
        \<and> display_name a (src_name r) = Inr (name, anonymous c) \<and> user c = x_strndup name (length name))
     \<and> (protocol c = 1 \<and> backend c = V1
        \<or> protocol c = 2 \<and> backend c = V2 \<and> ctx_flags c AND req_gss_flags = req_gss_flags)"

lemma name_client_result:
  assumes "name_client a r c = (ok, c1)"
  shows "client.more c1 = client.more c \<and> ipaddress c1 = ipaddress c \<and> hostname c1 = hostname c
    \<and> (ok \<longrightarrow> protocol c1 = protocol c \<and> ctx_flags c1 = ctx_flags c \<and> context_id c1 = context_id c
        \<and> backend c1 = (if protocol c = 1 then V1 else V2)
        \<and> (protocol c > 1 \<longrightarrow> ctx_flags c AND req_gss_flags = req_gss_flags)
        \<and> (\<exists>name. display_name a (src_name r) = Inr (name, anonymous c1) \<and> user c1 = x_strndup name (length name)))"
  using assms
  by (auto simp: name_client_def Let_def sys_time_def split: sum.split_asm prod.split_asm if_split_asm list.split_asm)

lemma server_new_client_result:
  assumes "server_new_client a peer c = (ok, c1)"
  shows "client.more c1 = client.more c \<and> (ok \<longrightarrow> established a c1
    \<and> (\<exists>ip. peer = Peer (Inr ip) (hostname c1) \<and> ipaddress c1 = ip))"
proof (cases "peer_address peer (fresh_client a c)")
  case (Pair ok0 c0)
  note p = Pair
  then have 0: "client.more c0 = client.more c"
    "ok0 \<Longrightarrow> peer = Peer (Inr (ipaddress c0)) (hostname c0)"
    by (auto simp: peer_address_def fresh_client_def split: peer.split_asm sum.split_asm)
  obtain ok2 c2 where 2: "initial_token c0 = (ok2, c2)" by fastforce
  obtain r c3 where 3: "negotiate a c2 = (r, c3)" by fastforce
  note i = initial_token_result [OF 2] and n = negotiate_result [OF 3, unfolded at_most_def]
  show ?thesis
  proof (cases "ok0 \<and> ok2 \<and> r \<noteq> None")
    case False
    then show ?thesis using assms p 2 3 0(1) i n
      by (auto simp: server_new_client_def split: bool.split_asm)
  next
    case True
    then obtain x where x: "r = Some x" by blast
    with True assms p 2 3 have "name_client a x c3 = (ok, c1)" by (simp add: server_new_client_def)
    note m = name_client_result [OF this]
    show ?thesis
      using m n i 0 True x unfolding established_def by (cases "protocol c3 = 1") (simp; blast)+
  qed
qed

end
