(* ===== verification/Client_Open.thy ===== *)
theory Client_Open
  imports Handshake Client_Proto
begin

text \<open>
  Opening a connection from the client: \<^verbatim>\<open>src/client/open.c\<close>.

  The initiator's side of GSS-API and the Kerberos calls are a parameter. The
  socket that \<open>network_connect\<close> returns takes the place of the scripts of the
  struct. Kerberos libraries with \<open>gss_krb5_import_cred\<close> are available, as the
  build finds them by default.
\<close>

subsection \<open>The library\<close>

record ('c, 'n, 'k) initiator =
  i_no_context :: 'c
  import_name :: "bool \<Rightarrow> string \<Rightarrow> gss_status + 'n"
  krb5_init_context :: "string option"
  krb5_cc_resolve :: "string \<Rightarrow> string option"
  import_cred :: "string \<Rightarrow> gss_status + 'k"
  init_sec_context :: "'k option \<Rightarrow> 'c \<Rightarrow> 'n \<Rightarrow> bytes option \<Rightarrow> 'c gss_step"

subsection \<open>Operations\<close>

definition use_sock :: "sock \<Rightarrow> ('c, 'z) remctl_scheme \<Rightarrow> ('c, 'z) remctl_scheme" where
  "use_sock k r = r\<lparr>sel := sel k, rd := rd k, wr := wr k, clock := clock k, sent := sent k\<rparr>"

definition internal_connect ::
  "parsers \<Rightarrow> string \<Rightarrow> nat \<Rightarrow> ('c, 'z) remctl_scheme \<Rightarrow> nat option \<times> ('c, 'z) remctl_scheme" where
  "internal_connect p h prt r =
     (case (case dials r of [] \<Rightarrow> (Unknown_host [], []) | d # ds \<Rightarrow> (d, ds)) of
        (Unknown_host m, ds) \<Rightarrow>
          (None, internal_set_error (Err (''unknown host '' @ h @ '': '' @ m)) (r\<lparr>dials := ds\<rparr>))
      | (Addresses ai, ds) \<Rightarrow>
          (case network_connect p ai (source r) (r_timeout r) (socket_errno r) of
             (Inl e, cl) \<Rightarrow>
               (None, internal_set_error
                        (Err_errno (''cannot connect to '' @ h @ '' (port '' @ show_nat prt @ '')'') e)
                        (r\<lparr>dials := ds, closes := closes r @ cl, socket_errno := e\<rparr>))
           | (Inr (n, k), cl) \<Rightarrow> (Some n, use_sock k (r\<lparr>dials := ds, closes := closes r @ cl\<rparr>))))"

text \<open>Printing a null host is undefined.\<close>

definition internal_import_name ::
  "('c, 'n, 'k) initiator \<Rightarrow> string option \<Rightarrow> string option \<Rightarrow> ('c, 'z) remctl_scheme
     \<Rightarrow> fault + 'n option \<times> ('c, 'z) remctl_scheme" where
  "internal_import_name i h princ r =
     (case (case princ of
              Some name \<Rightarrow> Inr (import_name i False name)
            | None \<Rightarrow> (case h of None \<Rightarrow> Inl Undefined | Some h \<Rightarrow> Inr (import_name i True (''host@'' @ h)))) of
        Inl f \<Rightarrow> Inl f
      | Inr (Inl e) \<Rightarrow> Inr (None, internal_gssapi_error ''parsing name'' e r)
      | Inr (Inr name) \<Rightarrow> Inr (Some name, r))"

text \<open>
  \<open>m\<close> is what Kerberos says of the error. Without a context the first message is
  set and then replaced by the second.
\<close>

definition internal_krb5_error ::
  "string \<Rightarrow> string \<Rightarrow> ('c, 'z) remctl_scheme \<Rightarrow> ('c, 'z) remctl_scheme" where
  "internal_krb5_error e m r =
     (let r1 = (if krb_ctx r then r
                else internal_set_error (Err (''error '' @ e @ '': cannot create Kerberos context'')) r)
      in internal_set_error (Err (''error '' @ e @ '': '' @ m)) r1)"

lemma krb5_error_replaced [simp]:
  "internal_krb5_error e m r = internal_set_error (Err (''error '' @ e @ '': '' @ m)) r"
  by (simp add: internal_krb5_error_def internal_set_error_def)

definition internal_set_cred ::
  "('c, 'n, 'k) initiator \<Rightarrow> string \<Rightarrow> ('c, 'z) remctl_scheme \<Rightarrow> 'k option \<times> ('c, 'z) remctl_scheme" where
  "internal_set_cred i path r =
     (case (if krb_ctx r then None else krb5_init_context i) of
        Some m \<Rightarrow> (None, internal_krb5_error ''opening ticket cache'' m r)
      | None \<Rightarrow>
          let r1 = r\<lparr>krb_ctx := True\<rparr>
          in case krb5_cc_resolve i path of
               Some m \<Rightarrow> (None, internal_krb5_error ''opening ticket cache'' m r1)
             | None \<Rightarrow>
                 let r2 = r1\<lparr>krb_ccache := Some path\<rparr>
                 in case import_cred i path of
                      Inl e \<Rightarrow> (None, internal_gssapi_error ''importing ticket cache'' e r2)
                    | Inr k \<Rightarrow> (Some k, r2))"

text \<open>One call of \<open>gss_init_sec_context\<close> and the token it asks to send.\<close>

definition init_send ::
  "'c gss_step \<Rightarrow> ('c, 'z) remctl_scheme \<Rightarrow> bool \<times> ('c, 'z) remctl_scheme" where
  "init_send st r =
     (let (status, r1) = (if step_token st \<noteq> []
                          then token_send (context_flags (r_protocol r)) (step_token st) (r_timeout r) r
                          else (TOKEN_OK, r))
      in if status \<noteq> TOKEN_OK then (False, internal_token_error ''sending token'' status r1)
         else case step_major st of
                GSS_S_OTHER e \<Rightarrow> (False, internal_gssapi_error ''initializing context'' e r1)
              | _ \<Rightarrow> (True, r1))"

text \<open>The server's next token; one without \<open>TOKEN_PROTOCOL\<close> means protocol one.\<close>

definition init_recv :: "('c, 'z) remctl_scheme \<Rightarrow> bytes option \<times> ('c, 'z) remctl_scheme" where
  "init_recv r =
     (case token_recv TOKEN_MAX_LENGTH (r_timeout r) r of
        (Inl status, r1) \<Rightarrow> (None, internal_token_error ''receiving token'' status r1)
      | (Inr (flags, tok), r1) \<Rightarrow>
          (Some tok, if r_protocol r1 > 1 \<and> flags AND TOKEN_PROTOCOL \<noteq> TOKEN_PROTOCOL
                     then r1\<lparr>r_protocol := 1\<rparr> else r1))"

lemma waiting_remctl [simp]:
  "waiting (r\<lparr>r_protocol := p\<rparr>) = waiting r" "waiting (internal_set_error e r) = waiting r"
  "waiting (internal_gssapi_error m g r) = waiting r"
  "waiting (internal_token_error m st r) = waiting r"
  for r :: "('c, 'z) remctl_scheme"
  by (cases st; simp add: waiting_def internal_set_error_def internal_gssapi_error_def
      internal_token_error_def)+

lemma init_send_waiting: "init_send st r = (ok, r1) \<Longrightarrow> waiting r1 = waiting r"
  by (auto simp: init_send_def Let_def split: prod.split_asm if_split_asm gss_major.split_asm
      dest!: token_send_waiting)

lemma init_recv_waiting: "init_recv r = (Some tok, r1) \<Longrightarrow> waiting r1 < waiting r"
  by (auto simp: init_recv_def split: prod.split_asm sum.split_asm if_split_asm
      dest: token_recv_ok_waiting)

lemma init_round_waiting:
  "init_send st r = (ok, r1) \<Longrightarrow> init_recv r1 = (Some tok, r2) \<Longrightarrow> waiting r2 < waiting r"
  by (drule init_send_waiting, drule init_recv_waiting) simp

function init_loop ::
  "('c, 'n, 'k) initiator \<Rightarrow> 'k option \<Rightarrow> 'n \<Rightarrow> 'c \<Rightarrow> bytes option \<Rightarrow> ('c, 'z) remctl_scheme
     \<Rightarrow> 'c gss_step option \<times> ('c, 'z) remctl_scheme" where
  "init_loop i cred name ctx tok r =
     (let st = init_sec_context i cred ctx name tok
      in case init_send st r of
           (False, r1) \<Rightarrow> (None, r1)
         | (True, r1) \<Rightarrow>
             if step_major st = GSS_S_CONTINUE_NEEDED then
               (case init_recv r1 of
                  (None, r2) \<Rightarrow> (None, r2)
                | (Some tok1, r2) \<Rightarrow> init_loop i cred name (step_context st) (Some tok1) r2)
             else (Some st, r1))"
  by pat_completeness auto
termination
  by (relation "measure (\<lambda>(i, cred, name, ctx, tok, r). waiting r)")
     (auto dest!: sym [of "(_, _)"] intro: init_round_waiting split: prod.splits)

declare init_loop.simps [simp del]

definition open_failed :: "('c, 'z) remctl_scheme \<Rightarrow> ('c, 'z) remctl_scheme" where
  "open_failed r = (socket_close r)\<lparr>fd := None\<rparr>"

text \<open>The negotiation with a name and credentials at hand.\<close>

definition open_context ::
  "('c, 'n, 'k) initiator \<Rightarrow> 'k option \<Rightarrow> 'n \<Rightarrow> ('c, 'z) remctl_scheme \<Rightarrow> bool \<times> ('c, 'z) remctl_scheme" where
  "open_context i cred name r =
     (let r1 = (if r_protocol r = 0 then r\<lparr>r_protocol := 2\<rparr> else r)
      in case token_send (TOKEN_NOOP OR TOKEN_CONTEXT_NEXT OR TOKEN_PROTOCOL) [] (r_timeout r1) r1 of
           (status, r2) \<Rightarrow>
             if status \<noteq> TOKEN_OK
             then (False, open_failed (internal_token_error ''sending initial token'' status r2))
             else case init_loop i cred name (i_no_context i) None r2 of
                    (None, r3) \<Rightarrow> (False, open_failed r3)
                  | (Some st, r3) \<Rightarrow>
                      if r_protocol r3 > 1 \<and> step_flags st AND req_gss_flags \<noteq> req_gss_flags
                      then (False, open_failed (internal_set_error
                              (Err ''server did not negotiate acceptable GSS-API flags'') r3))
                      else (True, r3\<lparr>context_id := step_context st, has_context := True, ready := False\<rparr>))"

definition internal_open ::
  "('c, 'n, 'k) initiator \<Rightarrow> string option \<Rightarrow> string option \<Rightarrow> ('c, 'z) remctl_scheme
     \<Rightarrow> fault + bool \<times> ('c, 'z) remctl_scheme" where
  "internal_open i h princ r =
     ebind (internal_import_name i h princ r) (\<lambda>(name, r1).
       case name of
         None \<Rightarrow> Inr (False, open_failed r1)
       | Some name \<Rightarrow>
           (case ccache r1 of
              None \<Rightarrow> Inr (open_context i None name r1)
            | Some path \<Rightarrow>
                (case internal_set_cred i path r1 of
                   (None, r2) \<Rightarrow> Inr (False, open_failed r2)
                 | (Some k, r2) \<Rightarrow> Inr (open_context i (Some k) name r2))))"

end
