(* ===== verification/Client_Api.thy ===== *)
theory Client_Api
  imports Client_Open
begin

text \<open>
  The library interface: \<^verbatim>\<open>src/client/api.c\<close>.

  \<open>remctl_new\<close> works on a record that only holds the environment. \<open>api_output\<close>
  and \<open>api_remctl\<close> are the C functions \<open>remctl_output\<close> and \<open>remctl\<close>, whose names
  their structs have. \<open>render\<close> is the text of an error message with the words of
  the system and of GSS-API filled in. A buffer of a result is a null pointer, a
  block of the heap, or a pointer to a block that \<open>realloc\<close> has freed.
\<close>

subsection \<open>Connections\<close>

definition REMCTL_PORT :: nat where "REMCTL_PORT = 4373"
definition REMCTL_PORT_OLD :: nat where "REMCTL_PORT_OLD = 4444"

definition remctl_new :: "'c \<Rightarrow> ('c, 'z) remctl_scheme \<Rightarrow> ('c, 'z) remctl_scheme" where
  "remctl_new no_ctx r =
     r\<lparr>host := None, port := 0, principal := None, r_protocol := 0, source := None, r_timeout := 0,
       ccache := None, fd := None, context_id := no_ctx, has_context := False, r_error := None,
       r_output := None, r_status := 0, ready := False, krb_ctx := False, krb_ccache := None\<rparr>"

definition remctl_set_ccache :: "string \<Rightarrow> ('c, 'z) remctl_scheme \<Rightarrow> bool \<times> ('c, 'z) remctl_scheme" where
  "remctl_set_ccache path r = (True, r\<lparr>ccache := Some path\<rparr>)"

definition remctl_set_source_ip :: "string \<Rightarrow> ('c, 'z) remctl_scheme \<Rightarrow> bool \<times> ('c, 'z) remctl_scheme" where
  "remctl_set_source_ip src r = (True, r\<lparr>source := Some src\<rparr>)"

definition remctl_set_timeout :: "int \<Rightarrow> ('c, 'z) remctl_scheme \<Rightarrow> bool \<times> ('c, 'z) remctl_scheme" where
  "remctl_set_timeout t r =
     (if t < 0 then (False, internal_set_error (Err (''invalid timeout '' @ show_int t)) r)
      else (True, r\<lparr>r_timeout := t\<rparr>))"

text \<open>
  The descriptor is closed but stays in the struct; a closed descriptor has
  empty scripts.
\<close>

definition internal_reset :: "'c gss \<Rightarrow> ('c, 'z) remctl_scheme \<Rightarrow> ('c, 'z) remctl_scheme" where
  "internal_reset g r =
     (let r1 = (if fd r \<noteq> None then
                  let r0 = (if r_protocol r > 1 then snd (internal_v2_quit g r) else r)
                  in (socket_close r0)\<lparr>sel := [], rd := [], wr := [], clock := []\<rparr>
                else r)
      in r1\<lparr>r_error := None, r_output := None\<rparr>)"

definition remctl_open ::
  "parsers \<Rightarrow> ('c, 'n, 'k) initiator \<Rightarrow> 'c gss \<Rightarrow> string \<Rightarrow> nat \<Rightarrow> string option
     \<Rightarrow> ('c, 'z) remctl_scheme \<Rightarrow> fault + bool \<times> ('c, 'z) remctl_scheme" where
  "remctl_open p i g h prt princ r =
     (let r1 = (internal_reset g r)\<lparr>host := Some h, port := prt, principal := princ\<rparr>;
          prt1 = (if prt = 0 then REMCTL_PORT else prt)
      in case internal_connect p h prt1 r1 of
           (Some n, r2) \<Rightarrow> internal_open i (Some h) princ (r2\<lparr>fd := Some n\<rparr>)
         | (None, r2) \<Rightarrow>
             if prt = 0 then
               (case internal_connect p h REMCTL_PORT_OLD (r2\<lparr>r_error := None\<rparr>) of
                  (None, r3) \<Rightarrow> Inr (False, r3\<lparr>r_error := r_error r2\<rparr>)
                | (Some n, r3) \<Rightarrow> internal_open i (Some h) princ (r3\<lparr>fd := Some n\<rparr>))
             else Inr (False, r2))"

definition remctl_open_addrinfo ::
  "parsers \<Rightarrow> ('c, 'n, 'k) initiator \<Rightarrow> 'c gss \<Rightarrow> string option \<Rightarrow> attempt list \<Rightarrow> string option
     \<Rightarrow> ('c, 'z) remctl_scheme \<Rightarrow> fault + bool \<times> ('c, 'z) remctl_scheme" where
  "remctl_open_addrinfo p i g h ai princ r =
     (let r1 = (internal_reset g r)\<lparr>host := None, port := 0, principal := princ\<rparr>
      in case network_connect p ai (source r1) (r_timeout r1) (socket_errno r1) of
           (Inl e, cl) \<Rightarrow>
             Inr (False, internal_set_error (Err_errno ''cannot connect'' e)
                           (r1\<lparr>closes := closes r1 @ cl, socket_errno := e\<rparr>))
         | (Inr (n, k), cl) \<Rightarrow>
             internal_open i h princ (use_sock k (r1\<lparr>closes := closes r1 @ cl, fd := Some n\<rparr>)))"

definition remctl_open_sockaddr ::
  "parsers \<Rightarrow> ('c, 'n, 'k) initiator \<Rightarrow> 'c gss \<Rightarrow> string option \<Rightarrow> attempt \<Rightarrow> string option
     \<Rightarrow> ('c, 'z) remctl_scheme \<Rightarrow> fault + bool \<times> ('c, 'z) remctl_scheme" where
  "remctl_open_sockaddr p i g h addr princ r = remctl_open_addrinfo p i g h [addr] princ r"

definition remctl_open_fd ::
  "('c, 'n, 'k) initiator \<Rightarrow> 'c gss \<Rightarrow> string option \<Rightarrow> nat \<Rightarrow> sock \<Rightarrow> string option
     \<Rightarrow> ('c, 'z) remctl_scheme \<Rightarrow> fault + bool \<times> ('c, 'z) remctl_scheme" where
  "remctl_open_fd i g h n k princ r =
     (let r1 = (internal_reset g r)\<lparr>host := None, port := 0, principal := princ\<rparr>
      in internal_open i h princ (use_sock k (r1\<lparr>fd := Some n\<rparr>)))"

text \<open>The struct that \<open>remctl_close\<close> frees, for what it did before.\<close>

definition remctl_close :: "'c gss \<Rightarrow> ('c, 'z) remctl_scheme \<Rightarrow> ('c, 'z) remctl_scheme" where
  "remctl_close g r =
     (let r1 = (if r_protocol r > 1 \<and> fd r \<noteq> None then snd (internal_v2_quit g r) else r)
      in (socket_close r1)\<lparr>has_context := False\<rparr>)"

definition internal_reopen ::
  "parsers \<Rightarrow> ('c, 'n, 'k) initiator \<Rightarrow> 'c gss \<Rightarrow> ('c, 'z) remctl_scheme
     \<Rightarrow> fault + bool \<times> ('c, 'z) remctl_scheme" where
  "internal_reopen p i g r =
     (if fd r = None then
        (case host r of
           None \<Rightarrow> Inr (False, internal_set_error (Err ''no connection open'') r)
         | Some h \<Rightarrow>
             ebind (remctl_open p i g h (port r) (principal r) r) (\<lambda>(ok, r1).
               if \<not> ok then Inr (False, r1) else Inr (True, r1\<lparr>r_error := None\<rparr>)))
      else Inr (True, r\<lparr>r_error := None\<rparr>))"

subsection \<open>Commands\<close>

definition remctl_commandv ::
  "parsers \<Rightarrow> ('c, 'n, 'k) initiator \<Rightarrow> 'c gss \<Rightarrow> bytes list \<Rightarrow> ('c, 'z) remctl_scheme
     \<Rightarrow> fault + bool \<times> ('c, 'z) remctl_scheme" where
  "remctl_commandv p i g argv r =
     ebind (internal_reopen p i g r) (\<lambda>(ok, r1).
       if \<not> ok then Inr (False, r1)
       else if r_protocol r1 = 1 then Inr (internal_v1_commandv g argv r1)
       else internal_v2_commandv g argv r1)"

text \<open>The strings end at their nul octet; a null pointer ends the array.\<close>

definition remctl_command ::
  "parsers \<Rightarrow> ('c, 'n, 'k) initiator \<Rightarrow> 'c gss \<Rightarrow> string list \<Rightarrow> ('c, 'z) remctl_scheme
     \<Rightarrow> fault + bool \<times> ('c, 'z) remctl_scheme" where
  "remctl_command p i g cmd r =
     (if length cmd = 0
      then Inr (False, internal_set_error (Err ''cannot send empty command'') r)
      else remctl_commandv p i g (map c_string cmd) r)"

definition remctl_noop ::
  "parsers \<Rightarrow> ('c, 'n, 'k) initiator \<Rightarrow> 'c gss \<Rightarrow> ('c, 'z) remctl_scheme
     \<Rightarrow> fault + bool \<times> ('c, 'z) remctl_scheme" where
  "remctl_noop p i g r =
     ebind (internal_reopen p i g r) (\<lambda>(ok, r1).
       if \<not> ok then Inr (False, r1)
       else if r_protocol r1 = 1
       then Inr (False, internal_set_error (Err ''NOOP message not supported'') r1)
       else Inr (internal_noop g r1))"

definition api_output ::
  "'c gss \<Rightarrow> ('c, 'z) remctl_scheme \<Rightarrow> remctl_output option \<times> ('c, 'z) remctl_scheme" where
  "api_output g r =
     (if fd r = None \<and> (r_protocol r \<noteq> 1 \<or> host r = None)
      then (None, internal_set_error (Err ''no connection open'') r)
      else
        let r1 = r\<lparr>r_error := None\<rparr>
        in if r_protocol r1 = 1 then internal_v1_output g r1 else internal_v2_output g r1)"

definition remctl_error :: "(error_text \<Rightarrow> string) \<Rightarrow> ('c, 'z) remctl_scheme \<Rightarrow> string" where
  "remctl_error render r = (case r_error r of Some e \<Rightarrow> render e | None \<Rightarrow> ''no error'')"

subsection \<open>The simplified interface\<close>

datatype heap_buf = Null | Block bytes | Freed

record remctl_result =
  res_error :: "string option"
  stdout_buf :: heap_buf
  stderr_buf :: heap_buf
  res_status :: int

text \<open>\<open>stdout_len\<close> and \<open>stderr_len\<close>.\<close>

definition buf_data :: "heap_buf \<Rightarrow> bytes" where
  "buf_data b = (case b of Block d \<Rightarrow> d | _ \<Rightarrow> [])"

text \<open>
  \<open>realloc\<close> to the new length and the copy; \<open>realloc\<close> of a block to length 0
  frees it and returns null, of a null pointer it allocates.
\<close>

definition append_buf :: "heap_buf \<Rightarrow> bytes \<Rightarrow> bool \<times> heap_buf" where
  "append_buf b d =
     (let len = length (buf_data b) + length d
      in if len = 0 \<and> b \<noteq> Null then (False, Freed) else (True, Block (buf_data b @ d)))"

definition internal_output_append :: "remctl_output \<Rightarrow> remctl_result \<Rightarrow> bool \<times> remctl_result" where
  "internal_output_append out res =
     (if out_type out = REMCTL_OUT_ERROR then
        let old = (case res_error res of None \<Rightarrow> [] | Some e \<Rightarrow> c_string e)
        in (True, res\<lparr>res_error := Some (c_string (old @ out_data out @ [NUL]))\<rparr>)
      else if out_type out = REMCTL_OUT_OUTPUT \<and> out_stream out = 1 then
        (case append_buf (stdout_buf res) (out_data out) of
           (True, b) \<Rightarrow> (True, res\<lparr>stdout_buf := b\<rparr>)
         | (False, b) \<Rightarrow> (False, res\<lparr>stdout_buf := b, res_error := Some ''cannot allocate memory''\<rparr>))
      else if out_type out = REMCTL_OUT_OUTPUT \<and> out_stream out = 2 then
        (case append_buf (stderr_buf res) (out_data out) of
           (True, b) \<Rightarrow> (True, res\<lparr>stderr_buf := b\<rparr>)
         | (False, b) \<Rightarrow> (False, res\<lparr>stderr_buf := b, res_error := Some ''cannot allocate memory''\<rparr>))
      else if out_type out = REMCTL_OUT_OUTPUT then
        (False, res\<lparr>res_error := Some (''bad output stream '' @ show_int (out_stream out))\<rparr>)
      else (False, res\<lparr>res_error := Some ''internal error: bad output type''\<rparr>))"

definition internal_fail ::
  "(error_text \<Rightarrow> string) \<Rightarrow> 'c gss \<Rightarrow> ('c, 'z) remctl_scheme \<Rightarrow> remctl_result
     \<Rightarrow> remctl_result \<times> ('c, 'z) remctl_scheme" where
  "internal_fail render g r res = (res\<lparr>res_error := Some (c_string (remctl_error render r))\<rparr>, remctl_close g r)"

text \<open>Each piece of output takes a token off the stream, so the loop ends.\<close>

lemma waiting_client_struct [simp]:
  "waiting (r\<lparr>r_error := e\<rparr>) = waiting r" "waiting (r\<lparr>r_output := x\<rparr>) = waiting r"
  "waiting (r\<lparr>r_status := st\<rparr>) = waiting r" "waiting (r\<lparr>fd := n\<rparr>) = waiting r"
  "waiting (r\<lparr>has_context := b\<rparr>) = waiting r" "waiting (r\<lparr>ready := b\<rparr>) = waiting r"
  "waiting (socket_close r) = waiting r" "waiting (v1_hang_up r) = waiting r"
  for r :: "('c, 'z) remctl_scheme"
  by (simp_all add: waiting_def socket_close_def v1_hang_up_def split: option.split)

lemma v1_output_waiting:
  assumes "internal_v1_output g r = (Some out, r1)" "out_type out = REMCTL_OUT_OUTPUT"
  shows "waiting r1 < waiting r"
proof -
  have "v1_read_output g r = (Some out, r1) \<Longrightarrow> waiting r1 < waiting r"
    by (auto simp: v1_read_output_def Let_def split: prod.split_asm sum.split_asm if_split_asm
        dest!: token_recv_priv_waiting(2))
  with assms show ?thesis
    by (auto simp: internal_v1_output_def Let_def internal_output_wipe_def
        split: option.split_asm if_split_asm)
qed

lemma v2_read_token_waiting: "internal_v2_read_token g r = (Some tok, r1) \<Longrightarrow> waiting r1 < waiting r"
  by (auto simp: internal_v2_read_token_def Let_def split: prod.split_asm sum.split_asm if_split_asm
      dest!: token_recv_priv_waiting(2))

lemma v2_output_waiting:
  assumes "internal_v2_output g r = (Some out, r1)" "out_type out = REMCTL_OUT_OUTPUT"
  shows "waiting r1 < waiting r"
proof -
  have "ready r"
    using assms by (cases "ready r") (auto simp: internal_v2_output_def internal_output_wipe_def Let_def)
  with assms show ?thesis
    by (auto simp: internal_v2_output_def split: prod.split_asm option.split_asm sum.split_asm
        dest!: v2_read_token_waiting)
qed

lemma api_output_waiting:
  assumes "api_output g r = (Some out, r1)" "out_type out = REMCTL_OUT_OUTPUT"
  shows "waiting r1 < waiting r"
  using assms by (auto simp: api_output_def Let_def split: if_split_asm dest: v1_output_waiting v2_output_waiting)

text \<open>The loop of \<open>remctl\<close>.\<close>

function collect ::
  "(error_text \<Rightarrow> string) \<Rightarrow> 'c gss \<Rightarrow> ('c, 'z) remctl_scheme \<Rightarrow> remctl_result
     \<Rightarrow> remctl_result \<times> ('c, 'z) remctl_scheme" where
  "collect render g r res =
     (case api_output g r of
        (None, r1) \<Rightarrow> internal_fail render g r1 res
      | (Some out, r1) \<Rightarrow>
          if out_type out = REMCTL_OUT_OUTPUT \<or> out_type out = REMCTL_OUT_ERROR then
            (case internal_output_append out res of
               (False, res1) \<Rightarrow> (res1, r1)
             | (True, res1) \<Rightarrow>
                 if out_type out = REMCTL_OUT_OUTPUT then collect render g r1 res1
                 else (res1, remctl_close g r1))
          else if out_type out = REMCTL_OUT_STATUS
          then (res\<lparr>res_status := out_status out\<rparr>, remctl_close g r1)
          else (res, remctl_close g r1))"
  by pat_completeness auto
termination
  by (relation "measure (\<lambda>(render, g, r, res). waiting r)") (auto dest!: sym [of "(_, _)"] api_output_waiting)

declare collect.simps [simp del]

definition api_remctl ::
  "(error_text \<Rightarrow> string) \<Rightarrow> parsers \<Rightarrow> ('c, 'n, 'k) initiator \<Rightarrow> 'c gss \<Rightarrow> string \<Rightarrow> nat \<Rightarrow> string option
     \<Rightarrow> string list \<Rightarrow> ('c, 'z) remctl_scheme \<Rightarrow> fault + remctl_result \<times> ('c, 'z) remctl_scheme" where
  "api_remctl render p i g h prt princ cmd r0 =
     (let res = \<lparr>res_error = None, stdout_buf = Null, stderr_buf = Null, res_status = 0\<rparr>;
          r = remctl_new (i_no_context i) r0
      in ebind (remctl_open p i g h prt princ r) (\<lambda>(ok, r1).
           if \<not> ok then Inr (internal_fail render g r1 res)
           else ebind (remctl_command p i g cmd r1) (\<lambda>(ok, r2).
             if \<not> ok then Inr (internal_fail render g r2 res)
             else Inr (collect render g r2 res))))"

text \<open>Freeing a result; freeing a block twice is undefined.\<close>

definition remctl_result_free :: "remctl_result \<Rightarrow> fault + unit" where
  "remctl_result_free res =
     (if stdout_buf res = Freed \<or> stderr_buf res = Freed then Inl Undefined else Inr ())"

end
