(* ===== verification/Negotiation.thy ===== *)
theory Negotiation
  imports Client_Open
begin

text \<open>
  The two ends of the negotiation together: \<open>internal_open\<close> of the client and
  \<open>server_new_client\<close> of the server on one connection.

  What GSS-API mechanisms do is a relation between the calls of the initiator and
  of the acceptor, \<open>gss_run\<close>: they exchange tokens until both contexts are
  complete, and a token is empty exactly when the other end expects none.
\<close>

subsection \<open>A run of the mechanism\<close>

definition token_fits :: "bytes \<Rightarrow> bool" where
  "token_fits tok \<longleftrightarrow> tok \<noteq> [] \<and> length tok \<le> TOKEN_MAX_LENGTH"

inductive gss_run ::
  "('c, 'n, 'k) initiator \<Rightarrow> 'k option \<Rightarrow> 'n \<Rightarrow> ('d, 'm) acceptor \<Rightarrow> 'c \<Rightarrow> bytes option \<Rightarrow> 'd
     \<Rightarrow> bytes list \<Rightarrow> bytes list \<Rightarrow> 'c gss_step \<Rightarrow> ('d, 'm) accepted \<Rightarrow> bool"
  for i cred name a where
  server_ends:
    "\<lbrakk>init_sec_context i cred ctx name tok = st; step_major st = GSS_S_COMPLETE; token_fits (step_token st);
      accept_sec_context a dtx (step_token st) = acc; step_major acc = GSS_S_COMPLETE; step_token acc = []\<rbrakk>
     \<Longrightarrow> gss_run i cred name a ctx tok dtx [step_token st] [] st acc"
| client_ends:
    "\<lbrakk>init_sec_context i cred ctx name tok = st; step_major st = GSS_S_CONTINUE_NEEDED;
      token_fits (step_token st);
      accept_sec_context a dtx (step_token st) = acc; step_major acc = GSS_S_COMPLETE;
      token_fits (step_token acc);
      init_sec_context i cred (step_context st) name (Some (step_token acc)) = st1;
      step_major st1 = GSS_S_COMPLETE; step_token st1 = []\<rbrakk>
     \<Longrightarrow> gss_run i cred name a ctx tok dtx [step_token st] [step_token acc] st1 acc"
| both_continue:
    "\<lbrakk>init_sec_context i cred ctx name tok = st; step_major st = GSS_S_CONTINUE_NEEDED;
      token_fits (step_token st);
      accept_sec_context a dtx (step_token st) = acc; step_major acc = GSS_S_CONTINUE_NEEDED;
      token_fits (step_token acc);
      gss_run i cred name a (step_context st) (Some (step_token acc)) (step_context acc) cs ss st1 acc1\<rbrakk>
     \<Longrightarrow> gss_run i cred name a ctx tok dtx (step_token st # cs) (step_token acc # ss) st1 acc1"

subsection \<open>Environments in which nothing fails\<close>

definition roomy :: "nat \<Rightarrow> ('z) sock_scheme \<Rightarrow> bool" where
  "roomy n s \<longleftrightarrow> calm s \<and> n \<le> length (wr s)
     \<and> (\<forall>w \<in> set (wr s). \<exists>k. w = Wr_Room k \<and> TOKEN_MAX_LENGTH + 5 \<le> k)"

definition frames :: "bytes list \<Rightarrow> bytes" where
  "frames toks = concat (map (token_frame (TOKEN_CONTEXT OR TOKEN_PROTOCOL)) toks)"

lemma frames_simps [simp]:
  "frames [] = []" "frames (t # ts) = token_frame (TOKEN_CONTEXT OR TOKEN_PROTOCOL) t @ frames ts"
  by (simp_all add: frames_def)

lemma roomy_calm: "roomy n s \<Longrightarrow> calm s"
  by (simp add: roomy_def)

lemma roomy_mono: "roomy n s \<Longrightarrow> m \<le> n \<Longrightarrow> roomy m s"
  by (simp add: roomy_def)

lemma send_roomy:
  assumes "roomy (Suc n) s" "length tok \<le> TOKEN_MAX_LENGTH" "0 \<le> timeout"
  shows "\<exists>s1. token_send flags tok timeout s = (TOKEN_OK, s1) \<and> roomy n s1
     \<and> sent s1 = sent s @ token_frame flags tok \<and> incoming (rd s1) = incoming (rd s)
     \<and> sock.more s1 = sock.more s"
proof -
  from assms(1) obtain k ws where w: "wr s = Wr_Room k # ws" "TOKEN_MAX_LENGTH + 5 \<le> k"
    by (cases "wr s") (auto simp: roomy_def)
  moreover have "sel s = []" "clock s = []" using assms(1) by (simp_all add: roomy_def calm_def)
  moreover have "length tok \<le> UINT32_MAX - 5"
    using assms(2) by (simp add: TOKEN_MAX_LENGTH_def UINT32_MAX_def)
  ultimately have "token_send flags tok timeout s = (TOKEN_OK, s\<lparr>wr := ws, sent := sent s @ token_frame flags tok\<rparr>)"
    using assms(2,3) by (intro token_send_room [of s k]) simp_all
  moreover have "roomy n (s\<lparr>wr := ws, sent := sent s @ token_frame flags tok\<rparr>)"
    using assms(1) w by (simp add: roomy_def calm_def)
  ultimately show ?thesis by auto
qed

lemma recv_roomy:
  assumes "roomy n s" "incoming (rd s) = token_frame flags tok @ rest" "length tok \<le> TOKEN_MAX_LENGTH" "0 \<le> timeout"
  shows "\<exists>s1. token_recv TOKEN_MAX_LENGTH timeout s = (Inr (flags, tok), s1) \<and> roomy n s1
     \<and> sent s1 = sent s \<and> incoming (rd s1) = rest \<and> sock.more s1 = sock.more s"
proof -
  have "calm s" "length tok < 2 ^ 32" using assms(1,3) by (simp_all add: roomy_def TOKEN_MAX_LENGTH_def)
  from token_recv_frame [OF this(1) assms(2,3) this(2) assms(4)] obtain s1 where
    1: "token_recv TOKEN_MAX_LENGTH timeout s = (Inr (flags, tok), s1)" "calm s1" "rd_frame s s1"
      "incoming (rd s1) = rest" by blast
  moreover have "wr s1 = wr s" "sent s1 = sent s" "sock.more s1 = sock.more s" using rd_frameD [OF 1(3)] by auto
  ultimately show ?thesis using assms(1) by (auto simp: roomy_def)
qed

lemma sock_more_remctl:
  "sock.more r1 = sock.more r \<Longrightarrow> r_protocol r1 = r_protocol r \<and> r_timeout r1 = r_timeout r
     \<and> fd r1 = fd r \<and> closes r1 = closes r \<and> has_context r1 = has_context r \<and> r_error r1 = r_error r"
  for r r1 :: "('c, 'z) remctl_scheme"
  by (cases r; cases r1) simp

lemma sock_more_client:
  "sock.more c1 = sock.more c \<Longrightarrow> protocol c1 = protocol c \<and> context_id c1 = context_id c
     \<and> ctx_flags c1 = ctx_flags c \<and> ident c1 = ident c"
  for c c1 :: "('c, 'z) client_scheme"
  by (cases c; cases c1) (simp add: ident_def)

lemma roomy_update [simp]:
  "roomy n (r\<lparr>r_protocol := p\<rparr>) = roomy n r" for r :: "('c, 'z) remctl_scheme"
  by (simp add: roomy_def calm_def)

lemma roomy_client [simp]:
  "roomy n (c\<lparr>protocol := p\<rparr>) = roomy n c" "roomy n (c\<lparr>context_id := x, ctx_flags := f\<rparr>) = roomy n c"
  "roomy n (c\<lparr>ipaddress := ip, hostname := h\<rparr>) = roomy n c"
  for c :: "('c, 'z) client_scheme"
  by (simp_all add: roomy_def calm_def)

subsection \<open>The client's loop\<close>

lemma init_send_roomy:
  assumes "roomy (Suc n) r" "token_fits (step_token st)" "0 \<le> r_timeout r" "r_protocol r = 2"
    and "step_major st = GSS_S_COMPLETE \<or> step_major st = GSS_S_CONTINUE_NEEDED"
  shows "\<exists>r1. init_send st r = (True, r1) \<and> roomy n r1 \<and> sock.more r1 = sock.more r
     \<and> sent r1 = sent r @ frames [step_token st] \<and> incoming (rd r1) = incoming (rd r)"
proof -
  have l: "length (step_token st) \<le> TOKEN_MAX_LENGTH" "step_token st \<noteq> []"
    using assms(2) by (simp_all add: token_fits_def)
  from send_roomy [OF assms(1) l(1) assms(3), of "TOKEN_CONTEXT OR TOKEN_PROTOCOL"] obtain r1 where
    "token_send (TOKEN_CONTEXT OR TOKEN_PROTOCOL) (step_token st) (r_timeout r) r = (TOKEN_OK, r1)"
    "roomy n r1" "sent r1 = sent r @ frames [step_token st]" "incoming (rd r1) = incoming (rd r)"
    "sock.more r1 = sock.more r" by auto
  with l assms(4,5) show ?thesis by (auto simp: init_send_def context_flags_def)
qed

lemma init_recv_roomy:
  assumes "roomy n r" "token_fits tok" "0 \<le> r_timeout r" "r_protocol r = 2"
    and "incoming (rd r) = token_frame (TOKEN_CONTEXT OR TOKEN_PROTOCOL) tok @ rest"
  shows "\<exists>r1. init_recv r = (Some tok, r1) \<and> roomy n r1 \<and> sock.more r1 = sock.more r
     \<and> sent r1 = sent r \<and> incoming (rd r1) = rest"
proof -
  have "length tok \<le> TOKEN_MAX_LENGTH" using assms(2) by (simp add: token_fits_def)
  from recv_roomy [OF assms(1,5) this assms(3)] obtain r1 where
    1: "token_recv TOKEN_MAX_LENGTH (r_timeout r) r = (Inr (TOKEN_CONTEXT OR TOKEN_PROTOCOL, tok), r1)"
      "roomy n r1" "sent r1 = sent r" "incoming (rd r1) = rest" "sock.more r1 = sock.more r" by blast
  have "(TOKEN_CONTEXT OR TOKEN_PROTOCOL) AND TOKEN_PROTOCOL = TOKEN_PROTOCOL" by (simp add: token_flags)
  with 1 show ?thesis by (auto simp: init_recv_def)
qed

lemma init_loop_run:
  assumes "gss_run i cred name a ctx tok dtx cs ss st acc"
    and "roomy (length cs) r" "0 \<le> r_timeout r" "r_protocol r = 2" "incoming (rd r) = frames ss @ rest"
  shows "\<exists>r1. init_loop i cred name ctx tok r = (Some st, r1) \<and> sock.more r1 = sock.more r
     \<and> sent r1 = sent r @ frames cs \<and> incoming (rd r1) = rest"
  using assms
proof (induction arbitrary: r rule: gss_run.induct)
  case (server_ends ctx tok st dtx acc)
  from init_send_roomy [of 0 r st] server_ends obtain r1 where
    "init_send st r = (True, r1)" "sock.more r1 = sock.more r" "sent r1 = sent r @ frames [step_token st]"
    "incoming (rd r1) = rest" by auto
  with server_ends(1,2) show ?case by (auto simp: init_loop.simps [of i cred name ctx tok r])
next
  case (client_ends ctx tok st dtx acc st1)
  from init_send_roomy [of 0 r st] client_ends obtain r1 where
    1: "init_send st r = (True, r1)" "roomy 0 r1" "sock.more r1 = sock.more r"
      "sent r1 = sent r @ frames [step_token st]"
      "incoming (rd r1) = token_frame (TOKEN_CONTEXT OR TOKEN_PROTOCOL) (step_token acc) @ rest" by auto
  note m = sock_more_remctl [OF 1(3)]
  from init_recv_roomy [OF 1(2) client_ends(6) _ _ 1(5)] m client_ends obtain r2 where
    2: "init_recv r1 = (Some (step_token acc), r2)" "sock.more r2 = sock.more r1" "sent r2 = sent r1"
      "incoming (rd r2) = rest" by auto
  have "init_loop i cred name (step_context st) (Some (step_token acc)) r2 = (Some st1, r2)"
    using client_ends(7,8,9)
    by (simp add: init_loop.simps [of i cred name "step_context st"] init_send_def)
  with 1 2 client_ends(1,2) show ?case by (auto simp: init_loop.simps [of i cred name ctx tok r])
next
  case (both_continue ctx tok st dtx acc cs ss st1 acc1)
  from init_send_roomy [of "length cs" r st] both_continue obtain r1 where
    1: "init_send st r = (True, r1)" "roomy (length cs) r1" "sock.more r1 = sock.more r"
      "sent r1 = sent r @ frames [step_token st]"
      "incoming (rd r1) = token_frame (TOKEN_CONTEXT OR TOKEN_PROTOCOL) (step_token acc) @ frames ss @ rest" by auto
  note m = sock_more_remctl [OF 1(3)]
  from init_recv_roomy [OF 1(2) both_continue(6) _ _ 1(5)] m both_continue.prems obtain r2 where
    2: "init_recv r1 = (Some (step_token acc), r2)" "roomy (length cs) r2" "sock.more r2 = sock.more r1"
      "sent r2 = sent r1" "incoming (rd r2) = frames ss @ rest" by auto
  from both_continue.IH [OF 2(2) _ _ 2(5)] sock_more_remctl [OF 2(3)] m both_continue.prems obtain r3 where
    "init_loop i cred name (step_context st) (Some (step_token acc)) r2 = (Some st1, r3)"
    "sock.more r3 = sock.more r2" "sent r3 = sent r2 @ frames cs" "incoming (rd r3) = rest" by auto
  with 1 2 both_continue(1,2) show ?case by (auto simp: init_loop.simps [of i cred name ctx tok r])
qed

subsection \<open>The server's loop\<close>

lemma context_token_roomy:
  assumes "roomy n c" "token_fits tok"
    and "incoming (rd c) = token_frame (TOKEN_CONTEXT OR TOKEN_PROTOCOL) tok @ rest"
  shows "\<exists>c1. context_token c = (Some tok, c1) \<and> roomy n c1 \<and> sock.more c1 = sock.more c
     \<and> sent c1 = sent c \<and> incoming (rd c1) = rest"
proof -
  have l: "length tok \<le> TOKEN_MAX_LENGTH" "0 \<le> TIMEOUT" using assms(2) by (simp_all add: token_fits_def TIMEOUT_def)
  from recv_roomy [OF assms(1,3) l] obtain c1 where
    1: "token_recv TOKEN_MAX_LENGTH TIMEOUT c = (Inr (TOKEN_CONTEXT OR TOKEN_PROTOCOL, tok), c1)"
      "roomy n c1" "sent c1 = sent c" "incoming (rd c1) = rest" "sock.more c1 = sock.more c" by blast
  have "TOKEN_CONTEXT OR TOKEN_PROTOCOL \<noteq> TOKEN_CONTEXT" by (simp add: token_flags)
  with 1 show ?thesis by (auto simp: context_token_def)
qed

lemma accept_token_roomy:
  assumes "roomy (length out + n) c" "accept_sec_context a (context_id c) tok = acc" "protocol c = 2"
    and "step_token acc = [] \<and> out = [] \<or> token_fits (step_token acc) \<and> out = [step_token acc]"
    and "step_major acc = GSS_S_COMPLETE \<or> step_major acc = GSS_S_CONTINUE_NEEDED"
  shows "\<exists>c1. accept_token a tok c = (Some acc, c1) \<and> roomy n c1
     \<and> sock.more c1 = sock.more (c\<lparr>context_id := step_context acc, ctx_flags := step_flags acc\<rparr>)
     \<and> sent c1 = sent c @ frames out \<and> incoming (rd c1) = incoming (rd c)"
proof (cases "out = []")
  case True
  then show ?thesis
    using assms by (auto simp: accept_token_def Let_def token_fits_def)
next
  case False
  let ?c = "c\<lparr>context_id := step_context acc, ctx_flags := step_flags acc\<rparr>"
  have l: "length (step_token acc) \<le> TOKEN_MAX_LENGTH" "0 \<le> TIMEOUT" "out = [step_token acc]" "step_token acc \<noteq> []"
    using assms(4) False by (auto simp: token_fits_def TIMEOUT_def)
  have "roomy (Suc n) ?c" using assms(1) l(3) by simp
  from send_roomy [OF this l(1,2), of "TOKEN_CONTEXT OR TOKEN_PROTOCOL"] obtain c1 where
    "token_send (TOKEN_CONTEXT OR TOKEN_PROTOCOL) (step_token acc) TIMEOUT ?c = (TOKEN_OK, c1)"
    "roomy n c1" "sent c1 = sent c @ frames [step_token acc]" "incoming (rd c1) = incoming (rd c)"
    "sock.more c1 = sock.more ?c" by auto
  with l assms show ?thesis by (auto simp: accept_token_def Let_def context_flags_def)
qed

text \<open>A token of the client is read and answered.\<close>

lemma accept_round:
  assumes "roomy (length out + n) c" "token_fits tok" "protocol c = 2"
    and "incoming (rd c) = token_frame (TOKEN_CONTEXT OR TOKEN_PROTOCOL) tok @ rest"
    and "accept_sec_context a (context_id c) tok = acc"
    and "step_token acc = [] \<and> out = [] \<or> token_fits (step_token acc) \<and> out = [step_token acc]"
    and "step_major acc = GSS_S_COMPLETE \<or> step_major acc = GSS_S_CONTINUE_NEEDED"
  shows "\<exists>c1. negotiate a c = (if step_major acc = GSS_S_CONTINUE_NEEDED then negotiate a c1 else (Some acc, c1))
     \<and> roomy n c1 \<and> sent c1 = sent c @ frames out \<and> incoming (rd c1) = rest
     \<and> sock.more c1 = sock.more (c\<lparr>context_id := step_context acc, ctx_flags := step_flags acc\<rparr>)"
proof -
  from context_token_roomy [OF assms(1,2,4)] obtain c1 where
    1: "context_token c = (Some tok, c1)" "roomy (length out + n) c1" "sock.more c1 = sock.more c"
      "sent c1 = sent c" "incoming (rd c1) = rest" by blast
  note m = sock_more_client [OF 1(3)]
  from accept_token_roomy [OF 1(2) _ _ assms(6,7)] m assms(3,5) obtain c2 where
    2: "accept_token a tok c1 = (Some acc, c2)" "roomy n c2" "sent c2 = sent c1 @ frames out"
      "sock.more c2 = sock.more (c1\<lparr>context_id := step_context acc, ctx_flags := step_flags acc\<rparr>)"
      "incoming (rd c2) = incoming (rd c1)" by auto
  have "sock.more (c1\<lparr>context_id := step_context acc, ctx_flags := step_flags acc\<rparr>)
      = sock.more (c\<lparr>context_id := step_context acc, ctx_flags := step_flags acc\<rparr>)"
    using 1(3) by (cases c; cases c1) simp
  with 1 2 show ?thesis by (auto simp: negotiate.simps [of a c])
qed

lemma negotiate_run:
  assumes "gss_run i cred name a ctx tok dtx cs ss st acc"
    and "roomy (length ss) c" "context_id c = dtx" "protocol c = 2" "incoming (rd c) = frames cs @ rest"
  shows "\<exists>c1. negotiate a c = (Some acc, c1) \<and> sent c1 = sent c @ frames ss \<and> incoming (rd c1) = rest
     \<and> roomy 0 c1 \<and> sock.more c1 = sock.more (c\<lparr>context_id := step_context acc, ctx_flags := step_flags acc\<rparr>)"
  using assms
proof (induction arbitrary: c rule: gss_run.induct)
  case (server_ends ctx tok st dtx acc)
  with accept_round [of "[]" 0 c "step_token st" rest a acc] show ?case by auto
next
  case (client_ends ctx tok st dtx acc st1)
  with accept_round [of "[step_token acc]" 0 c "step_token st" rest a acc] show ?case by auto
next
  case (both_continue ctx tok st dtx acc cs ss st1 acc1)
  let ?c = "c\<lparr>context_id := step_context acc, ctx_flags := step_flags acc\<rparr>"
  from both_continue accept_round [of "[step_token acc]" "length ss" c "step_token st" "frames cs @ rest" a acc]
  obtain c1 where
    1: "negotiate a c = negotiate a c1" "roomy (length ss) c1"
      "sent c1 = sent c @ frames [step_token acc]" "incoming (rd c1) = frames cs @ rest"
      "sock.more c1 = sock.more ?c" by auto
  note m = sock_more_client [OF 1(5)]
  from both_continue.IH [OF 1(2) _ _ 1(4)] m both_continue.prems obtain c2 where
    2: "negotiate a c1 = (Some acc1, c2)" "sent c2 = sent c1 @ frames ss" "incoming (rd c2) = rest" "roomy 0 c2"
      "sock.more c2 = sock.more (c1\<lparr>context_id := step_context acc1, ctx_flags := step_flags acc1\<rparr>)"
    by auto
  have "sock.more (c1\<lparr>context_id := step_context acc1, ctx_flags := step_flags acc1\<rparr>)
      = sock.more (c\<lparr>context_id := step_context acc1, ctx_flags := step_flags acc1\<rparr>)"
    using 1(5) by (cases c; cases c1) simp
  with 1 2 show ?case by auto
qed

subsection \<open>Both ends\<close>

lemma open_context_run:
  assumes "gss_run i cred name a (i_no_context i) None dtx cs ss st acc"
    and "roomy (Suc (length cs)) r" "0 \<le> r_timeout r" "r_protocol r = 0 \<or> r_protocol r = 2"
    and "incoming (rd r) = frames ss" "step_flags st AND req_gss_flags = req_gss_flags"
  shows "\<exists>r1. open_context i cred name r = (True, r1) \<and> r_protocol r1 = 2 \<and> context_id r1 = step_context st
     \<and> has_context r1 \<and> fd r1 = fd r
     \<and> sent r1 = sent r @ token_frame (TOKEN_NOOP OR TOKEN_CONTEXT_NEXT OR TOKEN_PROTOCOL) [] @ frames cs"
proof -
  let ?r = "if r_protocol r = 0 then r\<lparr>r_protocol := 2\<rparr> else r"
  have "roomy (Suc (length cs)) ?r" "length [] \<le> TOKEN_MAX_LENGTH" "0 \<le> r_timeout ?r" using assms(2,3) by simp_all
  from send_roomy [OF this, of "TOKEN_NOOP OR TOKEN_CONTEXT_NEXT OR TOKEN_PROTOCOL"] obtain r1 where
    1: "token_send (TOKEN_NOOP OR TOKEN_CONTEXT_NEXT OR TOKEN_PROTOCOL) [] (r_timeout ?r) ?r = (TOKEN_OK, r1)"
      "roomy (length cs) r1"
      "sent r1 = sent ?r @ token_frame (TOKEN_NOOP OR TOKEN_CONTEXT_NEXT OR TOKEN_PROTOCOL) []"
      "incoming (rd r1) = incoming (rd ?r)" "sock.more r1 = sock.more ?r" by blast
  note m = sock_more_remctl [OF 1(5)]
  have p: "r_protocol ?r = 2" "incoming (rd ?r) = frames ss @ []" "fd ?r = fd r" "sent ?r = sent r"
    "r_timeout ?r = r_timeout r"
    using assms(4,5) by auto
  from init_loop_run [OF assms(1) 1(2), of "[]"] m p 1(4) assms(3) obtain r2 where
    2: "init_loop i cred name (i_no_context i) None r1 = (Some st, r2)" "sock.more r2 = sock.more r1"
      "sent r2 = sent r1 @ frames cs" by auto
  note m2 = sock_more_remctl [OF 2(2)]
  show ?thesis
    using 1(1,3) 2 m m2 p assms(6) by (simp add: open_context_def Let_def)
qed

lemma name_client_named:
  assumes "display_name a (src_name acc) = Inr (n, anon)" "ctx_flags c AND req_gss_flags = req_gss_flags"
  shows "\<exists>c1. name_client a acc c = (True, c1) \<and> user c1 = x_strndup n (length n) \<and> anonymous c1 = anon
     \<and> protocol c1 = protocol c \<and> context_id c1 = context_id c \<and> sent c1 = sent c
     \<and> rd c1 = rd c \<and> (calm c \<longrightarrow> calm c1)"
  using assms by (auto simp: name_client_def Let_def sys_time_def calm_def split: list.splits)

lemma server_new_client_run:
  assumes "gss_run i cred name a ctx None (no_context a) cs ss st acc"
    and "roomy (length ss) c" "step_flags acc AND req_gss_flags = req_gss_flags"
    and "incoming (rd c) = token_frame (TOKEN_NOOP OR TOKEN_CONTEXT_NEXT OR TOKEN_PROTOCOL) [] @ frames cs @ rest"
    and "display_name a (src_name acc) = Inr (n, anon)"
  shows "\<exists>c1. server_new_client a (Peer (Inr ip) hn) c = (True, c1) \<and> protocol c1 = 2
     \<and> context_id c1 = step_context acc \<and> user c1 = x_strndup n (length n) \<and> anonymous c1 = anon
     \<and> sent c1 = sent c @ frames ss \<and> calm c1 \<and> incoming (rd c1) = rest"
proof -
  let ?c = "(fresh_client a c)\<lparr>ipaddress := ip, hostname := hn\<rparr>"
  have f: "roomy (length ss) ?c" "incoming (rd ?c) = incoming (rd c)" "sent ?c = sent c" "context_id ?c = no_context a"
    using assms(2) by (simp_all add: fresh_client_def roomy_def calm_def)
  have l: "length [] \<le> TOKEN_MAX_LENGTH" "0 \<le> TIMEOUT" by (simp_all add: TIMEOUT_def)
  from recv_roomy [OF f(1) _ l, of "TOKEN_NOOP OR TOKEN_CONTEXT_NEXT OR TOKEN_PROTOCOL" "frames cs @ rest"] f(2) assms(4)
  obtain c1 where
    1: "token_recv TOKEN_MAX_LENGTH TIMEOUT ?c = (Inr (TOKEN_NOOP OR TOKEN_CONTEXT_NEXT OR TOKEN_PROTOCOL, []), c1)"
      "roomy (length ss) c1" "sent c1 = sent ?c" "incoming (rd c1) = frames cs @ rest" "sock.more c1 = sock.more ?c" by auto
  note m = sock_more_client [OF 1(5)]
  have i: "initial_token ?c = (True, c1\<lparr>protocol := 2\<rparr>)" by (simp add: initial_token_def 1(1))
  have "incoming (rd (c1\<lparr>protocol := 2\<rparr>)) = frames cs @ rest" using 1(4) by simp
  from negotiate_run [OF assms(1) _ _ _ this] 1(2) m f(4) obtain c2 where
    2: "negotiate a (c1\<lparr>protocol := 2\<rparr>) = (Some acc, c2)" "sent c2 = sent c1 @ frames ss"
      "incoming (rd c2) = rest" "calm c2"
      "sock.more c2 = sock.more (c1\<lparr>protocol := 2, context_id := step_context acc, ctx_flags := step_flags acc\<rparr>)"
    by (auto dest: roomy_calm)
  note m2 = sock_more_client [OF 2(5)]
  obtain c3 where
    3: "name_client a acc c2 = (True, c3)" "user c3 = x_strndup n (length n)" "anonymous c3 = anon"
      "protocol c3 = protocol c2" "context_id c3 = context_id c2" "sent c3 = sent c2"
      "rd c3 = rd c2" "calm c3"
    using name_client_named [OF assms(5), of c2] m2 assms(3) 2(4) by auto
  show ?thesis
    using i 2(1,2,3) 3 m2 1(3) f(3) by (simp add: server_new_client_def peer_address_def)
qed

subsection \<open>Properties\<close>

text \<open>
  C12: when the mechanism's calls run to completion at both ends, however many
  tokens it takes, with the protection the protocol requires, and the network
  carries the octets of each end to the other, then the client's \<open>internal_open\<close>
  and the server's \<open>server_new_client\<close> both succeed with protocol two, holding
  the two contexts of the run, and the server knows the client by the name the
  mechanism authenticated.
\<close>

theorem handshake_completes:
  assumes "gss_run i None name a (i_no_context i) None (no_context a) cs ss st acc"
    and "import_name i True (''host@'' @ h) = Inr name" "display_name a (src_name acc) = Inr (n, anon)"
    and "step_flags st AND req_gss_flags = req_gss_flags" "step_flags acc AND req_gss_flags = req_gss_flags"
    and "roomy (Suc (length cs)) r" "0 \<le> r_timeout r" "r_protocol r = 0" "ccache r = None"
    and "roomy (length ss) c"
    and "incoming (rd r) = frames ss"
    and "incoming (rd c) = token_frame (TOKEN_NOOP OR TOKEN_CONTEXT_NEXT OR TOKEN_PROTOCOL) [] @ frames cs"
  shows "\<exists>r1 c1. internal_open i (Some h) None r = Inr (True, r1)
     \<and> server_new_client a (Peer (Inr ip) hn) c = (True, c1)
     \<and> sent r1 = sent r @ incoming (rd c) \<and> sent c1 = sent c @ incoming (rd r)
     \<and> r_protocol r1 = 2 \<and> protocol c1 = 2
     \<and> context_id r1 = step_context st \<and> context_id c1 = step_context acc
     \<and> user c1 = x_strndup n (length n) \<and> anonymous c1 = anon"
proof -
  from open_context_run [OF assms(1,6,7) _ assms(11,4)] assms(8) obtain r1 where
    "open_context i None name r = (True, r1)" "r_protocol r1 = 2" "context_id r1 = step_context st"
    "sent r1 = sent r @ token_frame (TOKEN_NOOP OR TOKEN_CONTEXT_NEXT OR TOKEN_PROTOCOL) [] @ frames cs" by auto
  moreover from server_new_client_run [OF assms(1,10,5) _ assms(3), of "[]"] assms(12) obtain c1 where
    "server_new_client a (Peer (Inr ip) hn) c = (True, c1)" "protocol c1 = 2" "context_id c1 = step_context acc"
    "user c1 = x_strndup n (length n)" "anonymous c1 = anon" "sent c1 = sent c @ frames ss" by auto
  ultimately show ?thesis
    using assms(2,9,11,12) by (simp add: internal_open_def internal_import_name_def)
qed

text \<open>A mechanism of one round trip, as Kerberos is with mutual authentication.\<close>

definition demo_initiator :: "(nat, string, unit) initiator" where
  "demo_initiator = \<lparr>i_no_context = 0, import_name = (\<lambda>b n. Inr n), krb5_init_context = None,
     krb5_cc_resolve = (\<lambda>p. None), import_cred = (\<lambda>p. Inr ()),
     init_sec_context = (\<lambda>k c n t. case t of
        None \<Rightarrow> \<lparr>step_major = GSS_S_CONTINUE_NEEDED, step_context = 1, step_token = ''AP-REQ'', step_flags = 0\<rparr>
      | Some _ \<Rightarrow> \<lparr>step_major = GSS_S_COMPLETE, step_context = 0, step_token = [], step_flags = 50\<rparr>)\<rparr>"

definition demo_acceptor :: "(nat, string) acceptor" where
  "demo_acceptor = \<lparr>no_context = 0,
     accept_sec_context = (\<lambda>c t. \<lparr>step_major = GSS_S_COMPLETE, step_context = 0, step_token = ''AP-REP'',
        step_flags = 50, src_name = ''eagle@EX'', time_rec = 3600\<rparr>),
     display_name = (\<lambda>n. Inr (n, False)), delete_sec_context = (\<lambda>c. GSS_S_COMPLETE)\<rparr>"

lemma demo_mechanism [simp]:
  "init_sec_context demo_initiator k c n None
     = \<lparr>step_major = GSS_S_CONTINUE_NEEDED, step_context = 1, step_token = ''AP-REQ'', step_flags = 0\<rparr>"
  "init_sec_context demo_initiator k c n (Some t)
     = \<lparr>step_major = GSS_S_COMPLETE, step_context = 0, step_token = [], step_flags = 50\<rparr>"
  "accept_sec_context demo_acceptor d t = \<lparr>step_major = GSS_S_COMPLETE, step_context = 0,
     step_token = ''AP-REP'', step_flags = 50, src_name = ''eagle@EX'', time_rec = 3600\<rparr>"
  by (simp_all add: demo_initiator_def demo_acceptor_def)

lemma demo_gss_run:
  "gss_run demo_initiator None name demo_acceptor 0 None 0 [''AP-REQ''] [''AP-REP'']
     \<lparr>step_major = GSS_S_COMPLETE, step_context = 0, step_token = [], step_flags = 50\<rparr>
     (accept_sec_context demo_acceptor 0 ''AP-REQ'')"
  using client_ends [of demo_initiator None 0 name None _ demo_acceptor 0, OF refl _ _ refl _ _ refl]
  by (simp add: token_fits_def TOKEN_MAX_LENGTH_def)

definition demo_opening :: "nat remctl" where
  "demo_opening = chan.extend (sock.extend
       \<lparr>sel = [], rd = [Rd_Data (frames [''AP-REP''])], wr = replicate 2 (Wr_Room (TOKEN_MAX_LENGTH + 5)),
        clock = [], sent = [], socket_errno = EINVAL\<rparr> \<lparr>context_id = 0, gss_error = (0, 0)\<rparr>)
     \<lparr>host = Some ''h'', port = 0, principal = None, r_protocol = 0, source = None, r_timeout = 0,
      ccache = None, fd = Some 3, has_context = False, r_error = None, r_output = None, r_status = 0,
      ready = False, krb_ctx = False, krb_ccache = None, closes = [], dials = []\<rparr>"

definition demo_accepting :: "nat server" where
  "demo_accepting = demo_server\<lparr>
     rd := [Rd_Data (token_frame (TOKEN_NOOP OR TOKEN_CONTEXT_NEXT OR TOKEN_PROTOCOL) [] @ frames [''AP-REQ''])],
     wr := [Wr_Room (TOKEN_MAX_LENGTH + 5)]\<rparr>"

lemma demo_ends:
  "roomy (Suc (Suc 0)) demo_opening" "roomy (Suc 0) demo_accepting" "incoming (rd demo_opening) = frames [''AP-REP'']"
  "incoming (rd demo_accepting)
     = token_frame (TOKEN_NOOP OR TOKEN_CONTEXT_NEXT OR TOKEN_PROTOCOL) [] @ frames [''AP-REQ'']"
  "r_timeout demo_opening = 0" "r_protocol demo_opening = 0" "ccache demo_opening = None"
  by (auto simp: demo_opening_def chan.extend_def sock.extend_def roomy_def calm_def token_frame_def
      demo_accepting_def demo_server_def client.extend_def demo_client_def demo_chan_def idle_def)

theorem handshake_completes_witness:
  "\<exists>r1 c1. internal_open demo_initiator (Some ''h'') None demo_opening = Inr (True, r1)
     \<and> server_new_client demo_acceptor (Peer (Inr ''127.0.0.1'') None) demo_accepting = (True, c1)
     \<and> r_protocol r1 = 2 \<and> protocol c1 = 2 \<and> context_id r1 = 0 \<and> context_id c1 = 0 \<and> user c1 = ''eagle@EX''"
proof -
  let ?st = "\<lparr>step_major = GSS_S_COMPLETE, step_context = 0, step_token = [], step_flags = 50\<rparr> :: nat gss_step"
  let ?acc = "accept_sec_context demo_acceptor 0 ''AP-REQ''"
  have "gss_run demo_initiator None ''host@h'' demo_acceptor (i_no_context demo_initiator) None
      (no_context demo_acceptor) [''AP-REQ''] [''AP-REP''] ?st ?acc"
    using demo_gss_run by (simp add: demo_initiator_def demo_acceptor_def)
  moreover have "import_name demo_initiator True (''host@'' @ ''h'') = Inr ''host@h''"
    by (simp add: demo_initiator_def)
  moreover have "display_name demo_acceptor (src_name ?acc) = Inr (''eagle@EX'', False)"
    "step_context ?acc = 0" "step_flags ?acc AND req_gss_flags = req_gss_flags"
    "step_flags ?st AND req_gss_flags = req_gss_flags"
    by (simp_all add: demo_acceptor_def req_gss_flags_def GSS_C_MUTUAL_FLAG_def GSS_C_CONF_FLAG_def
        GSS_C_INTEG_FLAG_def)
  ultimately show ?thesis
    using handshake_completes [of demo_initiator "''host@h''" demo_acceptor "[''AP-REQ'']" "[''AP-REP'']"
        ?st ?acc "''h''" "''eagle@EX''" False demo_opening demo_accepting "''127.0.0.1''" None] demo_ends
    by (auto simp: x_strndup_def)
qed

subsection \<open>Serving the connection\<close>

text \<open>
  C1: everything started on a connection is authorised for the identity that the
  negotiation on that very connection established: the name the mechanism
  authenticated, with protocol one, or with protocol two and mutual
  authentication, confidentiality and integrity. Without an established context
  nothing is started. Either way the descriptor of the connection is closed.
\<close>

theorem handle_connection_authorised:
  fixes c :: "('c, 'z) server_scheme"
  assumes "handle_connection g a depth env rs peer n c = Inr c1"
  shows "(spawned c1 = spawned c
       \<or> (\<exists>(c0 :: ('c, 'z) server_scheme) new. server_new_client a peer c = (True, c0) \<and> established a c0
            \<and> spawned c1 = spawned c @ new \<and> (\<forall>sp \<in> set new. authorised depth env rs c0 sp)))
     \<and> last (closed c1) = n"
proof -
  obtain ok c0 where 0: "server_new_client a peer c = (ok, c0)" by fastforce
  note r = server_new_client_result [OF 0]
  then have sp: "spawned c0 = spawned c" by (cases c; cases c0) simp
  show ?thesis
  proof (cases ok)
    case False
    with assms 0 sp show ?thesis by (auto simp: handle_connection_def)
  next
    case True
    with assms 0 obtain c2 where
      2: "(if protocol c0 = 1 then server_v1_handle_messages g depth env rs c0
           else server_v2_handle_messages g depth env rs c0) = Inr c2" "c1 = server_free_client a n c2"
      by (auto simp: handle_connection_def exec)
    have i: "ident (c0\<lparr>keepalive := True\<rparr>) = ident c0" by simp
    have "\<exists>new. spawned c2 = spawned c0 @ new \<and> (\<forall>sp \<in> set new. authorised depth env rs c0 sp)"
      using 2(1) server_v1_handle_messages_served [of g depth env rs c0 c2]
        v2_messages_loop_served [of g depth env rs "c0\<lparr>keepalive := True\<rparr>" c2]
      by (auto simp: server_v2_handle_messages_def served_def authorised_ident [OF i] split: if_split_asm)
    moreover have "spawned c1 = spawned c2" "last (closed c1) = n"
      by (auto simp: 2(2) server_free_client_def Let_def log_msg_def split: gss_major.splits)
    ultimately show ?thesis using True 0 r sp by auto
  qed
qed

definition demo_connection :: "nat server" where
  "demo_connection = demo_server\<lparr>
     rd := [Rd_Data (token_frame (TOKEN_NOOP OR TOKEN_CONTEXT_NEXT OR TOKEN_PROTOCOL) [] @ frames [''AP-REQ'']
              @ token_frame (TOKEN_DATA OR TOKEN_PROTOCOL) (CHR ''#'' # [CHR 0x02, CHR 0x02]))],
     wr := [Wr_Room (TOKEN_MAX_LENGTH + 5)]\<rparr>"

lemma quit_run:
  assumes "calm c" "context_id c = 0"
    and "incoming (rd c) = token_frame (TOKEN_DATA OR TOKEN_PROTOCOL) (CHR ''#'' # [CHR 0x02, CHR 0x02])"
  shows "\<exists>c1. server_v2_handle_messages demo_gss depth env rs c = Inr c1"
proof -
  let ?c = "c\<lparr>keepalive := True\<rparr>"
  obtain c1 where "token_recv_priv demo_gss TOKEN_MAX_LENGTH TIMEOUT ?c
      = (Inr (TOKEN_DATA OR TOKEN_PROTOCOL, [CHR 0x02, CHR 0x02]), c1)"
    using recv_wrapped [OF demo_sealed, of 0 ?c "[CHR 0x02, CHR 0x02]" 1 "CHR ''#'' # [CHR 0x02, CHR 0x02]"
        "TOKEN_DATA OR TOKEN_PROTOCOL" TOKEN_MAX_LENGTH TIMEOUT "[]"] assms
    by (auto simp: demo_gss_def TOKEN_MAX_LENGTH_def TIMEOUT_def calm_def)
  then show ?thesis
    by (simp add: server_v2_handle_messages_def v2_messages_loop.simps [of demo_gss] server_v2_read_token_def
        server_v2_handle_token_def octet_def schar_def message_types)
qed

theorem handle_connection_authorised_witness:
  "\<exists>c0 c1. server_new_client demo_acceptor (Peer (Inr ''127.0.0.1'') None) demo_connection = (True, c0)
     \<and> user c0 = ''eagle@EX''
     \<and> handle_connection demo_gss demo_acceptor 3 demo_env [demo_anyuser] (Peer (Inr ''127.0.0.1'') None) 4
         demo_connection = Inr c1
     \<and> (\<forall>sp \<in> set (spawned c1). authorised 3 demo_env [demo_anyuser] c0 sp) \<and> last (closed c1) = 4"
proof -
  have run: "gss_run demo_initiator None ''host@h'' demo_acceptor 0 None (no_context demo_acceptor)
      [''AP-REQ''] [''AP-REP''] \<lparr>step_major = GSS_S_COMPLETE, step_context = 0, step_token = [], step_flags = 50\<rparr>
      (accept_sec_context demo_acceptor 0 ''AP-REQ'')"
    using demo_gss_run by (simp add: demo_acceptor_def)
  have r: "roomy (length [''AP-REP'']) demo_connection" "incoming (rd demo_connection)
      = token_frame (TOKEN_NOOP OR TOKEN_CONTEXT_NEXT OR TOKEN_PROTOCOL) [] @ frames [''AP-REQ'']
          @ token_frame (TOKEN_DATA OR TOKEN_PROTOCOL) (CHR ''#'' # [CHR 0x02, CHR 0x02])"
    "spawned demo_connection = []"
    by (auto simp: demo_connection_def roomy_def calm_def token_frame_def)
  have f: "step_flags (accept_sec_context demo_acceptor 0 ''AP-REQ'') AND req_gss_flags = req_gss_flags"
    "display_name demo_acceptor (src_name (accept_sec_context demo_acceptor 0 ''AP-REQ'')) = Inr (''eagle@EX'', False)"
    by (simp_all add: demo_acceptor_def req_gss_flags_def GSS_C_MUTUAL_FLAG_def GSS_C_CONF_FLAG_def
        GSS_C_INTEG_FLAG_def)
  obtain c0 where 0: "server_new_client demo_acceptor (Peer (Inr ''127.0.0.1'') None) demo_connection = (True, c0)"
    "protocol c0 = 2" "context_id c0 = 0" "user c0 = ''eagle@EX''" "calm c0"
    "incoming (rd c0) = token_frame (TOKEN_DATA OR TOKEN_PROTOCOL) (CHR ''#'' # [CHR 0x02, CHR 0x02])"
    using server_new_client_run [OF run r(1) f(1) r(2) f(2), of "''127.0.0.1''" None] by (auto simp: x_strndup_def)
  obtain c2 where "server_v2_handle_messages demo_gss 3 demo_env [demo_anyuser] c0 = Inr c2"
    using quit_run [OF 0(5,3,6)] by blast
  with 0 have h: "handle_connection demo_gss demo_acceptor 3 demo_env [demo_anyuser]
      (Peer (Inr ''127.0.0.1'') None) 4 demo_connection = Inr (server_free_client demo_acceptor 4 c2)"
    by (simp add: handle_connection_def)
  from handle_connection_authorised [OF h] 0 h r(3) show ?thesis by auto
qed

end
