(* ===== verification/Client_Session.thy ===== *)
theory Client_Session
  imports Client_Server Client_Api Negotiation
begin

text \<open>
  What the client library guarantees its callers: the state after opening a
  connection, the end of the output of a command, and the result that \<open>remctl\<close>
  collects from the answers of a server.
\<close>

subsection \<open>Opening\<close>

text \<open>
  \<open>open_ok ok r r1\<close>: an open either keeps the descriptor and has a context, or
  gives up the descriptor and says why.
\<close>

definition open_ok :: "bool \<Rightarrow> ('c, 'z) remctl_scheme \<Rightarrow> ('c, 'z) remctl_scheme \<Rightarrow> bool" where
  "open_ok ok r r1 \<longleftrightarrow>
     (if ok then fd r1 = fd r \<and> has_context r1 \<and> \<not> ready r1 \<and> r_protocol r1 \<noteq> 0
      else fd r1 = None \<and> r_error r1 \<noteq> None \<and> closes r1 = closes r @ (case fd r of None \<Rightarrow> [] | Some n \<Rightarrow> [n]))"

definition same_conn :: "('c, 'z) remctl_scheme \<Rightarrow> ('c, 'z) remctl_scheme \<Rightarrow> bool" where
  "same_conn r r1 \<longleftrightarrow> fd r1 = fd r \<and> closes r1 = closes r \<and> (r_protocol r \<noteq> 0 \<longrightarrow> r_protocol r1 \<noteq> 0)"

lemma same_conn_refl [simp]: "same_conn r r"
  by (simp add: same_conn_def)

lemma same_conn_trans: "same_conn r r1 \<Longrightarrow> same_conn r1 r2 \<Longrightarrow> same_conn r r2"
  by (auto simp: same_conn_def)

lemma set_error_simps [simp]:
  "fd (internal_set_error e r) = fd r" "closes (internal_set_error e r) = closes r"
  "r_protocol (internal_set_error e r) = r_protocol r" "r_error (internal_set_error e r) = Some e"
  "fd (internal_gssapi_error m g r) = fd r" "closes (internal_gssapi_error m g r) = closes r"
  "r_protocol (internal_gssapi_error m g r) = r_protocol r"
  "r_error (internal_gssapi_error m g r) = Some (Err_gssapi m g)"
  by (simp_all add: internal_set_error_def internal_gssapi_error_def)

lemma token_error_simps [simp]:
  "fd (internal_token_error m st r) = fd r" "closes (internal_token_error m st r) = closes r"
  "r_protocol (internal_token_error m st r) = r_protocol r" "\<exists>e. r_error (internal_token_error m st r) = Some e"
  by (cases st; simp add: internal_token_error_def)+

lemma chan_more_conn: "chan.more r1 = chan.more r \<Longrightarrow> same_conn r r1"
  for r r1 :: "('c, 'z) remctl_scheme"
  by (cases r; cases r1) (simp add: same_conn_def)

lemmas token_send_conn = chan_more_conn [OF conjunct1 [OF frames_more(1) [OF token_send_more]]]
lemmas token_recv_conn = chan_more_conn [OF conjunct1 [OF frames_more(2) [OF token_recv_more]]]

lemma init_send_conn:
  assumes "init_send st r = (ok, r1)"
  shows "same_conn r r1 \<and> (\<not> ok \<longrightarrow> r_error r1 \<noteq> None)"
proof -
  obtain s r2 where s: "(if step_token st \<noteq> [] then token_send (context_flags (r_protocol r)) (step_token st) (r_timeout r) r
      else (TOKEN_OK, r)) = (s, r2)" by fastforce
  have "same_conn r r2" using s by (auto split: if_split_asm dest: token_send_conn)
  with assms s show ?thesis
    by (auto simp: init_send_def Let_def same_conn_def split: if_split_asm gss_major.split_asm)
qed

lemma init_recv_conn:
  assumes "init_recv r = (t, r1)"
  shows "same_conn r r1 \<and> (t = None \<longrightarrow> r_error r1 \<noteq> None)"
proof -
  obtain x r2 where x: "token_recv TOKEN_MAX_LENGTH (r_timeout r) r = (x, r2)" by fastforce
  from token_recv_conn [OF x] assms x show ?thesis
    by (cases x) (auto simp: init_recv_def same_conn_def split: if_split_asm)
qed

lemma init_loop_conn:
  "init_loop i cred name ctx tok r = (st, r1) \<Longrightarrow> same_conn r r1 \<and> (st = None \<longrightarrow> r_error r1 \<noteq> None)"
proof (induction i cred name ctx tok r rule: init_loop.induct)
  case (1 i cred name ctx tok r)
  let ?st = "init_sec_context i cred ctx name tok"
  obtain ok r2 where 2: "init_send ?st r = (ok, r2)" by fastforce
  note c2 = init_send_conn [OF 2]
  show ?case
  proof (cases "ok \<and> step_major ?st = GSS_S_CONTINUE_NEEDED")
    case False
    with "1.prems" 2 c2 show ?thesis
      by (cases ok) (auto simp: init_loop.simps [of i cred name ctx tok r] Let_def)
  next
    case True
    obtain t r3 where 3: "init_recv r2 = (t, r3)" by fastforce
    note c3 = init_recv_conn [OF 3]
    show ?thesis
    proof (cases t)
      case None
      with True "1.prems" 2 3 c2 c3 show ?thesis
        by (auto simp: init_loop.simps [of i cred name ctx tok r] Let_def intro: same_conn_trans)
    next
      case (Some tok1)
      with True "1.prems" 2 3 have "init_loop i cred name (step_context ?st) (Some tok1) r3 = (st, r1)"
        by (simp add: init_loop.simps [of i cred name ctx tok r] Let_def)
      with "1.IH" [OF refl, of True r2 t r3 tok1] True Some 2 3 c2 c3 show ?thesis
        by (auto intro: same_conn_trans)
    qed
  qed
qed

lemma open_failed_ok: "same_conn r r1 \<Longrightarrow> r_error r1 \<noteq> None \<Longrightarrow> open_ok False r (open_failed r1)"
  by (auto simp: open_ok_def open_failed_def socket_close_def same_conn_def split: option.splits)

lemma open_context_ok:
  assumes "open_context i cred name r = (ok, r1)"
  shows "open_ok ok r r1"
proof -
  let ?r = "if r_protocol r = 0 then r\<lparr>r_protocol := 2\<rparr> else r"
  let ?f = "TOKEN_NOOP OR TOKEN_CONTEXT_NEXT OR TOKEN_PROTOCOL"
  obtain s r2 where 2: "token_send ?f [] (r_timeout ?r) ?r = (s, r2)" by fastforce
  obtain st r3 where 3: "init_loop i cred name (i_no_context i) None r2 = (st, r3)" by fastforce
  have c0: "same_conn r ?r" "r_protocol ?r \<noteq> 0" by (auto simp: same_conn_def)
  have c2: "same_conn r r2" "r_protocol r2 \<noteq> 0"
    using token_send_conn [OF 2] c0 by (auto simp: same_conn_def split: if_split_asm)
  have c3: "same_conn r r3" "r_protocol r3 \<noteq> 0" "st = None \<Longrightarrow> r_error r3 \<noteq> None"
    using init_loop_conn [OF 3] c2 by (auto simp: same_conn_def)
  show ?thesis
  proof (cases "s = TOKEN_OK")
    case False
    have "same_conn r (internal_token_error ''sending initial token'' s r2)"
      using c2 by (simp add: same_conn_def)
    with False assms 2 show ?thesis by (auto simp: open_context_def Let_def intro: open_failed_ok)
  next
    case True
    show ?thesis
    proof (cases st)
      case None
      with True assms 2 3 c3 show ?thesis by (auto simp: open_context_def Let_def intro: open_failed_ok)
    next
      case (Some x)
      have "same_conn r (internal_set_error e r3)" for e using c3(1) by (simp add: same_conn_def)
      with Some True assms 2 3 c3 show ?thesis
        by (auto simp: open_context_def Let_def split: if_split_asm intro!: open_failed_ok)
           (auto simp: open_ok_def same_conn_def)
    qed
  qed
qed

lemma internal_open_ok:
  assumes "internal_open i h princ r = Inr (ok, r1)"
  shows "open_ok ok r r1"
proof -
  obtain name r2 where 2: "internal_import_name i h princ r = Inr (name, r2)"
    using assms by (auto simp: internal_open_def exec)
  have c2: "same_conn r r2 \<and> (name = None \<longrightarrow> r_error r2 \<noteq> None) \<and> (name \<noteq> None \<longrightarrow> r2 = r)"
    using 2 by (auto simp: internal_import_name_def same_conn_def split: option.split_asm sum.split_asm)
  show ?thesis
  proof (cases name)
    case None
    with assms 2 c2 show ?thesis by (auto simp: internal_open_def intro: open_failed_ok)
  next
    case (Some nm)
    with c2 have r2: "r2 = r" by simp
    show ?thesis
    proof (cases "ccache r")
      case None
      with Some assms 2 r2 show ?thesis by (auto simp: internal_open_def intro: open_context_ok)
    next
      case (Some path)
      obtain k r3 where 3: "internal_set_cred i path r = (k, r3)" by fastforce
      have c3: "same_conn r r3" "k = None \<Longrightarrow> r_error r3 \<noteq> None"
        using 3 by (auto simp: internal_set_cred_def Let_def same_conn_def
            split: option.split_asm sum.split_asm if_split_asm)
      have "open_ok ok r3 r1 \<Longrightarrow> open_ok ok r r1" using c3(1) by (auto simp: open_ok_def same_conn_def)
      with assms 2 3 c3 r2 \<open>name = Some nm\<close> Some show ?thesis
        by (cases k) (auto simp: internal_open_def intro: open_failed_ok dest!: sym [of "open_context _ _ _ _"]
            open_context_ok [OF sym])
    qed
  qed
qed

lemma internal_connect_result:
  assumes "internal_connect p h prt r = (n, r1)"
  shows "fd r1 = fd r \<and> (n = None \<longrightarrow> r_error r1 \<noteq> None)"
  using assms
  by (auto simp: internal_connect_def use_sock_def split: list.split_asm dial.split_asm prod.split_asm sum.split_asm)


text \<open>
  A struct that did hold a connection keeps the number of the closed descriptor
  when the new connection fails, and closing the struct closes it again.
\<close>

lemma reopen_stale_descriptor:
  assumes "fd r = Some n" "r_protocol r = 1" "dials r = [Unknown_host m]" "prt \<noteq> 0"
  shows "\<exists>r1. remctl_open p i g h prt princ r = Inr (False, r1) \<and> fd r1 = Some n
     \<and> closes (remctl_close g r1) = closes r @ [n, n]"
  using assms
  by (simp add: remctl_open_def internal_reset_def socket_close_def internal_connect_def remctl_close_def
      internal_set_error_def)

subsection \<open>The end of the output\<close>

lemma v2_read_token_protocol:
  assumes "internal_v2_read_token g r = (t, r1)"
  shows "r_protocol r1 = r_protocol r"
proof -
  obtain x r2 where x: "token_recv_priv g TOKEN_MAX_LENGTH (r_timeout r) r = (x, r2)" by fastforce
  have "r_protocol r2 = r_protocol r" using token_recv_priv_more [OF x] by (cases r; cases r2) simp
  with assms x show ?thesis
    by (cases x) (auto simp: internal_v2_read_token_def Let_def socket_close_def split: if_split_asm option.split_asm)
qed

lemma v2_output_protocol:
  assumes "internal_v2_output g r = (out, r1)"
  shows "r_protocol r1 = r_protocol r"
proof -
  obtain t r2 where t: "internal_v2_read_token g (r\<lparr>r_output := Some internal_output_wipe\<rparr>) = (t, r2)" by fastforce
  from v2_read_token_protocol [OF t] assms t show ?thesis
    by (cases t) (auto simp: internal_v2_output_def Let_def split: if_split_asm sum.split_asm)
qed

text \<open>
  C15: with protocol two, once the status or the error of a command has been
  returned, every further call returns \<open>REMCTL_OUT_DONE\<close>, without touching the
  connection, until a new command is sent.
\<close>

theorem output_done_after_end:
  assumes "api_output g r = (Some out, r1)" "r_protocol r \<noteq> 1" "fd r1 \<noteq> None" "out_type out \<noteq> REMCTL_OUT_OUTPUT"
  shows "\<exists>r2. api_output g r1 = (Some internal_output_wipe, r2) \<and> api_output g r2 = (Some internal_output_wipe, r2)
     \<and> sent r2 = sent r1 \<and> rd r2 = rd r1 \<and> fd r2 = fd r1"
proof -
  have o: "internal_v2_output g (r\<lparr>r_error := None\<rparr>) = (Some out, r1)"
    using assms(1,2) by (auto simp: api_output_def Let_def split: if_split_asm)
  have "\<not> ready r1"
  proof (cases "ready r")
    case False
    with o show ?thesis by (auto simp: internal_v2_output_def Let_def)
  next
    case True
    obtain t r2 where t: "internal_v2_read_token g (r\<lparr>r_error := None, r_output := Some internal_output_wipe\<rparr>)
        = (t, r2)" by fastforce
    obtain tok where "t = Some tok" using o t True by (cases t) (auto simp: internal_v2_output_def Let_def)
    moreover obtain again where "v2_decode tok = Inl (out, again)" "r1 = r2\<lparr>r_output := Some out, ready := ready r2 \<and> again\<rparr>"
      using o t True calculation by (auto simp: internal_v2_output_def Let_def split: sum.split_asm)
    ultimately show ?thesis
      using assms(4) by (auto simp: v2_decode_def Let_def internal_output_wipe_def
          split: if_split_asm option.split_asm)
  qed
  moreover have "r_protocol r1 = r_protocol r" using v2_output_protocol [OF o] by simp
  ultimately show ?thesis
    using assms(2,3) by (auto simp: api_output_def internal_v2_output_def Let_def)
qed

lemma read_linked_client:
  fixes r :: "('c, 'z) remctl_scheme"
  assumes g: "gss_sealed g R ov" and l: "linked g R x r (t # ts) x1 rest"
    and len: "length t + ov \<le> TOKEN_MAX_LENGTH" and t: "0 \<le> r_timeout r" "2 \<le> length t" "schar (t ! 0) = 2 \<or> schar (t ! 0) = 3"
  shows "\<exists>y r1. internal_v2_read_token g r = (Some t, r1) \<and> linked g R y r1 ts x1 rest \<and> chan.more r1 = chan.more r"
proof -
  from l obtain y w bs1 where w: "gss_wrap g x t = (y, Inr w)" "wraps g y ts x1 bs1"
    "incoming (rd r) = token_frame (TOKEN_DATA OR TOKEN_PROTOCOL) w @ bs1 @ rest"
    and c: "R x (context_id r)" "calm r" by (auto simp: linked_def)
  from recv_wrapped [OF g c(1) w(1) mic_flags(1) len _ c(2) t(1) w(3)] obtain r1 where
    "token_recv_priv g TOKEN_MAX_LENGTH (r_timeout r) r = (Inr (TOKEN_DATA OR TOKEN_PROTOCOL, t), r1)"
    "R y (context_id r1)" "calm r1" "incoming (rd r1) = bs1 @ rest" "chan.more r1 = chan.more r"
    by (auto simp: TOKEN_MAX_LENGTH_def)
  with w(2) t show ?thesis by (auto simp: internal_v2_read_token_def linked_def)
qed

lemma linked_remctl [simp]:
  "linked g R x (r\<lparr>r_error := e\<rparr>) ts x1 rest = linked g R x r ts x1 rest"
  "linked g R x (r\<lparr>r_output := out\<rparr>) ts x1 rest = linked g R x r ts x1 rest"
  "linked g R x (r\<lparr>ready := b\<rparr>) ts x1 rest = linked g R x r ts x1 rest"
  for r :: "('c, 'z) remctl_scheme"
  by (simp_all add: linked_def calm_def)

text \<open>A message that decodes is returned by the next call.\<close>

lemma api_output_linked:
  fixes r :: "('c, 'z) remctl_scheme"
  assumes "gss_sealed g R ov" "linked g R x r (t # ts) x1 rest" "length t + ov \<le> TOKEN_MAX_LENGTH"
    and "2 \<le> length t" "schar (t ! 0) = 2" "v2_decode t = Inl (out, again)"
    and "0 \<le> r_timeout r" "r_protocol r = 2" "ready r" "fd r = Some n"
  shows "\<exists>y r1. api_output g r = (Some out, r1) \<and> linked g R y r1 ts x1 rest
     \<and> r_timeout r1 = r_timeout r \<and> r_protocol r1 = 2 \<and> ready r1 = again \<and> fd r1 = Some n"
proof -
  let ?r = "r\<lparr>r_error := None, r_output := Some internal_output_wipe\<rparr>"
  have "linked g R x ?r (t # ts) x1 rest" "0 \<le> r_timeout ?r" using assms(2,7) by simp_all
  from read_linked_client [OF assms(1) this(1) assms(3) this(2) assms(4)] assms(5) obtain y r1 where
    1: "internal_v2_read_token g ?r = (Some t, r1)" "linked g R y r1 ts x1 rest" "chan.more r1 = chan.more ?r"
    by blast
  have "r_timeout r1 = r_timeout r \<and> r_protocol r1 = 2 \<and> ready r1 \<and> fd r1 = Some n"
    using 1(3) assms(8-10) by (cases r; cases r1) simp
  with 1 assms(6,8-10) show ?thesis by (auto simp: api_output_def internal_v2_output_def Let_def)
qed

subsection \<open>Collecting the output\<close>

text \<open>How a command ends, the message for it and what it does to the result.\<close>

datatype ending = Exited int | Refused_with error_codes bytes

primrec ending_token :: "ending \<Rightarrow> bytes" where
  "ending_token (Exited st) = v2_status_payload st"
| "ending_token (Refused_with code m) = v2_error_payload code m"

primrec ending_ok :: "nat \<Rightarrow> ending \<Rightarrow> bool" where
  "ending_ok ov (Exited st) \<longleftrightarrow> 0 \<le> st \<and> st \<le> 255 \<and> 3 + ov \<le> TOKEN_MAX_LENGTH"
| "ending_ok ov (Refused_with code m) \<longleftrightarrow> length m + 10 + ov \<le> TOKEN_MAX_LENGTH"

primrec ended :: "ending \<Rightarrow> remctl_result \<Rightarrow> remctl_result" where
  "ended (Exited st) res = res\<lparr>res_status := (if st < 128 then st else st - 256)\<rparr>"
| "ended (Refused_with code m) res = res\<lparr>res_error := Some (c_string m)\<rparr>"

definition stream_data :: "nat \<Rightarrow> (nat \<times> bytes) list \<Rightarrow> bytes" where
  "stream_data s outs = concat (map snd (filter (\<lambda>x. fst x = s) outs))"

definition gathered :: "(nat \<times> bytes) list \<Rightarrow> remctl_result \<Rightarrow> remctl_result \<Rightarrow> bool" where
  "gathered outs res res1 \<longleftrightarrow>
     buf_data (stdout_buf res1) = buf_data (stdout_buf res) @ stream_data 1 outs
     \<and> buf_data (stderr_buf res1) = buf_data (stderr_buf res) @ stream_data 2 outs
     \<and> stdout_buf res1 \<noteq> Freed \<and> stderr_buf res1 \<noteq> Freed"

lemma append_output:
  assumes "s = 1 \<or> s = 2" "d \<noteq> []" "stdout_buf res \<noteq> Freed" "stderr_buf res \<noteq> Freed"
  shows "\<exists>res1. internal_output_append
       (internal_output_wipe\<lparr>out_type := REMCTL_OUT_OUTPUT, out_stream := int s, out_data := d\<rparr>) res = (True, res1)
     \<and> gathered [(s, d)] res res1 \<and> res_error res1 = res_error res \<and> res_status res1 = res_status res"
  using assms
  by (auto simp: internal_output_append_def append_buf_def gathered_def buf_data_def stream_data_def
      internal_output_wipe_def)

lemma gathered_Cons: "gathered [x] res res1 \<Longrightarrow> gathered xs res1 res2 \<Longrightarrow> gathered (x # xs) res res2"
  by (simp add: gathered_def stream_data_def split: if_split_asm)

text \<open>What the library returns for the message that ends a command, and for a piece of output.\<close>

primrec ending_output :: "ending \<Rightarrow> remctl_output" where
  "ending_output (Exited st) =
     internal_output_wipe\<lparr>out_type := REMCTL_OUT_STATUS, out_status := (if st < 128 then st else st - 256)\<rparr>"
| "ending_output (Refused_with code m) =
     internal_output_wipe\<lparr>out_type := REMCTL_OUT_ERROR, out_error := int (error_number code), out_data := m\<rparr>"

definition piece_output :: "nat \<times> bytes \<Rightarrow> remctl_output" where
  "piece_output x = internal_output_wipe\<lparr>out_type := REMCTL_OUT_OUTPUT, out_stream := int (fst x), out_data := snd x\<rparr>"

lemma ending_linked:
  fixes r :: "('c, 'z) remctl_scheme"
  assumes "gss_sealed g R ov" "linked g R x r [ending_token e] x1 rest" "ending_ok ov e"
    and "0 \<le> r_timeout r" "r_protocol r = 2" "ready r" "fd r = Some n"
  shows "\<exists>r1. api_output g r = (Some (ending_output e), r1)"
proof (cases e)
  case (Exited st)
  let ?t = "v2_status_payload st"
  have st: "0 \<le> st" "st \<le> 255" "length ?t = 3" "schar (?t ! 0) = 2"
    using assms(3) Exited by (auto simp: v2_status_payload_def schar_small)
  have dec: "v2_decode ?t = Inl (ending_output e, False)" using decode_status [OF st(1,2)] Exited by simp
  from api_output_linked [OF assms(1) assms(2) [unfolded Exited ending_token.simps] _ _ st(4) dec assms(4-7)]
  show ?thesis using st(3) assms(3) Exited by auto
next
  case (Refused_with code m)
  let ?t = "v2_error_payload code m"
  have m: "length m < 2 ^ 32" "length ?t = 10 + length m" "schar (?t ! 0) = 2"
    using assms(3) Refused_with by (auto simp: v2_error_payload_def schar_small TOKEN_MAX_LENGTH_def)
  have dec: "v2_decode ?t = Inl (ending_output e, False)" using decode_error [OF m(1)] Refused_with by simp
  from api_output_linked [OF assms(1) assms(2) [unfolded Refused_with ending_token.simps] _ _ m(3) dec assms(4-7)]
  show ?thesis using m(2) assms(3) Refused_with by auto
qed

lemma piece_linked:
  fixes r :: "('c, 'z) remctl_scheme"
  assumes "gss_sealed g R ov" "linked g R x r (v2_output_payload s d # ts) x1 rest"
    and "s = 1 \<or> s = 2" "length d + 7 + ov \<le> TOKEN_MAX_LENGTH"
    and "0 \<le> r_timeout r" "r_protocol r = 2" "ready r" "fd r = Some n"
  obtains y r1 where "api_output g r = (Some (piece_output (s, d)), r1)" "linked g R y r1 ts x1 rest"
    "r_timeout r1 = r_timeout r" "r_protocol r1 = 2" "ready r1" "fd r1 = Some n"
proof -
  let ?t = "v2_output_payload s d"
  have d: "length d < 2 ^ 32" "length ?t = 7 + length d" "schar (?t ! 0) = 2"
    using assms(3,4) by (auto simp: v2_output_payload_def schar_small TOKEN_MAX_LENGTH_def)
  have dec: "v2_decode ?t = Inl (piece_output (s, d), True)"
    using decode_output [of s d] assms(3) d by (auto simp: piece_output_def)
  from api_output_linked [OF assms(1,2) _ _ d(3) dec assms(5-8)] d assms(4) show thesis by (auto intro: that)
qed

lemma collect_ending:
  fixes r :: "('c, 'z) remctl_scheme"
  assumes "gss_sealed g R ov" "linked g R x r [ending_token e] x1 rest" "ending_ok ov e"
    and "0 \<le> r_timeout r" "r_protocol r = 2" "ready r" "fd r = Some n" "res_error res = None"
  shows "\<exists>r1. collect render g r res = (ended e res, remctl_close g r1)"
proof -
  obtain r1 where "api_output g r = (Some (ending_output e), r1)" using ending_linked [OF assms(1-7)] by blast
  then show ?thesis
    using assms(8)
    by (cases e) (auto simp: collect.simps [of render g r] internal_output_append_def c_string_def takeWhile_tail)
qed

lemma collect_outputs:
  fixes r :: "('c, 'z) remctl_scheme"
  assumes "gss_sealed g R ov" "linked g R x r (map (\<lambda>(s, d). v2_output_payload s d) outs @ [ending_token e]) x1 rest"
    and "ending_ok ov e" "\<forall>(s, d) \<in> set outs. (s = 1 \<or> s = 2) \<and> d \<noteq> [] \<and> length d + 7 + ov \<le> TOKEN_MAX_LENGTH"
    and "0 \<le> r_timeout r" "r_protocol r = 2" "ready r" "fd r = Some n" "res_error res = None"
    and "stdout_buf res \<noteq> Freed" "stderr_buf res \<noteq> Freed"
  shows "\<exists>res1 r1. collect render g r res = (ended e res1, remctl_close g r1)
     \<and> gathered outs res res1 \<and> res_error res1 = None \<and> res_status res1 = res_status res"
  using assms(2,4-)
proof (induction outs arbitrary: x r res)
  case Nil
  from collect_ending [OF assms(1) _ assms(3), of x r x1 rest n res render] Nil show ?case
    by (auto simp: gathered_def stream_data_def)
next
  case (Cons o1 outs)
  obtain s d where o1: "o1 = (s, d)" by fastforce
  let ?out = "piece_output (s, d)"
  have d: "s = 1 \<or> s = 2" "d \<noteq> []" "length d + 7 + ov \<le> TOKEN_MAX_LENGTH" using Cons.prems(2) o1 by auto
  from Cons.prems(1) o1 have
    "linked g R x r (v2_output_payload s d # map (\<lambda>(s, d). v2_output_payload s d) outs @ [ending_token e]) x1 rest"
    by simp
  from piece_linked [OF assms(1) this d(1,3) Cons.prems(3-6)] obtain y r1 where
    1: "api_output g r = (Some ?out, r1)" "linked g R y r1 (map (\<lambda>(s, d). v2_output_payload s d) outs @ [ending_token e]) x1 rest"
      "r_timeout r1 = r_timeout r" "r_protocol r1 = 2" "ready r1" "fd r1 = Some n" .
  from append_output [OF d(1,2) Cons.prems(8,9)] obtain res1 where
    2: "internal_output_append ?out res = (True, res1)" "gathered [(s, d)] res res1"
      "res_error res1 = res_error res" "res_status res1 = res_status res" by (auto simp: piece_output_def)
  have c: "collect render g r res = collect render g r1 res1"
    using 1(1) 2(1) by (simp add: collect.simps [of render g r] piece_output_def)
  from Cons.IH [OF 1(2) _ _ 1(4,5,6), of res1] 1(3) 2 Cons.prems obtain res2 r2 where
    "collect render g r1 res1 = (ended e res2, remctl_close g r2)" "gathered outs res1 res2"
    "res_error res2 = None" "res_status res2 = res_status res1" by (auto simp: gathered_def)
  with c 2 o1 show ?case by (auto intro: gathered_Cons)
qed


definition demo_answered :: "nat remctl" where
  "demo_answered = demo_remctl\<lparr>ready := True,
     rd := [Rd_Data (token_frame (TOKEN_DATA OR TOKEN_PROTOCOL) (CHR ''#'' # v2_output_payload 1 ''hi''))
           , Rd_Data (token_frame (TOKEN_DATA OR TOKEN_PROTOCOL) (CHR ''#'' # v2_status_payload 3))]\<rparr>"

lemma demo_answered_simps [simp]:
  "r_timeout demo_answered = 0" "r_protocol demo_answered = 2" "ready demo_answered" "fd demo_answered = Some 3"
  "context_id demo_answered = 0" "calm demo_answered"
  by (auto simp: demo_answered_def demo_remctl_def demo_chan_def chan.extend_def idle_def sock.extend_def calm_def)

lemma demo_answered_wraps:
  "wraps demo_gss 0 [v2_output_payload 1 ''hi'', v2_status_payload 3] 2 (incoming (rd demo_answered))"
  by (simp add: demo_answered_def demo_gss_def)


text \<open>The first call on the same connection, the status, and the calls behind it.\<close>

lemma demo_status_output:
  "\<exists>r1. api_output demo_gss (demo_answered\<lparr>rd := drop 1 (rd demo_answered), context_id := 1\<rparr>)
     = (Some (internal_output_wipe\<lparr>out_type := REMCTL_OUT_STATUS, out_status := 3\<rparr>), r1) \<and> fd r1 = Some 3"
proof -
  let ?r = "demo_answered\<lparr>rd := drop 1 (rd demo_answered), context_id := 1\<rparr>"
  have l: "linked demo_gss (=) 1 ?r [v2_status_payload 3] 2 []"
    using demo_answered_simps(6) by (auto simp: linked_def demo_answered_def calm_def demo_gss_def)
  have t: "length (v2_status_payload 3) + 1 \<le> TOKEN_MAX_LENGTH" "2 \<le> length (v2_status_payload 3)"
    "schar (v2_status_payload 3 ! 0) = 2"
    by (simp_all add: v2_status_payload_def TOKEN_MAX_LENGTH_def schar_small)
  from api_output_linked [OF demo_sealed l t, of _ False 3] decode_status [of 3] show ?thesis by auto
qed

theorem output_done_after_end_witness:
  "\<exists>r1 r2. api_output demo_gss (demo_answered\<lparr>rd := drop 1 (rd demo_answered), context_id := 1\<rparr>)
       = (Some (internal_output_wipe\<lparr>out_type := REMCTL_OUT_STATUS, out_status := 3\<rparr>), r1)
     \<and> api_output demo_gss r1 = (Some internal_output_wipe, r2)
     \<and> api_output demo_gss r2 = (Some internal_output_wipe, r2)"
proof -
  obtain r1 where r1: "api_output demo_gss (demo_answered\<lparr>rd := drop 1 (rd demo_answered), context_id := 1\<rparr>)
      = (Some (internal_output_wipe\<lparr>out_type := REMCTL_OUT_STATUS, out_status := 3\<rparr>), r1)" "fd r1 = Some 3"
    using demo_status_output by blast
  from output_done_after_end [OF r1(1)] r1 show ?thesis by auto
qed

text \<open>
  With protocol one the calls behind the status alternate between the status and
  \<open>REMCTL_OUT_DONE\<close>.
\<close>

lemma v1_output_alternates:
  assumes "r_protocol r = 1" "fd r = None" "host r \<noteq> None" "\<not> ready r" "r_output r = Some out"
    and "out_type out = REMCTL_OUT_DONE"
  shows "\<exists>o1 r1 o2 r2. api_output g r = (Some o1, r1) \<and> out_type o1 = REMCTL_OUT_STATUS
     \<and> api_output g r1 = (Some o2, r2) \<and> out_type o2 = REMCTL_OUT_DONE"
  using assms by (auto simp: api_output_def internal_v1_output_def Let_def internal_output_wipe_def)

text \<open>
  A server that sends two empty pieces of output first makes the library free the
  buffer and keep the pointer, so that freeing the result frees it again.
\<close>

lemma empty_output_freed_twice:
  assumes "out = internal_output_wipe\<lparr>out_type := REMCTL_OUT_OUTPUT, out_stream := 1\<rparr>"
  shows "\<exists>res1 res2. internal_output_append out
       \<lparr>res_error = None, stdout_buf = Null, stderr_buf = Null, res_status = 0\<rparr> = (True, res1)
     \<and> internal_output_append out res1 = (False, res2) \<and> remctl_result_free res2 = Inl Undefined"
  using assms
  by (simp add: internal_output_append_def append_buf_def buf_data_def internal_output_wipe_def
      remctl_result_free_def)

subsection \<open>An opening\<close>

definition demo_sock :: sock where
  "demo_sock = \<lparr>sel = [], rd = [Rd_Data (frames [''AP-REP''])], wr = replicate 2 (Wr_Room (TOKEN_MAX_LENGTH + 5)),
     clock = [], sent = [], socket_errno = EINVAL\<rparr>"

definition demo_attempt :: attempt where
  "demo_attempt = \<lparr>ai_family = AF_INET, a_socket = Inr 3, a_bind = None, a_connect = None, a_selects = [],
     a_so_error = Inr None, a_conn = demo_sock\<rparr>"

definition demo_closed :: "nat remctl" where
  "demo_closed = demo_remctl\<lparr>fd := None, r_protocol := 0, dials := [Addresses [demo_attempt]]\<rparr>"

lemma demo_open:
  "\<exists>r1. remctl_open p demo_initiator demo_gss ''h'' 4373 None demo_closed = Inr (True, r1)"
proof -
  let ?r = "(use_sock demo_sock (demo_closed\<lparr>r_error := None, r_output := None, host := Some ''h'', port := 4373,
      principal := None, dials := []\<rparr>))\<lparr>fd := Some 3\<rparr>"
  let ?st = "\<lparr>step_major = GSS_S_COMPLETE, step_context = 0, step_token = [], step_flags = 50\<rparr> :: nat gss_step"
  have r: "roomy (Suc (length [''AP-REQ''])) ?r" "0 \<le> r_timeout ?r" "r_protocol ?r = 0 \<or> r_protocol ?r = 2"
    "incoming (rd ?r) = frames [''AP-REP'']" "ccache ?r = None"
    by (auto simp: use_sock_def demo_sock_def roomy_def calm_def demo_closed_def demo_remctl_def chan.extend_def
        demo_chan_def sock.extend_def token_frame_def)
  have run: "gss_run demo_initiator None ''host@h'' demo_acceptor (i_no_context demo_initiator) None 0
      [''AP-REQ''] [''AP-REP''] ?st (accept_sec_context demo_acceptor 0 ''AP-REQ'')"
    using demo_gss_run by (simp add: demo_initiator_def)
  have f: "step_flags ?st AND req_gss_flags = req_gss_flags"
    by (simp add: req_gss_flags_def GSS_C_MUTUAL_FLAG_def GSS_C_CONF_FLAG_def GSS_C_INTEG_FLAG_def)
  from open_context_run [OF run r(1-4) f] obtain r1 where
    "open_context demo_initiator None ''host@h'' ?r = (True, r1)" by blast
  moreover have "import_name demo_initiator True ''host@h'' = Inr ''host@h''" by (simp add: demo_initiator_def)
  ultimately have "internal_open demo_initiator (Some ''h'') None ?r = Inr (True, r1)"
    using r(5) by (simp add: internal_open_def internal_import_name_def)
  moreover have "remctl_open p demo_initiator demo_gss ''h'' 4373 None demo_closed
      = internal_open demo_initiator (Some ''h'') None ?r"
    by (simp add: remctl_open_def internal_reset_def internal_connect_def network_connect_def demo_closed_def
        demo_attempt_def network_source_def connect_one_def demo_remctl_def chan.extend_def demo_chan_def
        sock.extend_def)
  ultimately show ?thesis by auto
qed


end
