(* ===== verification/Client_Program.thy ===== *)
theory Client_Program
  imports Client_Session
begin

text \<open>
  The client program: \<^verbatim>\<open>src/client/remctl.c\<close>.

  The options are given as \<open>getopt\<close> reports them, the rest of the command line
  is the list of arguments. What the program writes is a trace of its writes
  and warnings; \<open>broken\<close> tells the streams on which writing fails. The
  canonical name of a host is what the resolver reports. \<open>render\<close> is the text
  of an error as in the library.
\<close>

subsection \<open>Responses\<close>

datatype console_event = Wrote nat bytes | Warned string

text \<open>
  The data is written as one item of its length. \<open>fwrite\<close> returns 0 for an
  item of length 0, which counts as a failure.
\<close>

definition fwrite_checked :: "(nat \<Rightarrow> bool) \<Rightarrow> bytes \<Rightarrow> nat \<Rightarrow> console_event list" where
  "fwrite_checked broken d stream =
     (if broken stream \<or> length d = 0 then [Warned ''local write of command output failed''] else [Wrote stream d])"

definition fputc :: "(nat \<Rightarrow> bool) \<Rightarrow> char \<Rightarrow> nat \<Rightarrow> console_event list" where
  "fputc broken ch stream = (if broken stream then [] else [Wrote stream [ch]])"

definition show_output :: "(nat \<Rightarrow> bool) \<Rightarrow> remctl_output \<Rightarrow> console_event list" where
  "show_output broken out =
     (if out_stream out = 1 then fwrite_checked broken (out_data out) 1
      else if out_stream out = 2 then fwrite_checked broken (out_data out) 2
      else Warned (''unknown output stream '' @ show_int (out_stream out)) # fwrite_checked broken (out_data out) 2)"

function process_response ::
  "(error_text \<Rightarrow> string) \<Rightarrow> (nat \<Rightarrow> bool) \<Rightarrow> 'c gss \<Rightarrow> ('c, 'z) remctl_scheme \<Rightarrow> console_event list
     \<Rightarrow> console_event list \<times> (fault + int \<times> ('c, 'z) remctl_scheme)" where
  "process_response render broken g r tr =
     (case api_output g r of
        (None, r1) \<Rightarrow> (tr, Inl (Died (''error reading from server: '' @ remctl_error render r1)))
      | (Some out, r1) \<Rightarrow>
          (case out_type out of
             REMCTL_OUT_DONE \<Rightarrow> (tr, Inr (0, r1))
           | REMCTL_OUT_OUTPUT \<Rightarrow> process_response render broken g r1 (tr @ show_output broken out)
           | REMCTL_OUT_ERROR \<Rightarrow>
               (tr @ fwrite_checked broken (out_data out) 2 @ fputc broken NL 2, Inr (255, r1))
           | REMCTL_OUT_STATUS \<Rightarrow> (tr, Inr (out_status out, r1))))"
  by pat_completeness auto
termination
  by (relation "measure (\<lambda>(render, broken, g, r, tr). waiting r)") (auto dest!: sym [of "(_, _)"] api_output_waiting)

declare process_response.simps [simp del]

subsection \<open>The main program\<close>

record client_options =
  co_source :: "string option"
  co_port :: nat
  co_service :: "string option"
  co_timeout :: int

definition client_defaults :: client_options where
  "client_defaults = \<lparr>co_source = None, co_port = 0, co_service = None, co_timeout = 0\<rparr>"

definition client_port :: "string \<Rightarrow> fault + nat" where
  "client_port arg =
     (case strtol arg of (tmp_port, rest, _) \<Rightarrow>
        if rest \<noteq> [] \<or> tmp_port < 1 \<or> tmp_port > 2 ^ 16 - 1
        then Inl (Died (''invalid port number '' @ show_int tmp_port))
        else Inr (nat tmp_port))"

definition client_timeout :: "string \<Rightarrow> fault + int" where
  "client_timeout arg =
     (case strtol arg of (tmp_timeout, rest, _) \<Rightarrow>
        if rest \<noteq> [] \<or> tmp_timeout < 0
        then Inl (Died (''invalid timeout value '' @ show_int tmp_timeout))
        else Inr tmp_timeout)"

text \<open>\<open>Inr (Inl n)\<close> is an exit with status \<open>n\<close>.\<close>

primrec client_parse_options ::
  "(char \<times> string) list \<Rightarrow> client_options \<Rightarrow> fault + int + client_options" where
  "client_parse_options [] o1 = Inr (Inr o1)"
| "client_parse_options (x # xs) o1 =
     (case x of (opt, arg) \<Rightarrow>
        if opt = CHR ''b'' then client_parse_options xs (o1\<lparr>co_source := Some arg\<rparr>)
        else if opt = CHR ''d'' then client_parse_options xs o1
        else if opt = CHR ''h'' then Inr (Inl 0)
        else if opt = CHR ''p'' then
          ebind (client_port arg) (\<lambda>n. client_parse_options xs (o1\<lparr>co_port := n\<rparr>))
        else if opt = CHR ''s'' then client_parse_options xs (o1\<lparr>co_service := Some arg\<rparr>)
        else if opt = CHR ''t'' then
          ebind (client_timeout arg) (\<lambda>t. client_parse_options xs (o1\<lparr>co_timeout := t\<rparr>))
        else if opt = CHR ''v'' then Inr (Inl 0)
        else Inr (Inl 1))"

definition client_host :: "(string \<Rightarrow> string option) \<Rightarrow> client_options \<Rightarrow> string \<Rightarrow> fault + string" where
  "client_host canonname o1 server_host =
     (case co_service o1 of
        Some _ \<Rightarrow> Inr server_host
      | None \<Rightarrow>
          (case canonname server_host of
             None \<Rightarrow> Inl (Died (''cannot resolve host '' @ server_host))
           | Some name \<Rightarrow> Inr name))"

definition client_setup ::
  "'c \<Rightarrow> client_options \<Rightarrow> ('c, 'z) remctl_scheme \<Rightarrow> ('c, 'z) remctl_scheme" where
  "client_setup no_ctx o1 r =
     (let r1 = remctl_new no_ctx r;
          r2 = (if co_timeout o1 \<noteq> 0 then snd (remctl_set_timeout (co_timeout o1) r1) else r1)
      in case co_source o1 of None \<Rightarrow> r2 | Some src \<Rightarrow> snd (remctl_set_source_ip src r2))"

definition client_main ::
  "parsers \<Rightarrow> ('c, 'n, 'k) initiator \<Rightarrow> 'c gss \<Rightarrow> (error_text \<Rightarrow> string) \<Rightarrow> (nat \<Rightarrow> bool) \<Rightarrow> (string \<Rightarrow> string option)
     \<Rightarrow> (char \<times> string) list \<Rightarrow> string list \<Rightarrow> ('c, 'z) remctl_scheme
     \<Rightarrow> console_event list \<times> (fault + int \<times> ('c, 'z) remctl_scheme)" where
  "client_main p i g render broken canonname opts args r =
     (case client_parse_options opts client_defaults of
        Inl e \<Rightarrow> ([], Inl e)
      | Inr (Inl st) \<Rightarrow> ([], Inr (st, r))
      | Inr (Inr o1) \<Rightarrow>
          if length args < 2 then ([], Inr (1, r))
          else case client_host canonname o1 (hd args) of
            Inl e \<Rightarrow> ([], Inl e)
          | Inr server_host \<Rightarrow>
              (case remctl_open p i g server_host (co_port o1) (co_service o1) (client_setup (i_no_context i) o1 r) of
                 Inl e \<Rightarrow> ([], Inl e)
               | Inr (False, r1) \<Rightarrow> ([], Inl (Died (remctl_error render r1)))
               | Inr (True, r1) \<Rightarrow>
                   (case remctl_command p i g (tl args) r1 of
                      Inl e \<Rightarrow> ([], Inl e)
                    | Inr (False, r2) \<Rightarrow> ([], Inl (Died (remctl_error render r2)))
                    | Inr (True, r2) \<Rightarrow>
                        (case process_response render broken g r2 [] of
                           (tr, Inl e) \<Rightarrow> (tr, Inl e)
                         | (tr, Inr (errorcode, r3)) \<Rightarrow> (tr, Inr (errorcode, remctl_close g r3))))))"

subsection \<open>Properties\<close>

primrec ending_code :: "ending \<Rightarrow> int" where
  "ending_code (Exited st) = (if st < 128 then st else st - 256)"
| "ending_code (Refused_with code m) = 255"

primrec ending_trace :: "ending \<Rightarrow> console_event list" where
  "ending_trace (Exited st) = []"
| "ending_trace (Refused_with code m) =
     (if m = [] then [Warned ''local write of command output failed''] else [Wrote 2 m]) @ [Wrote 2 [NL]]"

lemma process_response_outputs:
  fixes r :: "('c, 'z) remctl_scheme"
  assumes "gss_sealed g R ov" "linked g R x r (map (\<lambda>(s, d). v2_output_payload s d) outs @ [ending_token e]) x1 rest"
    and "ending_ok ov e" "\<forall>(s, d) \<in> set outs. (s = 1 \<or> s = 2) \<and> d \<noteq> [] \<and> length d + 7 + ov \<le> TOKEN_MAX_LENGTH"
    and "0 \<le> r_timeout r" "r_protocol r = 2" "ready r" "fd r = Some n" "\<not> broken 1" "\<not> broken 2"
  shows "\<exists>r1. process_response render broken g r tr
     = (tr @ map (\<lambda>(s, d). Wrote s d) outs @ ending_trace e, Inr (ending_code e, r1))"
  using assms(2,4-8)
proof (induction outs arbitrary: x r tr)
  case Nil
  from ending_linked [OF assms(1) _ assms(3), of x r x1 rest n] Nil
  obtain r1 where "api_output g r = (Some (ending_output e), r1)" by auto
  then show ?case
    using assms(9,10)
    by (cases e) (auto simp: process_response.simps [of render broken g r] fwrite_checked_def fputc_def)
next
  case (Cons o1 outs)
  obtain s d where o1: "o1 = (s, d)" by fastforce
  have d: "s = 1 \<or> s = 2" "d \<noteq> []" "length d + 7 + ov \<le> TOKEN_MAX_LENGTH" using Cons.prems(2) o1 by auto
  from Cons.prems(1) o1 have
    "linked g R x r (v2_output_payload s d # map (\<lambda>(s, d). v2_output_payload s d) outs @ [ending_token e]) x1 rest"
    by simp
  from piece_linked [OF assms(1) this d(1,3) Cons.prems(3-6)] obtain y r1 where
    1: "api_output g r = (Some (piece_output (s, d)), r1)"
      "linked g R y r1 (map (\<lambda>(s, d). v2_output_payload s d) outs @ [ending_token e]) x1 rest"
      "r_timeout r1 = r_timeout r" "r_protocol r1 = 2" "ready r1" "fd r1 = Some n" .
  have "show_output broken (piece_output (s, d)) = [Wrote s d]"
    using d assms(9,10) by (auto simp: show_output_def piece_output_def fwrite_checked_def)
  then have c: "process_response render broken g r tr = process_response render broken g r1 (tr @ [Wrote s d])"
    using 1(1) by (simp add: process_response.simps [of render broken g r]) (simp add: piece_output_def)
  from Cons.IH [OF 1(2) _ _ 1(4-6), of "tr @ [Wrote s d]"] 1(3) Cons.prems(2,3) c o1 show ?case by simp
qed



text \<open>A piece of output of length 0 is reported as a failed write although nothing failed.\<close>

lemma empty_output_warns:
  "out_data out = [] \<Longrightarrow> out_stream out = 1
    \<Longrightarrow> show_output (\<lambda>s. False) out = [Warned ''local write of command output failed'']"
  by (simp add: show_output_def fwrite_checked_def)

end
