(* ===== verification/End_To_End.thy ===== *)
theory End_To_End
  imports Client_Program
begin

text \<open>
  A whole command, from the caller's arguments to the output on the caller's
  terminal: the client's sending (\<open>internal_v2_commandv\<close>), the server's reading,
  checking and running (\<open>server_v2_read_token\<close>, \<open>server_v2_handle_token\<close>,
  \<open>server_run_command\<close>, \<open>server_process_run\<close>), its answers on the wire, and the
  client program's handling of them (\<open>process_response\<close>).
\<close>

subsection \<open>What a child does\<close>

text \<open>An event that makes the server give up on the process.\<close>

definition failing :: "proc_event \<Rightarrow> bool" where
  "failing ev = (case ev of Io_error st reading e \<Rightarrow> e \<noteq> ECONNRESET \<and> e \<noteq> EPIPE | _ \<Rightarrow> False)"

text \<open>The rounds after the exit go on until one of them brings no output.\<close>

primrec drained :: "proc_event list list \<Rightarrow> proc_event list" where
  "drained [] = []"
| "drained (evs # rounds) = evs @ (if data_events evs = [] then [] else drained rounds)"

definition child_events :: "proc_script \<Rightarrow> proc_event list" where
  "child_events scr = dispatch_events scr @ drained (drain_events scr)"

primrec final_status :: "proc_event list \<Rightarrow> int \<Rightarrow> int" where
  "final_status [] st = st"
| "final_status (ev # evs) st = final_status evs (case ev of Child_exit (Some s) \<Rightarrow> s | _ \<Rightarrow> st)"

definition startable :: "proc_script \<Rightarrow> bool" where
  "startable scr \<longleftrightarrow> pair_inout scr \<noteq> None \<and> pair_err scr \<noteq> None \<and> fork_pid scr \<noteq> None
     \<and> (\<forall>ev \<in> set (dispatch_events scr) \<union> set (concat (drain_events scr)). \<not> failing ev)"

text \<open>The pieces of output as the protocol numbers their streams, and the status on the wire.\<close>

definition piece :: "stream \<times> bytes \<Rightarrow> nat \<times> bytes" where
  "piece d = (if fst d = Inout then 1 else 2, snd d)"

definition child_exit :: "proc_script \<Rightarrow> int" where
  "child_exit scr = (let st = final_status (child_events scr) 0 in if wifexited st then wexitstatus st else 255)"

lemma out_payload_piece: "map out_payload ds = map (\<lambda>(s, d). v2_output_payload s d) (map piece ds)"
  by (simp add: out_payload_def piece_def split_def)

lemma data_events_append: "data_events (a @ b) = data_events a @ data_events b"
  by (induction a) auto

lemma final_status_append: "final_status (a @ b) st = final_status b (final_status a st)"
  by (induction a arbitrary: st) auto

lemma child_exit_bounds: "0 \<le> child_exit scr" "child_exit scr \<le> 255"
  by (auto simp: child_exit_def wexitstatus_def Let_def intro: order.trans [OF pos_mod_bound [THEN zless_imp_add1_zle]])

text \<open>A child killed by a signal has status -1, which goes out as the octet 255.\<close>

lemma status_payload_exit:
  "v2_status_payload (if wifexited st then wexitstatus st else -1)
     = v2_status_payload (if wifexited st then wexitstatus st else 255)"
  by (simp add: v2_status_payload_def)

subsection \<open>The server's answers on the wire\<close>

text \<open>The messages \<open>msgs\<close> have gone out between \<open>c\<close> and \<open>c1\<close>, each wrapped and framed.\<close>

definition conveyed :: "'c gss \<Rightarrow> bytes list \<Rightarrow> ('c, 'z) chan_scheme \<Rightarrow> ('c, 'z) chan_scheme \<Rightarrow> bool" where
  "conveyed g msgs c c1 \<longleftrightarrow> (\<exists>bs. wraps g (context_id c) msgs (context_id c1) bs \<and> sent c1 = sent c @ bs)"

lemma sends_conveyed: "sends g msgs c c1 \<Longrightarrow> conveyed g msgs c c1"
  unfolding conveyed_def
proof (induction msgs arbitrary: c)
  case (Cons m ms)
  then obtain c2 where s: "token_send_priv g (TOKEN_DATA OR TOKEN_PROTOCOL) m TIMEOUT c = (TOKEN_OK, c2)"
    and r: "sends g ms c2 c1" by auto
  from token_send_priv_wraps [OF s mic_flags(1)] obtain w where
    w: "gss_wrap g (context_id c) m = (context_id c2, Inr w)"
      "sent c2 = sent c @ token_frame (TOKEN_DATA OR TOKEN_PROTOCOL) w" by blast
  from Cons.IH [OF r] obtain bs where
    "wraps g (context_id c2) ms (context_id c1) bs" "sent c1 = sent c2 @ bs" by blast
  with w show ?case by auto
qed simp

lemma wraps_append:
  "wraps g x (a @ b) x1 bs \<longleftrightarrow> (\<exists>y bs1 bs2. wraps g x a y bs1 \<and> wraps g y b x1 bs2 \<and> bs = bs1 @ bs2)"
  by (induction a arbitrary: x bs) fastforce+

lemma conveyed_append: "conveyed g a c c2 \<Longrightarrow> conveyed g b c2 c1 \<Longrightarrow> conveyed g (a @ b) c c1"
  unfolding conveyed_def wraps_append by fastforce

text \<open>On protocol two the server gives up on a process only with an error of the connection.\<close>

lemma handle_event_calm:
  assumes "handle_event g ev (p, c) = Inr (p1, c1)" "backend c = V2" "\<not> failing ev"
  shows "(saw_error p1 \<longrightarrow> saw_error p \<or> fatal c1) \<and> (fatal c \<longrightarrow> fatal c1)
     \<and> proc_status p1 = final_status [ev] (proc_status p)
     \<and> (saw_output p1 \<longleftrightarrow> saw_output p \<or> data_events [ev] \<noteq> [])
     \<and> (inout_buf p = [] \<and> err_buf p = [] \<longrightarrow> inout_buf p1 = [] \<and> err_buf p1 = [])"
proof (cases ev)
  case (Data st bs)
  have f: "ok \<or> fatal c2" "fatal c \<longrightarrow> fatal c2"
    if "server_v2_send_output g n buf c = Inr (ok, c2)" for n buf ok c2
    using that v2_out.reply_extends [OF that]
    by (auto simp: server_v2_send_output_def extends_def split: if_splits prod.splits)
  show ?thesis
    using assms Data f
    by (cases st) (auto simp: handle_event_def handle_output_v2_def take_buf_def add_buf_def exec Let_def
        split: if_splits)
qed (use assms in \<open>auto simp: handle_event_def server_handle_io_event_def server_handle_input_end_def
       handle_exit_def failing_def split: if_splits option.splits\<close>)

lemma run_events_calm:
  assumes "run_events g evs (p, c) = Inr (p1, c1)" "backend c = V2" "\<forall>ev \<in> set evs. \<not> failing ev"
    and "\<not> saw_error p"
  shows "(fatal c \<longrightarrow> fatal c1)
     \<and> (inout_buf p = [] \<and> err_buf p = [] \<longrightarrow> inout_buf p1 = [] \<and> err_buf p1 = [])
     \<and> (\<not> fatal c1 \<longrightarrow> \<not> saw_error p1 \<and> proc_status p1 = final_status evs (proc_status p)
          \<and> (saw_output p1 \<longleftrightarrow> saw_output p \<or> data_events evs \<noteq> []))"
  using assms
proof (induction evs arbitrary: p c)
  case (Cons ev evs)
  from Cons.prems(1,4) obtain p2 c2 where h: "handle_event g ev (p, c) = Inr (p2, c2)"
    and r: "run_events g evs (p2, c2) = Inr (p1, c1)" by (auto simp: exec)
  have b: "backend c2 = V2" using handle_event_kept [OF h] Cons.prems(2) by (auto simp: kept_def who_def ident_def)
  note e = handle_event_calm [OF h Cons.prems(2)]
  show ?case
  proof (cases "saw_error p2")
    case True
    then have "c1 = c2" "p1 = p2" using r run_events_broken [of "(p2, c2)"] by simp_all
    with True e Cons.prems(3,4) show ?thesis by simp
  next
    case False
    from Cons.IH [OF r b _ False] Cons.prems(3) e show ?thesis by (auto split: proc_event.splits option.splits)
  qed
qed simp

lemma drain_loop_v2:
  assumes "drain_loop g rounds (p, c) = Inr (p1, c1)" "backend c = V2" "\<not> saw_error p" "saw_output p"
    and "\<forall>ev \<in> set (concat rounds). \<not> failing ev" "inout_buf p = []" "err_buf p = []" "\<not> fatal c1"
  shows "\<not> saw_error p1 \<and> \<not> fatal c \<and> proc_status p1 = final_status (drained rounds) (proc_status p)
     \<and> sends g (map out_payload (data_events (drained rounds))) c c1"
  using assms
proof (induction rounds arbitrary: p c)
  case Nil
  then show ?case by auto
next
  case (Cons evs rounds)
  let ?p = "p\<lparr>saw_output := False\<rparr>"
  from Cons.prems(1,3,4) obtain p2 c2 where r: "run_events g evs (?p, c) = Inr (p2, c2)"
    and d: "drain_loop g rounds (p2, c2) = Inr (p1, c1)" by (auto simp: exec)
  have q: "\<forall>ev \<in> set evs. \<not> failing ev" "\<not> saw_error ?p" using Cons.prems(3,5) by auto
  note e = run_events_calm [OF r Cons.prems(2) q]
  have b: "backend c2 = V2" using run_events_kept [OF r] Cons.prems(2) by (auto simp: kept_def who_def ident_def)
  show ?case
  proof (cases "\<not> fatal c2 \<and> data_events evs \<noteq> []")
    case True
    with e Cons.prems(6,7) have 2: "\<not> saw_error p2" "saw_output p2" "inout_buf p2 = []" "err_buf p2 = []"
      "proc_status p2 = final_status evs (proc_status p)" "\<not> fatal c" by auto
    from Cons.IH [OF d b 2(1,2) _ 2(3,4) Cons.prems(8)] Cons.prems(5) have
      i: "\<not> saw_error p1" "proc_status p1 = final_status (drained rounds) (proc_status p2)"
        "sends g (map out_payload (data_events (drained rounds))) c2 c1" by auto
    have "sends g (map out_payload (data_events evs)) c c2"
      using run_events_v2 [OF r Cons.prems(2)] Cons.prems(6,7) 2(1) by simp
    with i True 2(5,6) show ?thesis
      by (auto simp: data_events_append final_status_append sends_append)
  next
    case False
    have s: "c1 = c2 \<and> proc_status p1 = proc_status p2 \<and> saw_error p1 = saw_error p2"
      if "saw_error p2 \<or> \<not> saw_output p2"
      using d that by (cases rounds) (auto split: if_splits)
    have nf: "\<not> fatal c2"
    proof
      assume f: "fatal c2"
      show False
      proof (cases "saw_error p2 \<or> \<not> saw_output p2")
        case True
        with s f Cons.prems(8) show False by simp
      next
        case False
        then have 2: "\<not> saw_error p2" "saw_output p2" by auto
        have "inout_buf p2 = []" "err_buf p2 = []"
          using e Cons.prems(6,7) by auto
        from Cons.IH [OF d b 2 _ this Cons.prems(8)] Cons.prems(5) f show False by auto
      qed
    qed
    with False e Cons.prems(6,7) have 2: "\<not> saw_error p2" "\<not> saw_output p2" "data_events evs = []"
      "proc_status p2 = final_status evs (proc_status p)" "\<not> fatal c" by auto
    have "sends g (map out_payload (data_events evs)) c c2"
      using run_events_v2 [OF r Cons.prems(2)] Cons.prems(6,7) 2(1) by simp
    with s 2 show ?thesis by (auto simp: data_events_append)
  qed
qed

lemma start_startable:
  fixes c :: "('c, 'z) server_scheme"
  assumes "startable scr" "protocol c > 1" "start g scr (p, c) = Inr (p1, c1)"
  shows "sent c1 = sent c \<and> context_id c1 = context_id c \<and> backend c1 = backend c \<and> protocol c1 = protocol c
     \<and> saw_error p1 = saw_error p \<and> proc_status p1 = proc_status p
     \<and> inout_buf p1 = inout_buf p \<and> err_buf p1 = err_buf p"
  using assms by (auto simp: startable_def start_def Let_def)

lemma process_run_v2:
  fixes c :: "('c, 'z) server_scheme"
  assumes "server_process_run g (new_process cmd args ru inp, c) = Inr (ok, p1, c1)"
    and "backend c = V2" "protocol c > 1" "procs c = scr # scrs" "startable scr" "\<not> fatal c1"
  shows "ok \<and> proc_status p1 = final_status (child_events scr) 0 \<and> backend c1 = V2
     \<and> spawned c1 = spawned c @ [child_spawn (new_process cmd args ru inp) c]
     \<and> conveyed g (map out_payload (data_events (child_events scr))) c c1"
proof -
  let ?p = "new_process cmd args ru inp" and ?c = "c\<lparr>procs := scrs\<rparr>"
  from assms(1,4) obtain p2 c2 p3 c3 p4 c4 where
    s: "start g scr (?p, ?c) = Inr (p2, c2)" and
    r: "run_events g (dispatch_events scr) (p2, c2) = Inr (p3, c3)" and
    d: "drain_loop g (drain_events scr) (p3\<lparr>saw_output := True\<rparr>, c3) = Inr (p4, c4)" and
    res: "process_result scr (p4, c4) = (ok, p1, c1)"
    by (auto simp: server_process_run_def next_script_def exec)
  have "protocol ?c > 1" using assms(3) by simp
  from start_startable [OF assms(5) this s] have
    2: "sent c2 = sent c" "context_id c2 = context_id c" "backend c2 = V2" "protocol c2 = protocol c"
      "\<not> saw_error p2" "proc_status p2 = 0" "inout_buf p2 = []" "err_buf p2 = []"
    using assms(2) by (simp_all add: new_process_def)
  have q: "\<forall>ev \<in> set (dispatch_events scr). \<not> failing ev" "\<forall>ev \<in> set (concat (drain_events scr)). \<not> failing ev"
    using assms(5) by (auto simp: startable_def)
  note e3 = run_events_calm [OF r 2(3) q(1) 2(5)]
  have b3: "backend c3 = V2" "protocol c4 > 1"
    using run_events_kept [OF r] drain_loop_kept [OF d] 2(3,4) assms(3) by (auto simp: kept_def who_def ident_def)
  have c1: "sent c1 = sent c4" "context_id c1 = context_id c4" "fatal c1 = fatal c4" "proc_status p1 = proc_status p4 \<or> saw_error p4"
    using res by (auto simp: process_result_def Let_def split: if_splits)
  have nf4: "\<not> fatal c4" using c1(3) assms(6) by simp
  have "\<not> saw_error p3"
  proof
    assume "saw_error p3"
    then have "c4 = c3" "fatal c3"
      using d drain_loop_broken [of "p3\<lparr>saw_output := True\<rparr>" g "drain_events scr" c3] e3 by auto
    with nf4 show False by simp
  qed
  then have 3: "\<not> saw_error (p3\<lparr>saw_output := True\<rparr>)" "saw_output (p3\<lparr>saw_output := True\<rparr>)"
    "inout_buf (p3\<lparr>saw_output := True\<rparr>) = []" "err_buf (p3\<lparr>saw_output := True\<rparr>) = []"
    using e3 2(7,8) by auto
  from drain_loop_v2 [OF d b3(1) 3(1,2) q(2) 3(3,4) nf4] have
    4: "\<not> saw_error p4" "\<not> fatal c3" "proc_status p4 = final_status (drained (drain_events scr)) (proc_status p3)"
      "sends g (map out_payload (data_events (drained (drain_events scr)))) c3 c4" by auto
  have "sends g (map out_payload (data_events (dispatch_events scr))) c2 c3"
    using run_events_v2 [OF r 2(3,7,8)] \<open>\<not> saw_error p3\<close> by simp
  with 4(4) have "sends g (map out_payload (data_events (child_events scr))) c2 c4"
    by (auto simp: child_events_def data_events_append sends_append)
  from sends_conveyed [OF this] have "conveyed g (map out_payload (data_events (child_events scr))) c c1"
    using 2(1,2) c1(1,2) by (simp add: conveyed_def)
  moreover have "proc_status p1 = final_status (child_events scr) 0"
    using 4(1-3) c1(4) e3 2(6) by (auto simp: child_events_def final_status_append)
  moreover have "ok" using process_result_facts [OF res] 4(1) by simp
  moreover from this have "spawned c1 = spawned c @ [child_spawn ?p c]" "backend c1 = V2"
    using process_run_result [OF assms(1)] assms(2) by (auto simp: new_process_def who_def ident_def)
  ultimately show ?thesis by simp
qed

lemma run_program_v2:
  fixes c :: "('c, 'z) server_scheme"
  assumes "run_program g cmd ru args inp c = Inr (st, c1)"
    and "backend c = V2" "protocol c > 1" "procs c = scr # scrs" "startable scr" "\<not> fatal c1"
  shows "spawned c1 = spawned c @ [child_spawn (new_process cmd args ru inp) c]
     \<and> conveyed g (map (\<lambda>(s, d). v2_output_payload s d) (map piece (data_events (child_events scr)))
                     @ [ending_token (Exited (child_exit scr))]) c c1"
proof -
  from assms(1) obtain ok p c2 where
    r: "server_process_run g (new_process cmd args ru inp, c) = Inr (ok, p, c2)" by (auto simp: run_program_def exec)
  let ?st = "if wifexited (proc_status p) then wexitstatus (proc_status p) else -1"
  have nf: "\<not> fatal c2"
  proof (cases ok)
    case True
    with assms(1) r obtain ok2 where "client_finish g (case proc_output p of Some b \<Rightarrow> b | None \<Rightarrow> []) ?st c2 = Inr (ok2, c1)"
      by (auto simp: run_program_def exec Let_def)
    from fin.reply_extends [OF this] assms(6) show ?thesis by (auto simp: extends_def)
  qed (use assms(1,6) r in \<open>auto simp: run_program_def\<close>)
  note v = process_run_v2 [OF r assms(2-5) nf]
  with assms(1) r obtain ok2 where f: "client_finish g (case proc_output p of Some b \<Rightarrow> b | None \<Rightarrow> []) ?st c2 = Inr (ok2, c1)"
    by (auto simp: run_program_def exec Let_def)
  with v assms(6) have "sends g [v2_status_payload ?st] c2 c1"
    by (auto simp: client_finish_def server_v2_command_finish_def split: prod.splits if_splits)
  from conveyed_append [OF _ sends_conveyed [OF this]] v
  have "conveyed g (map out_payload (data_events (child_events scr)) @ [v2_status_payload ?st]) c c1" by simp
  moreover have "v2_status_payload ?st = ending_token (Exited (child_exit scr))"
    using v status_payload_exit [of "proc_status p"] by (simp add: child_exit_def Let_def)
  moreover have "spawned c1 = spawned c2" using fin.reply_extends [OF f] by (rule extends_spawned)
  ultimately show ?thesis using v by (simp add: out_payload_piece)
qed

lemma nul_in_args_free: "\<forall>a \<in> set as. nul_free a \<Longrightarrow> nul_in_args ru h i as = None"
  by (induction as arbitrary: i) (auto simp: nul_free_def)

lemma nul_in_command_free: "\<forall>a \<in> set argv. nul_free a \<Longrightarrow> nul_in_command argv = None"
  by (auto simp: nul_in_command_def nul_free_def split: list.splits)

text \<open>The rule that a command selects.\<close>

definition selects :: "rule list \<Rightarrow> bytes list \<Rightarrow> rule \<Rightarrow> bool" where
  "selects rs argv ru \<longleftrightarrow>
     find_config_line rs (Some (argv ! 0)) (if length argv > 1 then Some (argv ! 1) else None) = Some ru"

lemma server_run_command_v2:
  fixes c :: "('c, 'z) server_scheme"
  assumes "server_run_command g depth env rs argv c = Inr (st, c1)"
    and argv: "argv \<noteq> []" "\<forall>a \<in> set argv. nul_free a" "length argv < 2 ^ 63"
    and ru: "selects rs argv ru" "server_config_acl_permit depth env ru c = Inr True" "rule_ok ru"
    and c: "backend c = V2" "protocol c > 1" "procs c = scr # scrs" "startable scr" "\<not> fatal c1"
  shows "(\<exists>sp. spawned c1 = spawned c @ [sp]
            \<and> exec_args sp = command_prefix ru @ without (stdin_index ru argv) 1 (drop 1 argv)
            \<and> exec_stdin sp = stdin_data ru argv)
     \<and> conveyed g (map (\<lambda>(s, d). v2_output_payload s d) (map piece (data_events (child_events scr)))
                     @ [ending_token (Exited (child_exit scr))]) c c1"
proof -
  note n = nul_in_command_free [OF argv(2)]
  let ?sub = "if length argv > 1 then Some (argv ! 1) else None"
  let ?c = "server_log_command argv (Some ru) (user c) c"
  have "\<forall>a \<in> set (drop 1 argv). nul_free a" using argv(2) by (meson in_set_dropD)
  note na = nul_in_args_free [OF this]
  have "server_run_command g depth env rs argv c = run_rule g depth env argv (argv ! 0) ?sub False None (Some ru) c"
    using argv(1) n nul_in_command_None [OF n argv(1)] ru(1)
    by (cases "length argv > 1") (simp_all add: server_run_command_def Let_def selects_def)
  also have "\<dots> = run_program g (argv ! 0) ru (command_prefix ru @ without (stdin_index ru argv) 1 (drop 1 argv))
      (stdin_data ru argv) ?c"
  proof -
    have "server_config_acl_permit depth env ru ?c = Inr True"
      using ru(2) acl_permit_client [of ?c c] extends_guarded [OF log_command_extends [of c argv "Some ru" "user c"]]
      by (auto simp: guarded_def)
    then show ?thesis
      using na [of "Some ru" False 1] clean_arguments [OF na [of "Some ru" False 1] ru(3) argv(1,3)]
      by (simp add: run_rule_def Let_def)
  qed
  finally have r: "run_program g (argv ! 0) ru (command_prefix ru @ without (stdin_index ru argv) 1 (drop 1 argv))
      (stdin_data ru argv) ?c = Inr (st, c1)" using assms(1) by simp
  from run_program_v2 [OF r _ _ _ c(4,5)] c(1-3) show ?thesis
    by (auto simp: server_log_command_def log_msg_def conveyed_def child_spawn_def new_process_def)
qed

text \<open>Sending a command leaves the client ready for its answers.\<close>

lemma v2_send_loop_ready:
  "v2_send_loop g argc len conv args offset r = Inr (True, r1) \<Longrightarrow>
     ready r1 \<and> r_protocol r1 = r_protocol r \<and> fd r1 = fd r \<and> r_timeout r1 = r_timeout r"
proof (induction g argc len conv args offset r rule: v2_send_loop.induct)
  case (1 g argc len conv args offset r)
  show ?case
  proof (cases "conv < len")
    case False
    then show ?thesis
      using "1.prems" by (auto simp: v2_send_loop.simps [of g argc len conv args offset r])
  next
    case True
    note step = "1.prems" [unfolded v2_send_loop.simps [of g argc len conv args offset r]]
    from step True obtain token args1 offset1 conv1 where
      b: "v2_build argc len conv args offset = Inr (Built token args1 offset1 conv1)"
      by (cases "v2_build argc len conv args offset")
         (auto split: v2_built.split_asm prod.split_asm if_split_asm)
    obtain status r2 where
      snd: "token_send_priv g (TOKEN_DATA OR TOKEN_PROTOCOL) token (r_timeout r) r = (status, r2)"
      by fastforce
    with step True b have st: "status = TOKEN_OK" and
      rest: "v2_send_loop g argc len conv1 args1 offset1 r2 = Inr (True, r1)"
      by (auto split: if_split_asm)
    have "\<not> \<not> conv < len" using True by simp
    from "1.IH" [OF this b refl snd [symmetric] _ rest] st have
      "ready r1 \<and> r_protocol r1 = r_protocol r2 \<and> fd r1 = fd r2 \<and> r_timeout r1 = r_timeout r2" by simp
    moreover have "r_protocol r2 = r_protocol r \<and> fd r2 = fd r \<and> r_timeout r2 = r_timeout r"
      using token_send_priv_more [OF snd] by (cases r; cases r2) simp
    ultimately show ?thesis by simp
  qed
qed

lemma commandv_ready:
  "internal_v2_commandv g argv r = Inr (True, r1) \<Longrightarrow>
     ready r1 \<and> r_protocol r1 = r_protocol r \<and> fd r1 = fd r \<and> r_timeout r1 = r_timeout r"
  unfolding internal_v2_commandv_def by (auto split: if_split_asm dest: v2_send_loop_ready)

subsection \<open>Properties\<close>


definition demo_answer :: bytes where
  "demo_answer = token_frame (TOKEN_DATA OR TOKEN_PROTOCOL) (CHR ''#'' # v2_output_payload 1 ''hi'')
     @ token_frame (TOKEN_DATA OR TOKEN_PROTOCOL) (CHR ''#'' # v2_status_payload 0)"

lemma demo_answer_run:
  fixes c :: "nat server"
  assumes "ident c = ident demo_server" "procs c = procs demo_server" "sent c = []" "sel c = []" "clock c = []"
    and "wr c = [Wr_Room 100, Wr_Room 100]" "\<not> fatal c"
  shows "\<exists>st c1. server_run_command demo_gss 3 demo_env [demo_anyuser] [''test'', ''x''] c = Inr (st, c1)
     \<and> \<not> fatal c1 \<and> sent c1 = demo_answer"
proof -
  let ?f = "TOKEN_DATA OR TOKEN_PROTOCOL" and ?m = "v2_output_payload 1 ''hi''" and ?s = "v2_status_payload 0"
  have i: "backend c = V2" "protocol c = 3" "anonymous c = False"
    using assms(1) by (simp_all add: ident_def demo_server_def client.extend_def demo_client_def chan.extend_def)
  let ?c = "server_log_command [''test'', ''x''] (Some demo_anyuser) (user c) c"
  let ?put = "\<lambda>ws tok d. d\<lparr>context_id := Suc (context_id d), wr := ws, sent := sent d @ token_frame ?f (CHR ''#'' # tok)\<rparr>"
  have o: "server_v2_send_output demo_gss 1 ''hi'' d = Inr (True, ?put [Wr_Room 100] ?m d)"
    if "wr d = [Wr_Room 100, Wr_Room 100]" "sel d = []" "clock d = []" for d :: "nat server"
    using that demo_send_priv [of d 100 "[Wr_Room 100]" ?m ?f TIMEOUT]
    by (simp add: server_v2_send_output_def UINT32_MAX_def v2_output_payload_def TOKEN_MAX_DATA_def TIMEOUT_def)
  have e: "server_v2_command_finish demo_gss out 0 d = Inr (True, ?put [] ?s d)"
    if "wr d = [Wr_Room 100]" "sel d = []" "clock d = []" for d :: "nat server" and out
    using that demo_send_priv [of d 100 "[]" ?s ?f TIMEOUT]
    by (simp add: server_v2_command_finish_def v2_status_payload_def TOKEN_MAX_DATA_def TIMEOUT_def)
  have "\<exists>p1 c1. server_process_run demo_gss (new_process ''test'' args demo_anyuser inp, ?c) = Inr (True, p1, c1)
      \<and> proc_status p1 = 0 \<and> backend c1 = V2 \<and> wr c1 = [Wr_Room 100] \<and> sel c1 = [] \<and> clock c1 = []
      \<and> \<not> fatal c1 \<and> sent c1 = token_frame ?f (CHR ''#'' # ?m)" for args inp
    using assms i o
    by (simp add: server_process_run_def next_script_def start_def new_process_def Let_def log_msg_def
        handle_event_def handle_output_v2_def take_buf_def handle_exit_def add_buf_def process_result_def
        server_log_command_def)
  then obtain p1 c1 where "server_process_run demo_gss (new_process ''test'' [''echo'', ''x''] demo_anyuser None, ?c) = Inr (True, p1, c1)"
    and c1: "proc_status p1 = 0" "backend c1 = V2" "wr c1 = [Wr_Room 100]" "sel c1 = []" "clock c1 = []"
      "\<not> fatal c1" "sent c1 = token_frame ?f (CHR ''#'' # ?m)" by blast
  then have r: "run_program demo_gss ''test'' demo_anyuser [''echo'', ''x''] None ?c = Inr (0, ?put [] ?s c1)"
    using e [OF c1(3-5)] by (simp add: run_program_def Let_def wifexited_def wexitstatus_def client_finish_def)
  have a: "create_argv_command demo_anyuser [''test'', ''x''] = Inr ([''echo'', ''x''], None)"
    by (simp add: create_argv_command_def base_name_def strrchr_tail_def x_strndup_def)
  have "server_config_acl_permit 3 demo_env demo_anyuser ?c = Inr True"
    using i(3) by (simp add: numeral_3_eq_3 demo_anyuser_permit server_log_command_def)
  then have "server_run_command demo_gss 3 demo_env [demo_anyuser] [''test'', ''x''] c = Inr (0, ?put [] ?s c1)"
    using r a by (simp add: server_run_command_def Let_def nul_in_command_def x_strndup_def run_rule_def)
  then show ?thesis using c1 by (simp add: demo_answer_def)
qed


end
