(* ===== verification/Ssh.thy ===== *)
theory Ssh
  imports Commands
begin

text \<open>
  The ssh server: \<^verbatim>\<open>src/server/server-ssh.c\<close> (parsing a quoted command line and
  creating the client from the environment of sshd) and the main program
  \<^verbatim>\<open>src/server/remctl-shell.c\<close>.

  The parser is the state machine of the code. The growing argument and the
  vector of finished arguments are lists. The options are given as \<open>getopt\<close>
  reports them; the environment and the resolver are parameters.
\<close>

subsection \<open>Parsing\<close>

datatype ssh_state = SEPARATOR | ARG | QUOTE

record ssh_scan =
  scan_state :: ssh_state
  scan_quote :: char
  scan_arg :: bytes
  scan_args :: "string list"

abbreviation BACKSLASH :: char where "BACKSLASH \<equiv> CHR 0x5C"
abbreviation APOSTROPHE :: char where "APOSTROPHE \<equiv> CHR 0x27"
abbreviation DQUOTE :: char where "DQUOTE \<equiv> CHR 0x22"

text \<open>An octet behind a backslash, and one without.\<close>

definition ssh_escaped :: "char \<Rightarrow> ssh_scan \<Rightarrow> ssh_scan" where
  "ssh_escaped c s =
     s\<lparr>scan_arg := scan_arg s @ [c],
       scan_state := (if scan_state s = SEPARATOR then ARG else scan_state s)\<rparr>"

definition ssh_step :: "char \<Rightarrow> ssh_scan \<Rightarrow> ssh_scan" where
  "ssh_step c s =
     (case scan_state s of
        SEPARATOR \<Rightarrow>
          if isspace c then s
          else if c = APOSTROPHE \<or> c = DQUOTE then s\<lparr>scan_state := QUOTE, scan_quote := c\<rparr>
          else s\<lparr>scan_state := ARG, scan_arg := scan_arg s @ [c]\<rparr>
      | QUOTE \<Rightarrow>
          if c = scan_quote s then s\<lparr>scan_state := ARG\<rparr>
          else s\<lparr>scan_arg := scan_arg s @ [c]\<rparr>
      | ARG \<Rightarrow>
          if isspace c
          then s\<lparr>scan_args := scan_args s @ [x_strndup (scan_arg s) (length (scan_arg s))],
                 scan_arg := [], scan_state := SEPARATOR\<rparr>
          else if c = APOSTROPHE \<or> c = DQUOTE then s\<lparr>scan_state := QUOTE, scan_quote := c\<rparr>
          else s\<lparr>scan_arg := scan_arg s @ [c]\<rparr>)"

fun ssh_scan_loop :: "string \<Rightarrow> ssh_scan \<Rightarrow> ssh_scan" where
  "ssh_scan_loop [] s = s"
| "ssh_scan_loop [c] s = ssh_step c s"
| "ssh_scan_loop (c # d # cs) s =
     (if c = BACKSLASH then ssh_scan_loop cs (ssh_escaped d s)
      else ssh_scan_loop (d # cs) (ssh_step c s))"

text \<open>\<open>Inl q\<close> is the failure on an unterminated quote \<open>q\<close>.\<close>

definition server_ssh_parse_command :: "string \<Rightarrow> char + bytes list" where
  "server_ssh_parse_command cmd =
     (let s = ssh_scan_loop cmd
                \<lparr>scan_state = SEPARATOR, scan_quote = NUL, scan_arg = [], scan_args = []\<rparr>
      in case scan_state s of
           QUOTE \<Rightarrow> Inl (scan_quote s)
         | ARG \<Rightarrow> Inr (scan_args s @ [x_strndup (scan_arg s) (length (scan_arg s))])
         | SEPARATOR \<Rightarrow> Inr (scan_args s))"

subsection \<open>The client\<close>

definition server_ssh_new_client ::
  "(string \<Rightarrow> string option) \<Rightarrow> (string \<Rightarrow> string option) \<Rightarrow> string option \<Rightarrow> ('c, 'z) server_scheme
     \<Rightarrow> fault + ('c, 'z) server_scheme" where
  "server_ssh_new_client getenv resolve usr c =
     (case (case usr of None \<Rightarrow> getenv ''REMCTL_USER'' | Some u \<Rightarrow> Some u) of
        None \<Rightarrow> Inl (Died ''REMCTL_USER must be set in the environment via authorized_keys'')
      | Some u \<Rightarrow>
          (case getenv ''SSH_CONNECTION'' of
             None \<Rightarrow> Inl (Died ''SSH_CONNECTION not set (remctl-shell must be run via ssh)'')
           | Some conn \<Rightarrow>
               (case split_words [CHR '' '', TAB] conn of
                  [] \<Rightarrow> Inl Undefined
                | ip # _ \<Rightarrow>
                    Inr (c\<lparr>protocol := 3, backend := Ssh, user := u, hostname := resolve ip,
                           ipaddress := ip, anonymous := False, ctx_flags := 0, expires := 0,
                           keepalive := False, fatal := False\<rparr>))))"

subsection \<open>The main program\<close>

text \<open>
  The loop over the options: \<open>Inl\<close> is an exit with that status. \<open>-d\<close>, \<open>-q\<close> and
  \<open>-S\<close> concern the log only.
\<close>

record shell_options =
  command_string :: "string option"
  config_path :: string

primrec shell_parse_options :: "(char \<times> string) list \<Rightarrow> shell_options \<Rightarrow> int + shell_options" where
  "shell_parse_options [] o1 = Inr o1"
| "shell_parse_options (x # xs) o1 =
     (case x of (opt, arg) \<Rightarrow>
        if opt = CHR ''c'' then shell_parse_options xs (o1\<lparr>command_string := Some arg\<rparr>)
        else if opt = CHR ''d'' \<or> opt = CHR ''q'' \<or> opt = CHR ''S'' then shell_parse_options xs o1
        else if opt = CHR ''f'' then shell_parse_options xs (o1\<lparr>config_path := arg\<rparr>)
        else if opt = CHR ''h'' \<or> opt = CHR ''v'' then Inl 0
        else Inl 1)"

text \<open>The user (None for the one of the environment) and the command line.\<close>

definition shell_request ::
  "(string \<Rightarrow> string option) \<Rightarrow> shell_options \<Rightarrow> string list \<Rightarrow> fault + int + (string option \<times> string)" where
  "shell_request getenv o1 args =
     (case command_string o1 of
        None \<Rightarrow>
          (case args of
             [u] \<Rightarrow>
               (case getenv ''SSH_ORIGINAL_COMMAND'' of
                  None \<Rightarrow> Inl (Died ''SSH_ORIGINAL_COMMAND not set in the environment'')
                | Some cmd \<Rightarrow> Inr (Inr (Some u, cmd)))
           | _ \<Rightarrow> Inr (Inl 1))
      | Some cmd \<Rightarrow> if length args > 0 then Inr (Inl 1) else Inr (Inr (None, cmd)))"

text \<open>The work: load the configuration, create the client, parse and run the command.\<close>

definition shell_run ::
  "'c gss \<Rightarrow> nat \<Rightarrow> acl_env \<Rightarrow> (string \<Rightarrow> string option) \<Rightarrow> (string \<Rightarrow> string option)
     \<Rightarrow> string \<Rightarrow> string option \<Rightarrow> string \<Rightarrow> ('c, 'z) server_scheme
     \<Rightarrow> fault + int \<times> ('c, 'z) server_scheme" where
  "shell_run g depth env getenv resolve path usr cmd c =
     ebind (server_config_load depth env path) (\<lambda>cfg.
       case cfg of
         None \<Rightarrow> Inl (Died (''cannot read configuration file '' @ path))
       | Some cfg \<Rightarrow>
           ebind (server_ssh_new_client getenv resolve usr c) (\<lambda>c1.
             case server_ssh_parse_command cmd of
               Inl _ \<Rightarrow> Inl (Died (''cannot parse command: '' @ cmd))
             | Inr argv \<Rightarrow> server_run_command g depth env (rules cfg) argv c1))"

definition shell_main ::
  "'c gss \<Rightarrow> nat \<Rightarrow> acl_env \<Rightarrow> (string \<Rightarrow> string option) \<Rightarrow> (string \<Rightarrow> string option)
     \<Rightarrow> string \<Rightarrow> (char \<times> string) list \<Rightarrow> string list \<Rightarrow> ('c, 'z) server_scheme
     \<Rightarrow> fault + int \<times> ('c, 'z) server_scheme" where
  "shell_main g depth env getenv resolve default_path opts args c =
     (case shell_parse_options opts \<lparr>command_string = None, config_path = default_path\<rparr> of
        Inl st \<Rightarrow> Inr (st, c)
      | Inr o1 \<Rightarrow>
          ebind (shell_request getenv o1 args) (\<lambda>q.
            case q of
              Inl st \<Rightarrow> Inr (st, c)
            | Inr (usr, cmd) \<Rightarrow> shell_run g depth env getenv resolve (config_path o1) usr cmd c))"

subsection \<open>Quoting\<close>

text \<open>A way to write any argument: between double quotes, every octet behind a backslash.\<close>

definition ssh_quote :: "bytes \<Rightarrow> string" where
  "ssh_quote a = DQUOTE # concat (map (\<lambda>c. [BACKSLASH, c]) a) @ [DQUOTE]"

lemma ssh_same_state: "scan_state s = q \<Longrightarrow> s\<lparr>scan_arg := a, scan_state := q\<rparr> = s\<lparr>scan_arg := a\<rparr>"
  by (cases s) simp

lemma ssh_scan_quoted:
  assumes "scan_state s = QUOTE"
  shows "ssh_scan_loop (concat (map (\<lambda>c. [BACKSLASH, c]) a) @ rest) s
    = ssh_scan_loop rest (s\<lparr>scan_arg := scan_arg s @ a\<rparr>)"
  using assms
proof (induction a arbitrary: s)
  case (Cons c a)
  from Cons.prems show ?case by (simp add: ssh_escaped_def Cons.IH ssh_same_state)
qed simp

lemma ssh_scan_loop_step:
  "c \<noteq> BACKSLASH \<Longrightarrow> ssh_scan_loop (c # cs) s = ssh_scan_loop cs (ssh_step c s)"
  by (cases cs) simp_all

lemma ssh_scan_quote:
  assumes "scan_state s = SEPARATOR" "scan_arg s = []"
  shows "ssh_scan_loop (ssh_quote a @ rest) s
    = ssh_scan_loop rest (s\<lparr>scan_state := ARG, scan_quote := DQUOTE, scan_arg := a\<rparr>)"
proof -
  let ?s = "s\<lparr>scan_state := QUOTE, scan_quote := DQUOTE\<rparr>"
  have "ssh_scan_loop (ssh_quote a @ rest) s
      = ssh_scan_loop (concat (map (\<lambda>c. [BACKSLASH, c]) a) @ DQUOTE # rest) ?s"
    using assms by (simp add: ssh_quote_def ssh_scan_loop_step ssh_step_def isspace_def)
  also have "\<dots> = ssh_scan_loop (DQUOTE # rest) (?s\<lparr>scan_arg := a\<rparr>)"
    using assms by (subst ssh_scan_quoted) simp_all
  also have "\<dots> = ssh_scan_loop rest (s\<lparr>scan_state := ARG, scan_quote := DQUOTE, scan_arg := a\<rparr>)"
    by (cases s) (simp add: ssh_scan_loop_step ssh_step_def)
  finally show ?thesis .
qed

lemma ssh_scan_all:
  assumes "scan_state s = SEPARATOR" "scan_arg s = []" "argv \<noteq> []" "\<forall>a \<in> set argv. nul_free a"
  shows "ssh_scan_loop (join '' '' (map ssh_quote argv)) s
    = s\<lparr>scan_state := ARG, scan_quote := DQUOTE, scan_arg := last argv, scan_args := scan_args s @ butlast argv\<rparr>"
  using assms
proof (induction argv arbitrary: s)
  case (Cons a argv)
  show ?case
  proof (cases "argv = []")
    case True
    then show ?thesis using Cons.prems ssh_scan_quote [of s a "[]"] by (cases s) simp
  next
    case False
    have "ssh_scan_loop (join '' '' (map ssh_quote (a # argv))) s
        = ssh_scan_loop (CHR '' '' # join '' '' (map ssh_quote argv))
            (s\<lparr>scan_state := ARG, scan_quote := DQUOTE, scan_arg := a\<rparr>)"
      using False Cons.prems ssh_scan_quote [of s a] by simp
    also have "\<dots> = ssh_scan_loop (join '' '' (map ssh_quote argv))
        (s\<lparr>scan_state := SEPARATOR, scan_quote := DQUOTE, scan_arg := [], scan_args := scan_args s @ [a]\<rparr>)"
      using Cons.prems(4)
      by (cases s) (simp add: ssh_scan_loop_step ssh_step_def isspace_def x_strndup_nul_free)
    also have "\<dots> = s\<lparr>scan_state := ARG, scan_quote := DQUOTE, scan_arg := last (a # argv),
        scan_args := scan_args s @ butlast (a # argv)\<rparr>"
      using False Cons.prems(4) by (cases s) (subst Cons.IH, simp_all)
    finally show ?thesis .
  qed
qed simp

subsection \<open>What the shell may start\<close>

lemma shell_run_result:
  assumes "shell_run g depth env getenv resolve path usr cmd c = Inr (st, c1)"
  obtains cfg c0 argv where "server_config_load depth env path = Inr (Some cfg)"
    "server_ssh_new_client getenv resolve usr c = Inr c0" "server_ssh_parse_command cmd = Inr argv"
    "server_run_command g depth env (rules cfg) argv c0 = Inr (st, c1)"
proof -
  obtain k where k: "server_config_load depth env path = Inr k"
    using assms by (cases "server_config_load depth env path") (simp_all add: shell_run_def)
  then obtain cfg where cfg: "k = Some cfg" using assms by (cases k) (simp_all add: shell_run_def)
  obtain c0 where c0: "server_ssh_new_client getenv resolve usr c = Inr c0"
    using assms k cfg
    by (cases "server_ssh_new_client getenv resolve usr c") (simp_all add: shell_run_def)
  obtain argv where argv: "server_ssh_parse_command cmd = Inr argv"
    using assms k cfg c0 by (cases "server_ssh_parse_command cmd") (simp_all add: shell_run_def)
  show thesis using assms k cfg c0 argv by (intro that) (simp_all add: shell_run_def)
qed

lemma shell_main_result:
  assumes "shell_main g depth env getenv resolve default_path opts args c = Inr (st, c1)"
  obtains "c1 = c"
  | o1 usr cmd where
      "shell_parse_options opts \<lparr>command_string = None, config_path = default_path\<rparr> = Inr o1"
      "shell_request getenv o1 args = Inr (Inr (usr, cmd))"
      "shell_run g depth env getenv resolve (config_path o1) usr cmd c = Inr (st, c1)"
proof (cases "shell_parse_options opts \<lparr>command_string = None, config_path = default_path\<rparr>")
  case (Inl e)
  then show thesis using assms that(1) by (simp add: shell_main_def)
next
  case (Inr o1)
  obtain q where q: "shell_request getenv o1 args = Inr q"
    using assms Inr by (cases "shell_request getenv o1 args") (simp_all add: shell_main_def)
  show thesis
  proof (cases q)
    case (Inl e)
    then show thesis using assms that(1) q \<open>_ = Inr o1\<close> by (simp add: shell_main_def)
  next
    case (Inr r)
    then show thesis using assms that(2) q \<open>_ = Inr o1\<close> by (cases r) (simp add: shell_main_def)
  qed
qed

lemma shell_request_user:
  assumes "shell_request getenv o1 args = Inr (Inr (usr, cmd))"
  shows "usr = (if args = [] then None else Some (hd args))"
  using assms
  by (auto simp: shell_request_def split: option.split_asm list.split_asm if_split_asm)

lemma ssh_new_client_fields:
  assumes "server_ssh_new_client getenv resolve usr c = Inr c0"
  shows "spawned c0 = spawned c \<and> backend c0 = Ssh \<and> protocol c0 = 3 \<and> \<not> anonymous c0
    \<and> Some (user c0) = (case usr of None \<Rightarrow> getenv ''REMCTL_USER'' | Some u \<Rightarrow> Some u)"
  using assms by (auto simp: server_ssh_new_client_def split: option.split_asm list.split_asm)

subsection \<open>Properties\<close>




subsection \<open>A run\<close>

definition demo_conf_env :: acl_env where
  "demo_conf_env = demo_env\<lparr>fs := [''/c'' \<mapsto> File (Some (conf_text [[''ls'', ''ALL'', ''/bin/ls'', ''ANYUSER'']]))]\<rparr>"

definition demo_sshd :: "string \<Rightarrow> string option" where
  "demo_sshd = [''REMCTL_USER'' \<mapsto> ''eagle'', ''SSH_CONNECTION'' \<mapsto> ''10.0.0.1 22 10.0.0.2 22'']"

definition demo_ls :: rule where
  "demo_ls = empty_rule\<lparr>rule_file := ''/c'', lineno := 1, line := [''ls'', ''ALL'', ''/bin/ls'', ''ANYUSER''],
     command := ''ls'', subcommand := ''ALL'', program := ''/bin/ls'', acls := [''ANYUSER'']\<rparr>"

lemma demo_conf_load: "\<exists>cfg. server_config_load 1 demo_conf_env ''/c'' = Inr (Some cfg) \<and> rules cfg = [demo_ls]"
proof -
  let ?w = "[''ls'', ''ALL'', ''/bin/ls'', ''ANYUSER'']"
  let ?c0 = "\<lparr>rules = [], cfg_allocated = 0\<rparr>"
  have "plain_line ?w" "config_ok ?c0" by (simp_all add: plain_line_def isspace_def config_ok_def)
  moreover have "conf_rule demo_conf_env ''/c'' 1 ?w = Some demo_ls"
    by (simp add: conf_rule_def is_option_def ctype_defs empty_rule_def demo_ls_def)
  ultimately obtain cfg where
    "conf_file_loop demo_conf_env (read_conf_file 0 demo_conf_env) ''/c'' 1024 0 (conf_text [?w]) ?c0
       = Inr (CONFIG_SUCCESS, cfg)" "rules cfg = [demo_ls]"
    using conf_file_loop_text [of "[demo_ls]" "[?w]" demo_conf_env "''/c''" 0 ?c0 "read_conf_file 0 demo_conf_env"]
    by auto
  then show ?thesis by (simp add: server_config_load_def fopen_read_def demo_conf_env_def)
qed

definition demo_shell :: "nat server" where
  "demo_shell = demo_server\<lparr>procs := [\<lparr>pair_inout = Some (5, 6), pair_err = Some (7, 8),
     fork_pid = Some 100, start_errno = ENOMEM, dispatch_events = [Child_exit (Some 0)],
     drain_events = [], wait_status = 0\<rparr>]\<rparr>"

lemma demo_ls_simps [simp]:
  "line_matches demo_ls (Some ''ls'') sub" "stdin_arg demo_ls = 0" "program demo_ls = ''/bin/ls''"
  "sudo_user demo_ls = None" "rule_user demo_ls = None" "logmask demo_ls = None"
  by (simp_all add: demo_ls_def empty_rule_def line_matches_def)

lemma demo_ls_permit: "\<not> anonymous c \<Longrightarrow> server_config_acl_permit (Suc n) demo_conf_env demo_ls c = Inr True"
  by (simp add: server_config_acl_permit_def demo_ls_def acl_check.simps
      acl_split_def strchr_def x_strndup_def schemes_lookup acl_check_anyuser_def)

lemma demo_shell_run:
  "\<exists>st c1. shell_main demo_gss 1 demo_conf_env demo_sshd Map.empty ''/c'' [(CHR ''c'', ''ls'')] [] demo_shell
     = Inr (st, c1) \<and> map exec_path (spawned c1) = [''/bin/ls'']"
proof -
  obtain cfg where l: "server_config_load 1 demo_conf_env ''/c'' = Inr (Some cfg)" "rules cfg = [demo_ls]"
    using demo_conf_load by blast
  have n: "\<exists>c1. server_ssh_new_client demo_sshd Map.empty None demo_shell = Inr c1 \<and> \<not> anonymous c1
      \<and> backend c1 = Ssh \<and> procs c1 = procs demo_shell \<and> spawned c1 = []"
    by (simp add: server_ssh_new_client_def demo_sshd_def demo_shell_def split_words_simps)
  then obtain c0 where c0: "server_ssh_new_client demo_sshd Map.empty None demo_shell = Inr c0"
    "\<not> anonymous c0" "backend c0 = Ssh" "procs c0 = procs demo_shell" "spawned c0 = []" by blast
  have p: "server_ssh_parse_command ''ls'' = Inr [''ls'']"
    by (simp add: server_ssh_parse_command_def ssh_step_def isspace_def x_strndup_def)
  have "\<exists>st c1. server_run_command demo_gss 1 demo_conf_env [demo_ls] [''ls''] c0 = Inr (st, c1)
      \<and> map exec_path (spawned c1) = [''/bin/ls'']"
    using c0 by (simp add: server_run_command_def Let_def nul_in_command_def x_strndup_def run_rule_def
         create_argv_command_def demo_ls_permit [of _ 0, simplified] server_log_command_def run_program_def
         server_process_run_def next_script_def start_def new_process_def log_msg_def demo_shell_def
         handle_event_def handle_exit_def process_result_def client_finish_def child_spawn_def ssh_command_finish_def)
  with l p c0(1) show ?thesis by (simp add: shell_main_def shell_run_def shell_request_def)
qed


end
