(* ===== verification/Daemon.thy ===== *)
theory Daemon
  imports Negotiation
begin

text \<open>
  The server program: \<^verbatim>\<open>src/server/remctld.c\<close>.

  The options are given as \<open>getopt\<close> reports them. A round of the main loop is a
  function of what the system does in it: the children to reap, the files at the
  time a configuration is read, the incoming connection and the result of \<open>fork\<close>.
  The child that a round forks is recorded with its connection and the
  configuration it has; what it does is \<open>handle_connection\<close>. Signal handlers only
  set flags, which a round reads at its beginning, so signals are steps between
  rounds.
\<close>

subsection \<open>Options\<close>

record remctld_options =
  opt_debug :: bool
  opt_foreground :: bool
  opt_log_stdout :: bool
  opt_standalone :: bool
  opt_suspend :: bool
  opt_port :: nat
  opt_service :: "string option"
  opt_config :: string
  opt_pid_path :: "string option"
  opt_bindaddrs :: "string list"
  opt_keytab :: "string option"

definition default_options :: "string \<Rightarrow> remctld_options" where
  "default_options config_file =
     \<lparr>opt_debug = False, opt_foreground = False, opt_log_stdout = False, opt_standalone = False,
      opt_suspend = False, opt_port = 4373, opt_service = None, opt_config = config_file,
      opt_pid_path = None, opt_bindaddrs = [], opt_keytab = None\<rparr>"

text \<open>\<open>Inr (Inl n)\<close> is an exit with status \<open>n\<close>.\<close>

definition port_option :: "string \<Rightarrow> fault + nat" where
  "port_option arg =
     (case strtol arg of (tmp_port, rest, _) \<Rightarrow>
        if rest \<noteq> [] \<or> tmp_port < 1 \<or> tmp_port > 2 ^ 16 - 1
        then Inl (Died (''invalid port number '' @ show_int tmp_port))
        else Inr (nat tmp_port))"

primrec remctld_parse_options ::
  "(char \<times> string) list \<Rightarrow> remctld_options \<Rightarrow> fault + int + remctld_options" where
  "remctld_parse_options [] o1 = Inr (Inr o1)"
| "remctld_parse_options (x # xs) o1 =
     (case x of (opt, arg) \<Rightarrow>
        if opt = CHR ''b'' then remctld_parse_options xs (o1\<lparr>opt_bindaddrs := opt_bindaddrs o1 @ [arg]\<rparr>)
        else if opt = CHR ''d'' then remctld_parse_options xs (o1\<lparr>opt_debug := True\<rparr>)
        else if opt = CHR ''F'' then remctld_parse_options xs (o1\<lparr>opt_foreground := True\<rparr>)
        else if opt = CHR ''f'' then remctld_parse_options xs (o1\<lparr>opt_config := arg\<rparr>)
        else if opt = CHR ''h'' then Inr (Inl 0)
        else if opt = CHR ''k'' then remctld_parse_options xs (o1\<lparr>opt_keytab := Some arg\<rparr>)
        else if opt = CHR ''m'' then remctld_parse_options xs (o1\<lparr>opt_standalone := True\<rparr>)
        else if opt = CHR ''P'' then remctld_parse_options xs (o1\<lparr>opt_pid_path := Some arg\<rparr>)
        else if opt = CHR ''p'' then
          ebind (port_option arg) (\<lambda>n. remctld_parse_options xs (o1\<lparr>opt_port := n\<rparr>))
        else if opt = CHR ''S'' then remctld_parse_options xs (o1\<lparr>opt_log_stdout := True\<rparr>)
        else if opt = CHR ''s'' then remctld_parse_options xs (o1\<lparr>opt_service := Some arg\<rparr>)
        else if opt = CHR ''v'' then Inr (Inl 0)
        else if opt = CHR ''Z'' then remctld_parse_options xs (o1\<lparr>opt_suspend := True\<rparr>)
        else Inr (Inl 1))"

definition check_options :: "remctld_options \<Rightarrow> fault + unit" where
  "check_options o1 =
     (if length (opt_bindaddrs o1) > 0 \<and> \<not> opt_standalone o1
      then Inl (Died ''-b only makes sense in combination with -m'')
      else if opt_suspend o1 \<and> \<not> opt_standalone o1
      then Inl (Died ''-Z only makes sense in combination with -m'')
      else Inr ())"

subsection \<open>Listening\<close>

definition SD_LISTEN_FDS_START :: nat where "SD_LISTEN_FDS_START = 3"

record listening =
  sd_listen_fds :: "errno + nat"
  local_addrs :: "(family \<times> string \<times> binding) list option"
  binding_for :: "string \<Rightarrow> binding"
  listen_result :: "nat \<Rightarrow> errno option"

primrec listen_all :: "(nat \<Rightarrow> errno option) \<Rightarrow> nat list \<Rightarrow> fault + unit" where
  "listen_all f [] = Inr ()"
| "listen_all f (n # ns) =
     (if f n \<noteq> None then Inl (Died ''error listening on socket'') else listen_all f ns)"

primrec bind_addresses ::
  "parsers \<Rightarrow> listening \<Rightarrow> nat \<Rightarrow> string list \<Rightarrow> nat list \<Rightarrow> fault + nat list" where
  "bind_addresses p e prt [] fds = Inr fds"
| "bind_addresses p e prt (addr # addrs) fds =
     (case fst (if inet_pton6_ok p addr then network_bind_ipv6 p addr (binding_for e addr)
                else network_bind_ipv4 p addr (binding_for e addr)) of
        Inl _ \<Rightarrow> Inl (Died (''cannot bind to address '' @ addr @ '', port '' @ show_nat prt))
      | Inr n \<Rightarrow>
          ebind (listen_all (listen_result e) [n]) (\<lambda>_. bind_addresses p e prt addrs (fds @ [n])))"

definition bind_sockets :: "parsers \<Rightarrow> listening \<Rightarrow> remctld_options \<Rightarrow> fault + nat list" where
  "bind_sockets p e o1 =
     (case sd_listen_fds e of
        Inl _ \<Rightarrow> Inl (Died ''using systemd-bound sockets failed'')
      | Inr n \<Rightarrow>
          if n > 0 then Inr (map (\<lambda>i. SD_LISTEN_FDS_START + i) [0..<n])
          else if length (opt_bindaddrs o1) = 0 then
            ebind (network_bind_all p (local_addrs e)) (\<lambda>(ok, fds, _).
              if \<not> ok then Inl (Died ''cannot bind any sockets'')
              else ebind (listen_all (listen_result e) fds) (\<lambda>_. Inr fds))
          else bind_addresses p e (opt_port o1) (opt_bindaddrs o1) [])"

subsection \<open>The main loop\<close>

record 'a daemon =
  d_config :: config
  child_signaled :: bool
  config_signaled :: bool
  exit_signaled :: bool
  d_fds :: "nat list"
  d_open :: "nat list"
  d_children :: "('a \<times> config) list"
  d_pid_file :: "string option"
  d_logs :: "log_entry list"

record 'a round =
  r_waits :: "(nat \<times> int) list"
  r_wait_end :: "errno option"
  r_env :: acl_env
  r_ready :: "errno + nat list"
  r_accept :: "nat \<Rightarrow> errno + nat \<times> 'a"
  r_errno :: errno
  r_fork :: "errno + nat"

abbreviation ECHILD :: errno where "ECHILD \<equiv> EOTHER 10"

definition d_log :: "log_entry list \<Rightarrow> ('a, 'z) daemon_scheme \<Rightarrow> ('a, 'z) daemon_scheme" where
  "d_log es d = d\<lparr>d_logs := d_logs d @ es\<rparr>"

definition log_child :: "nat \<times> int \<Rightarrow> log_entry list" where
  "log_child x =
     (case x of (who_pid, status) \<Rightarrow>
        if wifexited status then
          if wexitstatus status \<noteq> 0
          then [Log Warn (''child '' @ show_nat who_pid @ '' exited with '' @ show_int (wexitstatus status))]
          else []
        else if (status mod 128) mod 127 \<noteq> 0
        then [Log Warn (''child '' @ show_nat who_pid @ '' died on signal '' @ show_int (status mod 128))]
        else [Log Warn (''child '' @ show_nat who_pid @ '' died'')])"

definition reap :: "'a round \<Rightarrow> ('a, 'z) daemon_scheme \<Rightarrow> fault + ('a, 'z) daemon_scheme" where
  "reap e d =
     (if \<not> child_signaled d then Inr d
      else
        let d1 = d_log (concat (map log_child (r_waits e))) (d\<lparr>child_signaled := False\<rparr>)
        in case r_wait_end e of
             Some err \<Rightarrow> if err \<noteq> ECHILD then Inl (Died ''waitpid failed'') else Inr d1
           | None \<Rightarrow> Inr d1)"

definition reread ::
  "nat \<Rightarrow> string \<Rightarrow> 'a round \<Rightarrow> ('a, 'z) daemon_scheme \<Rightarrow> fault + ('a, 'z) daemon_scheme" where
  "reread depth path e d =
     (if \<not> config_signaled d then Inr d
      else
        let d1 = d_log [Log Notice ''re-reading configuration''] (d\<lparr>config_signaled := False\<rparr>)
        in ebind (server_config_load depth (r_env e) path) (\<lambda>cfg.
             case cfg of
               None \<Rightarrow> Inl (Died (''cannot load configuration file '' @ path))
             | Some c \<Rightarrow> Inr (d1\<lparr>d_config := c\<rparr>)))"

text \<open>The incoming connection: accept it, fork, and close it in the parent.\<close>

definition accept_fork :: "'a round \<Rightarrow> ('a, 'z) daemon_scheme \<Rightarrow> fault + ('a, 'z) daemon_scheme" where
  "accept_fork e d =
     ebind (network_accept_any (d_fds d) (r_ready e) (r_accept e) (r_errno e)) (\<lambda>r.
       case r of
         Inl err \<Rightarrow>
           if err \<noteq> EINTR then Inl (Died ''error accepting incoming connection'') else Inr d
       | Inr (s, conn) \<Rightarrow>
           let d1 = d\<lparr>d_open := d_open d @ [s]\<rparr>
           in case r_fork e of
                Inl err \<Rightarrow>
                  Inr (d_log [Log_errno Warn ''forking a new child failed'' err,
                              Log Warn ''sleeping ten seconds in the hope we recover...''] d1)
              | Inr _ \<Rightarrow>
                  Inr (d1\<lparr>d_children := d_children d1 @ [(conn, d_config d1)], d_open := remove1 s (d_open d1)\<rparr>))"

text \<open>One round; False leaves the loop.\<close>

definition daemon_round ::
  "nat \<Rightarrow> string \<Rightarrow> 'a round \<Rightarrow> ('a, 'z) daemon_scheme \<Rightarrow> fault + bool \<times> ('a, 'z) daemon_scheme" where
  "daemon_round depth path e d =
     ebind (reap e d) (\<lambda>d1.
     ebind (reread depth path e d1) (\<lambda>d2.
       if exit_signaled d2 then Inr (False, d_log [Log Notice ''signal received, exiting''] d2)
       else ebind (accept_fork e d2) (\<lambda>d3. Inr (True, d3))))"

inductive daemon_step ::
  "nat \<Rightarrow> string \<Rightarrow> 'a daemon \<Rightarrow> 'a daemon \<Rightarrow> bool" for depth path where
  child_handler: "daemon_step depth path d (d\<lparr>child_signaled := True\<rparr>)"
| config_handler: "daemon_step depth path d (d\<lparr>config_signaled := True\<rparr>)"
| exit_handler: "daemon_step depth path d (d\<lparr>exit_signaled := True\<rparr>)"
| another_round: "daemon_round depth path e d = Inr (True, d1) \<Longrightarrow> daemon_step depth path d d1"

text \<open>
  Starting: the sockets, no signal yet. Leaving: the PID file is removed and the
  listening sockets are closed.
\<close>

definition daemon_start :: "config \<Rightarrow> nat list \<Rightarrow> string option \<Rightarrow> 'a daemon" where
  "daemon_start cfg fds pid_path =
     \<lparr>d_config = cfg, child_signaled = False, config_signaled = False, exit_signaled = False,
      d_fds = fds, d_open = fds, d_children = [], d_pid_file = pid_path, d_logs = [Log Notice ''starting'']\<rparr>"

definition daemon_end :: "('a, 'z) daemon_scheme \<Rightarrow> ('a, 'z) daemon_scheme" where
  "daemon_end d = d\<lparr>d_pid_file := None, d_open := foldl (\<lambda>os n. remove1 n os) (d_open d) (d_fds d)\<rparr>"

subsection \<open>The main program\<close>

text \<open>
  The credentials for a service, whose name is imported with its terminating nul.
  Without \<open>-s\<close> there are none, and the library takes any in the keytab: the acceptor
  that serves connections is a function of the credentials.
\<close>

record ('m, 'k) cred_store =
  import_service :: "string \<Rightarrow> gss_status + 'm"
  acquire_cred :: "'m \<Rightarrow> gss_status + 'k"

definition acquire_creds :: "('m, 'k) cred_store \<Rightarrow> string \<Rightarrow> log_entry list \<times> 'k option" where
  "acquire_creds cs service =
     (case import_service cs (service @ [CHR 0x00]) of
        Inl e \<Rightarrow> ([Log_gssapi Warn ''while importing name'' e], None)
      | Inr name \<Rightarrow>
          (case acquire_cred cs name of
             Inl e \<Rightarrow> ([Log_gssapi Warn ''while acquiring credentials'' e], None)
           | Inr creds \<Rightarrow> ([], Some creds)))"

text \<open>The PID file is written under a temporary name and renamed; what each call returns is given.\<close>

record pid_calls =
  mkstemp :: "errno + string"
  fdopen_ok :: bool
  fprintf_ok :: bool
  rename_ok :: bool

definition write_pidfile :: "pid_calls \<Rightarrow> nat \<Rightarrow> string \<Rightarrow> fault + string \<times> string" where
  "write_pidfile e p path =
     (case mkstemp e of
        Inl _ \<Rightarrow> Inl (Died (''cannot create temporary PID file '' @ path @ ''.XXXXXX''))
      | Inr tmpl \<Rightarrow>
          if \<not> fdopen_ok e then Inl (Died (''cannot reopen temporary PID file '' @ tmpl))
          else if \<not> fprintf_ok e then Inl (Died (''cannot write to temporary PID file '' @ tmpl))
          else if \<not> rename_ok e then Inl (Died (''cannot rename temporary PID file to '' @ path))
          else Inr (path, show_nat p @ [CHR 0x0A]))"

text \<open>
  The program ends with a status, serves one connection on standard input, or
  enters the main loop with its sockets bound and its PID file written.
\<close>

datatype ('b, 'a) program_end = Exit_status int | Connection_served 'b | Daemon_ready "'a daemon"

record start_calls =
  daemonize_ok :: bool
  own_pid :: nat
  pid_calls_of :: pid_calls
  listening_of :: listening

definition start_daemon ::
  "parsers \<Rightarrow> start_calls \<Rightarrow> remctld_options \<Rightarrow> config \<Rightarrow> fault + ('b, 'a) program_end" where
  "start_daemon p e o1 cfg =
     ebind (bind_sockets p (listening_of e) o1) (\<lambda>fds.
       case opt_pid_path o1 of
         None \<Rightarrow> Inr (Daemon_ready (daemon_start cfg fds None))
       | Some path \<Rightarrow>
           ebind (write_pidfile (pid_calls_of e) (own_pid e) path) (\<lambda>_.
             Inr (Daemon_ready (daemon_start cfg fds (Some path)))))"

definition remctld_main ::
  "'c gss \<Rightarrow> ('k option \<Rightarrow> ('c, 'n) acceptor) \<Rightarrow> ('m, 'k) cred_store \<Rightarrow> nat \<Rightarrow> acl_env \<Rightarrow> parsers \<Rightarrow> start_calls
     \<Rightarrow> string \<Rightarrow> (char \<times> string) list \<Rightarrow> peer \<Rightarrow> ('c, 'z) server_scheme
     \<Rightarrow> fault + (('c, 'z) server_scheme, 'a) program_end" where
  "remctld_main g a cs depth env p e config_file opts peer c =
     ebind (remctld_parse_options opts (default_options config_file)) (\<lambda>r.
       case r of
         Inl st \<Rightarrow> Inr (Exit_status st)
       | Inr o1 \<Rightarrow>
           ebind (check_options o1) (\<lambda>_.
             if opt_standalone o1 \<and> \<not> opt_foreground o1 \<and> \<not> daemonize_ok e
             then Inl (Died ''cannot daemonize'')
             else ebind (server_config_load depth env (opt_config o1)) (\<lambda>cfg.
               case cfg of
                 None \<Rightarrow> Inl (Died (''cannot read configuration file '' @ opt_config o1))
               | Some cfg \<Rightarrow>
                   ebind (case opt_service o1 of
                            None \<Rightarrow> Inr None
                          | Some s \<Rightarrow>
                              (case snd (acquire_creds cs s) of
                                 None \<Rightarrow> Inl (Died ''unable to acquire creds, aborting'')
                               | Some k \<Rightarrow> Inr (Some k))) (\<lambda>creds.
                   if \<not> opt_standalone o1
                   then ebind (handle_connection g (a creds) depth env (rules cfg) peer 0 c) (\<lambda>c1.
                          Inr (Connection_served c1))
                   else start_daemon p e o1 cfg))))"

subsection \<open>Lemmas\<close>

lemma d_log_simps [simp]:
  "d_config (d_log es d) = d_config d" "d_fds (d_log es d) = d_fds d" "d_open (d_log es d) = d_open d"
  "d_children (d_log es d) = d_children d" "exit_signaled (d_log es d) = exit_signaled d"
  "config_signaled (d_log es d) = config_signaled d"
  by (simp_all add: d_log_def)

lemma reap_fields:
  "reap e d = Inr d1 \<Longrightarrow> d_config d1 = d_config d \<and> d_fds d1 = d_fds d \<and> d_open d1 = d_open d
     \<and> d_children d1 = d_children d \<and> exit_signaled d1 = exit_signaled d
     \<and> config_signaled d1 = config_signaled d \<and> \<not> child_signaled d1"
  by (auto simp: reap_def Let_def d_log_def split: if_split_asm option.split_asm)

lemma config_loaded_ok: "server_config_load depth env path = Inr (Some cfg) \<Longrightarrow> config_ok cfg"
proof -
  assume l: "server_config_load depth env path = Inr (Some cfg)"
  have "config_ok \<lparr>rules = [], cfg_allocated = 0\<rparr>" by (simp add: config_ok_def)
  from read_conf_file_keeps [OF this, of depth env path] l show ?thesis
    by (cases "read_conf_file depth env \<lparr>rules = [], cfg_allocated = 0\<rparr> path")
       (auto simp: server_config_load_def split: if_split_asm)
qed

lemma reread_fields:
  assumes "reread depth path e d = Inr d1"
  shows "d_fds d1 = d_fds d \<and> d_open d1 = d_open d \<and> d_children d1 = d_children d
     \<and> exit_signaled d1 = exit_signaled d \<and> (d_config d1 = d_config d \<or> config_ok (d_config d1))"
proof (cases "config_signaled d")
  case False
  with assms show ?thesis by (auto simp: reread_def)
next
  case True
  with assms obtain cfg where l: "server_config_load depth (r_env e) path = Inr (Some cfg)"
    by (auto simp: reread_def exec Let_def split: option.split_asm)
  from config_loaded_ok [OF l] True assms l show ?thesis by (auto simp: reread_def Let_def)
qed

lemma accept_fork_fields:
  assumes "accept_fork e d = Inr d1"
  shows "d_config d1 = d_config d \<and> d_fds d1 = d_fds d \<and> mset (d_open d) \<subseteq># mset (d_open d1)
     \<and> (\<forall>k. r_fork e = Inr k \<longrightarrow> mset (d_open d1) = mset (d_open d))
     \<and> (\<exists>cs. d_children d1 = d_children d @ cs \<and> (\<forall>x \<in> set cs. snd x = d_config d))"
proof -
  obtain r where r: "network_accept_any (d_fds d) (r_ready e) (r_accept e) (r_errno e) = Inr r"
    using assms by (auto simp: accept_fork_def exec)
  have m: "mset (remove1 s (xs @ [s])) = mset xs" for s and xs :: "nat list" by simp
  show ?thesis
  proof (cases r)
    case (Inl err)
    with assms r show ?thesis by (auto simp: accept_fork_def split: if_split_asm)
  next
    case (Inr x)
    obtain s conn where x: "x = (s, conn)" by fastforce
    from assms r Inr x m show ?thesis
      by (cases "r_fork e") (auto simp: accept_fork_def Let_def)
  qed
qed

inductive_cases daemon_stepE: "daemon_step depth path d d1"

definition daemon_ok :: "nat list \<Rightarrow> 'a daemon \<Rightarrow> bool" where
  "daemon_ok fds d \<longleftrightarrow> d_fds d = fds \<and> config_ok (d_config d) \<and> mset fds \<subseteq># mset (d_open d)
     \<and> (\<forall>(conn, cfg) \<in> set (d_children d). config_ok cfg)"

lemma daemon_round_stages:
  assumes "daemon_round depth path e d = Inr (again, d1)"
  obtains d2 d3 where "reap e d = Inr d2" "reread depth path e d2 = Inr d3"
    "again \<Longrightarrow> \<not> exit_signaled d3 \<and> accept_fork e d3 = Inr d1"
    "\<not> again \<Longrightarrow> exit_signaled d3 \<and> d1 = d_log [Log Notice ''signal received, exiting''] d3"
proof -
  obtain d2 where 2: "reap e d = Inr d2"
    using assms by (cases "reap e d") (simp_all add: daemon_round_def)
  obtain d3 where 3: "reread depth path e d2 = Inr d3"
    using assms 2 by (cases "reread depth path e d2") (simp_all add: daemon_round_def)
  show thesis
  proof (cases "exit_signaled d3")
    case True
    with assms 2 3 show thesis by (intro that) (auto simp: daemon_round_def)
  next
    case False
    with assms 2 3 obtain d4 where "accept_fork e d3 = Inr d4"
      by (cases "accept_fork e d3") (simp_all add: daemon_round_def)
    with False assms 2 3 show thesis by (intro that) (auto simp: daemon_round_def)
  qed
qed

lemma daemon_round_ok:
  assumes "daemon_round depth path e d = Inr (again, d1)" "daemon_ok fds d"
  shows "daemon_ok fds d1"
  using assms(1)
proof (cases rule: daemon_round_stages)
  case (1 d2 d3)
  have 3: "daemon_ok fds d3"
    using assms(2) reap_fields [OF 1(1)] reread_fields [OF 1(2)] by (auto simp: daemon_ok_def)
  show ?thesis
  proof (cases again)
    case True
    with 1(3) have "accept_fork e d3 = Inr d1" by simp
    note a = accept_fork_fields [OF this]
    then obtain cs where "d_children d1 = d_children d3 @ cs" "\<forall>x \<in> set cs. snd x = d_config d3" by blast
    with a 3 show ?thesis by (auto simp: daemon_ok_def intro: subset_mset.order_trans)
  next
    case False
    with 1(4) 3 show ?thesis by (simp add: daemon_ok_def)
  qed
qed

lemma daemon_step_ok: "daemon_step depth path d d1 \<Longrightarrow> daemon_ok fds d \<Longrightarrow> daemon_ok fds d1"
  by (erule daemon_stepE) (auto simp: daemon_ok_def dest: daemon_round_ok [unfolded daemon_ok_def])

lemma daemon_reachable_ok:
  "(daemon_step depth path)\<^sup>*\<^sup>* d d1 \<Longrightarrow> daemon_ok fds d \<Longrightarrow> daemon_ok fds d1"
  by (induction rule: rtranclp_induct) (auto intro: daemon_step_ok)

subsection \<open>Properties\<close>

text \<open>
  C16: whatever signals and connections arrive, and whatever the configuration
  file becomes, the daemon always has a well-formed configuration in force, every
  child was started with a well-formed one, and all sockets it listens on stay open.
\<close>

theorem daemon_invariant:
  assumes "config_ok cfg" "(daemon_step depth path)\<^sup>*\<^sup>* (daemon_start cfg fds pid_path) d"
  shows "config_ok (d_config d) \<and> (\<forall>(conn, c) \<in> set (d_children d). config_ok c)
    \<and> d_fds d = fds \<and> mset fds \<subseteq># mset (d_open d)"
proof -
  have "daemon_ok fds (daemon_start cfg fds pid_path)" using assms(1) by (simp add: daemon_ok_def daemon_start_def)
  from daemon_reachable_ok [OF assms(2) this] show ?thesis by (simp add: daemon_ok_def)
qed

definition demo_round :: "nat round" where
  "demo_round = \<lparr>r_waits = [], r_wait_end = None, r_env = demo_env, r_ready = Inr [3],
     r_accept = (\<lambda>n. Inr (7, 42)), r_errno = EINTR, r_fork = Inr 100\<rparr>"

lemma demo_daemon_round:
  "daemon_round 1 ''/c'' demo_round (daemon_start \<lparr>rules = [], cfg_allocated = 0\<rparr> [3] None)
     = Inr (True, (daemon_start \<lparr>rules = [], cfg_allocated = 0\<rparr> [3] None)
         \<lparr>d_children := [(42, \<lparr>rules = [], cfg_allocated = 0\<rparr>)]\<rparr>)"
  by (simp add: daemon_round_def reap_def reread_def accept_fork_def demo_round_def daemon_start_def
      network_accept_any_def network_wait_any_def FD_SETSIZE_def)

theorem daemon_invariant_witness:
  "(daemon_step 1 ''/c'')\<^sup>*\<^sup>* (daemon_start \<lparr>rules = [], cfg_allocated = 0\<rparr> [3] None)
       ((daemon_start \<lparr>rules = [], cfg_allocated = 0\<rparr> [3] None)\<lparr>d_children := [(42 :: nat, \<lparr>rules = [], cfg_allocated = 0\<rparr>)]\<rparr>)
     \<and> config_ok \<lparr>rules = [], cfg_allocated = 0\<rparr>"
proof -
  let ?cfg = "\<lparr>rules = [], cfg_allocated = 0\<rparr>"
  have r: "(daemon_step 1 ''/c'')\<^sup>*\<^sup>* (daemon_start ?cfg [3] None) ((daemon_start ?cfg [3] None)\<lparr>d_children := [(42 :: nat, ?cfg)]\<rparr>)"
    using another_round [OF demo_daemon_round] by (rule r_into_rtranclp)
  have "config_ok ?cfg" by (simp add: config_ok_def)
  from daemon_invariant [OF this r] r show ?thesis by simp
qed

text \<open>
  C17: a daemon that was told to exit does so in its next round, without
  accepting another connection, unless waiting for children fails or the
  configuration it was told to read again cannot be loaded; on the way out it closes every
  socket it listened on and removes its PID file.
\<close>

theorem daemon_exits:
  assumes "exit_signaled d" "r_wait_end e = None \<or> r_wait_end e = Some ECHILD"
    and "config_signaled d \<Longrightarrow> \<exists>cfg. server_config_load depth (r_env e) path = Inr (Some cfg)"
    and "mset (d_fds d) \<subseteq># mset (d_open d)"
  shows "\<exists>d1. daemon_round depth path e d = Inr (False, d1) \<and> d_children d1 = d_children d
     \<and> mset (d_open (daemon_end d1)) = mset (d_open d) - mset (d_fds d)
     \<and> d_pid_file (daemon_end d1) = None"
proof -
  have "\<exists>d2. reap e d = Inr d2" using assms(2) by (auto simp: reap_def Let_def)
  then obtain d2 where 2: "reap e d = Inr d2" by blast
  note f2 = reap_fields [OF 2]
  have "\<exists>d3. reread depth path e d2 = Inr d3" using assms(3) f2 by (auto simp: reread_def Let_def)
  then obtain d3 where 3: "reread depth path e d2 = Inr d3" by blast
  note f3 = reread_fields [OF 3]
  let ?d = "d_log [Log Notice ''signal received, exiting''] d3"
  have r: "daemon_round depth path e d = Inr (False, ?d)" using 2 3 f2 f3 assms(1) by (simp add: daemon_round_def)
  have "mset (foldl (\<lambda>os n. remove1 n os) xs ns) = mset xs - mset ns" for ns xs :: "nat list"
    by (induction ns arbitrary: xs) (simp_all add: add_mset_commute)
  then have "mset (d_open (daemon_end ?d)) = mset (d_open d) - mset (d_fds d)"
    using f2 f3 by (simp add: daemon_end_def)
  moreover have "d_pid_file (daemon_end ?d) = None" by (simp add: daemon_end_def)
  ultimately show ?thesis using r f2 f3 by auto
qed

theorem daemon_exits_witness:
  "\<exists>d1. daemon_round 1 ''/c'' demo_round ((daemon_start \<lparr>rules = [], cfg_allocated = 0\<rparr> [3, 4] (Some ''/p''))\<lparr>exit_signaled := True\<rparr>)
       = Inr (False, d1)
     \<and> d_children d1 = [] \<and> d_open (daemon_end d1) = [] \<and> d_pid_file (daemon_end d1) = None"
proof -
  let ?d = "(daemon_start \<lparr>rules = [], cfg_allocated = 0\<rparr> [3, 4] (Some ''/p''))\<lparr>exit_signaled := True\<rparr> :: nat daemon"
  have "exit_signaled ?d" "r_wait_end demo_round = None \<or> r_wait_end demo_round = Some ECHILD"
    "\<not> config_signaled ?d" "mset (d_fds ?d) \<subseteq># mset (d_open ?d)"
    by (simp_all add: daemon_start_def demo_round_def)
  from daemon_exits [OF this(1,2) _ this(4), of 1 "''/c''"] this(3) obtain d1 where
    "daemon_round 1 ''/c'' demo_round ?d = Inr (False, d1)" "d_children d1 = d_children ?d"
    "mset (d_open (daemon_end d1)) = mset (d_open ?d) - mset (d_fds ?d)"
    "d_pid_file (daemon_end d1) = None" by auto
  then show ?thesis by (auto simp: daemon_start_def)
qed

text \<open>The parent keeps the connection open when it cannot fork.\<close>

lemma fork_failure_leaks:
  assumes "d_fds d = [n]" "n < FD_SETSIZE" "r_ready e = Inr [n]" "r_accept e n = Inr (s, conn)" "r_fork e = Inl err"
  shows "\<exists>d1. accept_fork e d = Inr d1 \<and> d_open d1 = d_open d @ [s] \<and> d_children d1 = d_children d"
  using assms by (simp add: accept_fork_def network_accept_any_def network_wait_any_def)

text \<open>
  C34: the options that the program runs with are well typed: the port fits
  16 bits and is not 0, and addresses to bind to or a stop signal come only with
  stand-alone mode.
\<close>

theorem remctld_options_typed:
  assumes "remctld_parse_options opts (default_options config_file) = Inr (Inr o1)" "check_options o1 = Inr ()"
  shows "0 < opt_port o1 \<and> opt_port o1 < 2 ^ 16 \<and> (opt_bindaddrs o1 \<noteq> [] \<or> opt_suspend o1 \<longrightarrow> opt_standalone o1)"
proof -
  have port: "port_option arg = Inr n \<Longrightarrow> 0 < n \<and> n < 2 ^ 16" for arg n
    by (auto simp: port_option_def split: prod.split_asm if_split_asm)
  have "remctld_parse_options opts o0 = Inr (Inr o1) \<Longrightarrow> 0 < opt_port o0 \<and> opt_port o0 < 2 ^ 16
      \<Longrightarrow> 0 < opt_port o1 \<and> opt_port o1 < 2 ^ 16" for o0
    by (induction opts arbitrary: o0) (auto simp: exec split: prod.split_asm if_split_asm dest: port)
  with assms show ?thesis
    by (auto simp: check_options_def default_options_def split: if_split_asm)
qed

theorem remctld_options_typed_witness:
  "\<exists>o1. remctld_parse_options [(CHR ''m'', []), (CHR ''b'', ''::1''), (CHR ''p'', ''443'')] (default_options ''/c'')
       = Inr (Inr o1) \<and> check_options o1 = Inr () \<and> opt_port o1 = 443 \<and> 0 < opt_port o1 \<and> opt_standalone o1"
proof -
  obtain o1 where o1: "remctld_parse_options [(CHR ''m'', []), (CHR ''b'', ''::1''), (CHR ''p'', ''443'')]
      (default_options ''/c'') = Inr (Inr o1)" "check_options o1 = Inr ()" "opt_port o1 = 443"
      "opt_bindaddrs o1 = [''::1'']"
    by (simp add: port_option_def strtol_def ctype_defs LONG_MAX_def check_options_def default_options_def)
  from remctld_options_typed [OF o1(1,2)] o1(4) have "0 < opt_port o1 \<and> opt_standalone o1" by simp
  with o1 show ?thesis by (intro exI [of _ o1]) simp
qed

end
