(* ===== verification/Buffer.thy ===== *)
theory Buffer
  imports Sockets
begin

text \<open>
  Counted buffers: \<^verbatim>\<open>src/util/buffer.c\<close>.

  A buffer is a block of memory of \<open>bsize\<close> cells with \<open>bused\<close> octets that were
  consumed and \<open>bleft\<close> octets of data behind them. A cell that was allocated and
  not yet written is None, and \<open>bdata = None\<close> is the null pointer. A call that would read
  or write outside the block has undefined behaviour. Data a caller passes is a
  pointer (None is null) to an object of its own, and the length of it to use.
  What a format prints is given, None when \<open>vsnprintf\<close> fails. The descriptor that is read is
  the script of \<open>sys_read\<close>.

  The lemmas show that buffers implement byte strings: \<open>contents\<close> is the abstraction,
  \<open>buffer_ok\<close> the invariant, and the locale \<open>data_refinement\<close> the contract
  that the users of buffers rely on.
\<close>

subsection \<open>State\<close>

type_synonym cells = "char option list"

record buffer =
  bsize :: nat
  bused :: nat
  bleft :: nat
  bdata :: "cells option"

text \<open>The memory functions of the C library.\<close>

definition xrealloc :: "cells option \<Rightarrow> nat \<Rightarrow> cells option" where
  "xrealloc p n =
     (case p of
        None \<Rightarrow> Some (replicate n None)
      | Some cs \<Rightarrow> if n = 0 then None else Some (take n cs @ replicate (n - length cs) None))"

definition poke :: "nat \<Rightarrow> cells \<Rightarrow> cells option \<Rightarrow> fault + cells option" where
  "poke off d p =
     (case p of
        None \<Rightarrow> Inl Undefined
      | Some cs \<Rightarrow>
          if off + length d \<le> length cs
          then Inr (Some (take off cs @ d @ drop (off + length d) cs)) else Inl Undefined)"

definition peek :: "nat \<Rightarrow> nat \<Rightarrow> cells option \<Rightarrow> fault + cells" where
  "peek off n p =
     (case p of
        None \<Rightarrow> Inl Undefined
      | Some cs \<Rightarrow> if off + n \<le> length cs then Inr (take n (drop off cs)) else Inl Undefined)"

definition argument :: "bytes option \<Rightarrow> nat \<Rightarrow> fault + cells" where
  "argument d n = peek 0 n (map_option (map Some) d)"

text \<open>\<open>memchr\<close> reads octet after octet until it has found \<open>c\<close>.\<close>

fun memchr :: "char \<Rightarrow> nat \<Rightarrow> cells \<Rightarrow> fault + nat option" where
  "memchr c 0 xs = Inr None"
| "memchr c (Suc n) [] = Inl Undefined"
| "memchr c (Suc n) (None # xs) = Inl Undefined"
| "memchr c (Suc n) (Some x # xs) =
     (if x = c then Inr (Some 0) else ebind (memchr c n xs) (\<lambda>r. Inr (map_option Suc r)))"

text \<open>\<open>vsnprintf\<close> writes what fits and a terminating nul, if it has any room at all.\<close>

definition vsnprintf :: "bytes \<Rightarrow> nat \<Rightarrow> nat \<Rightarrow> cells option \<Rightarrow> fault + cells option" where
  "vsnprintf str off avail p =
     (if avail = 0 then Inr p else poke off (map Some (take (avail - 1) str @ [NUL])) p)"

subsection \<open>Operations\<close>

definition buffer_new :: buffer where
  "buffer_new = \<lparr>bsize = 0, bused = 0, bleft = 0, bdata = None\<rparr>"

definition buffer_resize :: "nat \<Rightarrow> buffer \<Rightarrow> buffer" where
  "buffer_resize n b =
     (if n < bsize b then b
      else let sz = size_add n 1023 div 1024 * 1024
           in b\<lparr>bsize := sz, bdata := xrealloc (bdata b) sz\<rparr>)"

definition buffer_compact :: "buffer \<Rightarrow> fault + buffer" where
  "buffer_compact b =
     (if bused b = 0 then Inr b
      else ebind (if bleft b \<noteq> 0
                  then ebind (peek (bused b) (bleft b) (bdata b)) (\<lambda>d. poke 0 d (bdata b))
                  else Inr (bdata b)) (\<lambda>p.
             Inr (b\<lparr>bdata := p, bused := 0\<rparr>)))"

definition buffer_set :: "bytes option \<Rightarrow> nat \<Rightarrow> buffer \<Rightarrow> fault + buffer" where
  "buffer_set data n b =
     ebind (if n > 0 then
              if data = None then Inl (Died ''assertion data != NULL failed'')
              else let b1 = buffer_resize n b
                   in ebind (argument data n) (\<lambda>d.
                      ebind (poke 0 d (bdata b1)) (\<lambda>p. Inr (b1\<lparr>bdata := p\<rparr>)))
            else Inr b) (\<lambda>b2.
       Inr (b2\<lparr>bleft := n, bused := 0\<rparr>))"

definition buffer_append :: "bytes option \<Rightarrow> nat \<Rightarrow> buffer \<Rightarrow> fault + buffer" where
  "buffer_append data n b =
     (if n = 0 then Inr b
      else let total = size_add (bused b) (bleft b);
               b1 = buffer_resize (size_add total n) b;
               b2 = b1\<lparr>bleft := size_add (bleft b1) n\<rparr>
           in ebind (argument data n) (\<lambda>d.
              ebind (poke total d (bdata b2)) (\<lambda>p. Inr (b2\<lparr>bdata := p\<rparr>))))"

definition buffer_append_vsprintf :: "bytes option \<Rightarrow> buffer \<Rightarrow> fault + buffer" where
  "buffer_append_vsprintf printed b =
     (case printed of
        None \<Rightarrow> Inr b
      | Some str \<Rightarrow>
          let total = size_add (bused b) (bleft b);
              avail = size_sub (bsize b) total;
              status = length str
          in ebind (vsnprintf str total avail (bdata b)) (\<lambda>p.
             if status < avail then Inr (b\<lparr>bdata := p, bleft := size_add (bleft b) status\<rparr>)
             else let b1 = buffer_resize (size_add (size_add total status) 1) (b\<lparr>bdata := p\<rparr>);
                      avail1 = size_sub (bsize b1) total
                  in ebind (vsnprintf str total avail1 (bdata b1)) (\<lambda>p1.
                     if status \<ge> avail1 then Inr (b1\<lparr>bdata := p1\<rparr>)
                     else Inr (b1\<lparr>bdata := p1, bleft := size_add (bleft b1) status\<rparr>))))"

definition buffer_append_sprintf :: "bytes option \<Rightarrow> buffer \<Rightarrow> fault + buffer" where
  "buffer_append_sprintf = buffer_append_vsprintf"

definition buffer_vsprintf :: "bytes option \<Rightarrow> buffer \<Rightarrow> fault + buffer" where
  "buffer_vsprintf printed b = ebind (buffer_set None 0 b) (buffer_append_vsprintf printed)"

definition buffer_sprintf :: "bytes option \<Rightarrow> buffer \<Rightarrow> fault + buffer" where
  "buffer_sprintf = buffer_vsprintf"

definition buffer_swap :: "buffer \<times> buffer \<Rightarrow> buffer \<times> buffer" where
  "buffer_swap p = (case p of (one, two) \<Rightarrow> (two, one))"

lemma memchr_found: "memchr c n xs = Inr (Some k) \<Longrightarrow> k < n \<and> k < length xs"
  by (induction c n xs arbitrary: k rule: memchr.induct) (auto simp: exec split: if_split_asm)

text \<open>
  Finding a string: the search for its first octet is repeated behind each
  place where the rest of the string does not follow.
\<close>

function find_string_loop ::
  "cells \<Rightarrow> nat \<Rightarrow> nat \<Rightarrow> bytes \<Rightarrow> nat \<Rightarrow> fault + nat option" where
  "find_string_loop cs used left string start =
     (case memchr (hd (string @ [NUL])) (size_sub left start) (drop (used + start) cs) of
        Inl e \<Rightarrow> Inl e
      | Inr None \<Rightarrow> Inr None
      | Inr (Some k) \<Rightarrow>
          if size_sub left (start + k) < length string then Inr None
          else ebind (peek (used + (start + k)) (length string) (Some cs)) (\<lambda>d.
                 if None \<in> set d then Inl Undefined
                 else if d = map Some string then Inr (Some (start + k))
                 else find_string_loop cs used left string (start + k + 1)))"
  by pat_completeness auto

termination
  by (relation "measure (\<lambda>(cs, used, left, string, start). length cs - (used + start))")
     (auto dest!: memchr_found)

definition buffer_find_string :: "bytes \<Rightarrow> nat \<Rightarrow> buffer \<Rightarrow> fault + nat option" where
  "buffer_find_string string start b =
     (case bdata b of
        None \<Rightarrow> Inr None
      | Some cs \<Rightarrow> find_string_loop cs (bused b) (bleft b) string start)"

text \<open>Reading: None is the result -1.\<close>

function buffer_read :: "buffer \<Rightarrow> 'z sock_scheme \<Rightarrow> fault + nat option \<times> buffer \<times> 'z sock_scheme" where
  "buffer_read b s =
     (let total = size_add (bused b) (bleft b)
      in case sys_read (size_sub (bsize b) total) s of
           (Rd_Err e, s1) \<Rightarrow>
             if e = EAGAIN \<or> e = EINTR then buffer_read b s1 else Inr (None, b, s1)
         | (Rd_Data d, s1) \<Rightarrow>
             if d = [] then Inr (Some 0, b, s1)
             else ebind (poke total (map Some d) (bdata b)) (\<lambda>p.
                    Inr (Some (length d), b\<lparr>bdata := p, bleft := size_add (bleft b) (length d)\<rparr>, s1)))"
  by pat_completeness auto

termination
  by (relation "measure (\<lambda>(b, s). length (rd s))") (auto dest: sys_read_Err)

declare find_string_loop.simps [simp del] buffer_read.simps [simp del]

text \<open>What the descriptor can still deliver, which every round of the loop reduces.\<close>

definition script_size :: "'z sock_scheme \<Rightarrow> nat" where
  "script_size s = (\<Sum>r \<leftarrow> rd s. case r of Rd_Data d \<Rightarrow> length d | Rd_Err e \<Rightarrow> 0)"

lemma sys_read_size:
  "sys_read n s = (Rd_Data d, s1) \<Longrightarrow> script_size s1 + length d = script_size s"
  "sys_read n s = (Rd_Err e, s1) \<Longrightarrow> script_size s1 = script_size s"
  by (auto simp: sys_read_def script_size_def split: sys_splits)

lemma buffer_read_size: "buffer_read b s = Inr (Some n, b1, s1) \<Longrightarrow> script_size s1 + n = script_size s"
proof (induction b s rule: buffer_read.induct)
  case (1 b s)
  obtain r s2 where r: "sys_read (size_sub (bsize b) (size_add (bused b) (bleft b))) s = (r, s2)" by fastforce
  show ?case
  proof (cases r)
    case (Rd_Data d)
    with 1(2) r show ?thesis
      by (subst (asm) buffer_read.simps) (auto simp: exec Let_def dest!: sys_read_size split: if_split_asm)
  next
    case (Rd_Err e)
    with 1(2) r have "e = EAGAIN \<or> e = EINTR" "buffer_read b s2 = Inr (Some n, b1, s1)"
      by (subst (asm) buffer_read.simps; force simp: Let_def split: if_split_asm)+
    with 1(1) [OF refl r [symmetric] Rd_Err] r Rd_Err show ?thesis by (simp add: sys_read_size)
  qed
qed

function read_all_loop :: "buffer \<Rightarrow> 'z sock_scheme \<Rightarrow> fault + bool \<times> buffer \<times> 'z sock_scheme" where
  "read_all_loop b s =
     (let used = size_add (bused b) (bleft b);
          b1 = (if bsize b \<le> used then buffer_resize (bsize b * 2 mod 2 ^ 64) b else b)
      in case buffer_read b1 s of
           Inl e \<Rightarrow> Inl e
         | Inr (None, b2, s1) \<Rightarrow> Inr (False, b2, s1)
         | Inr (Some n, b2, s1) \<Rightarrow> if n > 0 then read_all_loop b2 s1 else Inr (True, b2, s1))"
  by pat_completeness auto

termination
  by (relation "measure (\<lambda>(b, s). script_size s)") (auto dest!: buffer_read_size)

declare read_all_loop.simps [simp del]

definition buffer_read_all :: "buffer \<Rightarrow> 'z sock_scheme \<Rightarrow> fault + bool \<times> buffer \<times> 'z sock_scheme" where
  "buffer_read_all b s = read_all_loop (if bsize b = 0 then buffer_resize 1024 b else b) s"

definition buffer_read_file ::
  "errno + nat \<Rightarrow> buffer \<Rightarrow> 'z sock_scheme \<Rightarrow> fault + bool \<times> buffer \<times> 'z sock_scheme" where
  "buffer_read_file fstat b s =
     (let used = size_add (bused b) (bleft b)
      in case fstat of
           Inl e \<Rightarrow> Inr (False, b, s\<lparr>socket_errno := e\<rparr>)
         | Inr st_size \<Rightarrow> buffer_read_all (buffer_resize (size_add st_size used) b) s)"

subsection \<open>Abstraction and invariant\<close>

definition cells_of :: "buffer \<Rightarrow> cells" where
  "cells_of b = (case bdata b of None \<Rightarrow> [] | Some cs \<Rightarrow> cs)"

definition contents :: "buffer \<Rightarrow> bytes" where
  "contents b = map the (take (bleft b) (drop (bused b) (cells_of b)))"

definition buffer_ok :: "buffer \<Rightarrow> bool" where
  "buffer_ok b \<longleftrightarrow> length (cells_of b) = bsize b \<and> bused b + bleft b \<le> bsize b \<and> bsize b < 2 ^ 63
     \<and> None \<notin> set (take (bleft b) (drop (bused b) (cells_of b)))"

text \<open>In a well-formed buffer the cells in use are the octets of \<open>contents\<close>.\<close>

lemma contents_cells: "buffer_ok b \<Longrightarrow> take (bleft b) (drop (bused b) (cells_of b)) = map Some (contents b)"
proof -
  have "None \<notin> set xs \<Longrightarrow> xs = map (Some \<circ> the) xs" for xs :: cells by (induction xs) auto
  then show "buffer_ok b \<Longrightarrow> ?thesis" by (simp add: buffer_ok_def contents_def)
qed

lemma length_contents [simp]: "buffer_ok b \<Longrightarrow> length (contents b) = bleft b"
  by (auto simp: contents_def buffer_ok_def)

lemma buffer_okI:
  assumes "length (cells_of b) = bsize b" "bused b + bleft b \<le> bsize b" "bsize b < 2 ^ 63"
    and "take (bleft b) (drop (bused b) (cells_of b)) = map Some d"
  shows "buffer_ok b \<and> contents b = d"
  using assms by (auto simp: buffer_ok_def contents_def comp_def)

lemma new_ok: "buffer_ok buffer_new \<and> contents buffer_new = []"
  by (rule buffer_okI) (simp_all add: buffer_new_def cells_of_def)

lemma poke_ok:
  assumes "off + length d \<le> length (cells_of b)" "d \<noteq> []"
  shows "poke off d (bdata b) = Inr (Some (take off (cells_of b) @ d @ drop (off + length d) (cells_of b)))"
  using assms by (auto simp: poke_def cells_of_def split: option.splits)

lemma argument_ok [simp]: "argument (Some d) (length d) = Inr (map Some d)"
  by (simp add: argument_def peek_def)

text \<open>Resizing keeps the cells and makes room.\<close>

lemma round_up: "n \<le> (n + 1023) div 1024 * (1024 :: nat)" "(n + 1023) div 1024 * 1024 \<le> n + (1023 :: nat)"
  using div_mult_mod_eq [of "n + 1023" 1024] mod_less_divisor [of 1024 "n + 1023"] by linarith+

text \<open>Sizes below the largest object do not wrap around.\<close>

lemma object_size: "a + b < 2 ^ 63 \<Longrightarrow> size_add a b = a + b" "c \<le> a \<Longrightarrow> a < 2 ^ 63 \<Longrightarrow> size_sub a c = a - c"
  by simp_all

lemma resize_cells:
  assumes "length (cells_of b) = bsize b" "n + 1023 < 2 ^ 63"
  shows "\<exists>k. cells_of (buffer_resize n b) = cells_of b @ replicate k None \<and> bsize (buffer_resize n b) = bsize b + k
     \<and> n \<le> bsize (buffer_resize n b) \<and> bused (buffer_resize n b) = bused b \<and> bleft (buffer_resize n b) = bleft b
     \<and> bsize (buffer_resize n b) \<le> max (bsize b) (n + 1023)"
proof (cases "n < bsize b")
  case True
  then show ?thesis by (intro exI [of _ 0]) (simp add: buffer_resize_def)
next
  case False
  let ?sz = "(n + 1023) div 1024 * 1024"
  have sz: "n \<le> ?sz" "?sz \<le> n + 1023" by (rule round_up)+
  have a: "size_add n 1023 = n + 1023" using assms(2) by (rule object_size)
  have "cells_of (buffer_resize n b) = cells_of b @ replicate (?sz - bsize b) None"
    using False assms(1) sz(1) unfolding buffer_resize_def a
    by (cases "bdata b") (auto simp: xrealloc_def cells_of_def Let_def)
  moreover have "bsize (buffer_resize n b) = ?sz" using False unfolding buffer_resize_def a by (simp add: Let_def)
  ultimately show ?thesis using False sz
    by (intro exI [of _ "?sz - bsize b"]) (auto simp: buffer_resize_def Let_def)
qed

lemma resize_ok:
  assumes "buffer_ok b" "n + 1023 < 2 ^ 63"
  shows "buffer_ok (buffer_resize n b) \<and> contents (buffer_resize n b) = contents b
    \<and> n \<le> bsize (buffer_resize n b) \<and> bused (buffer_resize n b) = bused b \<and> bleft (buffer_resize n b) = bleft b
    \<and> bsize (buffer_resize n b) \<le> max (bsize b) (n + 1023)"
proof -
  have l: "length (cells_of b) = bsize b" "bused b + bleft b \<le> bsize b" "bsize b < 2 ^ 63"
    using assms(1) by (simp_all add: buffer_ok_def)
  from resize_cells [OF l(1) assms(2)] obtain k where k:
    "cells_of (buffer_resize n b) = cells_of b @ replicate k None" "bsize (buffer_resize n b) = bsize b + k"
    "n \<le> bsize (buffer_resize n b)" "bused (buffer_resize n b) = bused b" "bleft (buffer_resize n b) = bleft b"
    "bsize (buffer_resize n b) \<le> max (bsize b) (n + 1023)" by blast
  have "buffer_ok (buffer_resize n b) \<and> contents (buffer_resize n b) = contents b"
  proof (rule buffer_okI)
    show "bsize (buffer_resize n b) < 2 ^ 63" using k(6) l(3) assms(2) by linarith
    show "take (bleft (buffer_resize n b)) (drop (bused (buffer_resize n b)) (cells_of (buffer_resize n b)))
        = map Some (contents b)"
      using k l contents_cells [OF assms(1)] by simp
  qed (use k l in simp_all)
  with k show ?thesis by simp
qed

text \<open>Octets stored behind the data and counted become part of it.\<close>

lemma extend_ok:
  assumes "buffer_ok b" "bused b + bleft b + length d \<le> bsize b"
    and "bdata b1 = Some (take (bused b + bleft b) (cells_of b) @ map Some d @ rest)"
    and "length rest = bsize b - (bused b + bleft b + length d)"
    and "bsize b1 = bsize b" "bused b1 = bused b" "bleft b1 = bleft b + length d"
  shows "buffer_ok b1 \<and> contents b1 = contents b @ d"
proof (rule buffer_okI)
  have l: "length (cells_of b) = bsize b" "bsize b < 2 ^ 63" using assms(1) by (simp_all add: buffer_ok_def)
  show "length (cells_of b1) = bsize b1" "bused b1 + bleft b1 \<le> bsize b1" "bsize b1 < 2 ^ 63"
    using assms l by (simp_all add: cells_of_def [of b1])
  have "drop (bused b) (take (bused b + bleft b) (cells_of b)) = map Some (contents b)"
    using contents_cells [OF assms(1)] by (simp add: drop_take)
  then show "take (bleft b1) (drop (bused b1) (cells_of b1)) = map Some (contents b @ d)"
    using assms l by (simp add: cells_of_def [of b1])
qed

lemma append_ok:
  assumes "buffer_ok b" "bused b + bleft b + length d + 1023 < 2 ^ 63"
  shows "\<exists>b1. buffer_append (Some d) (length d) b = Inr b1 \<and> buffer_ok b1 \<and> contents b1 = contents b @ d
    \<and> bused b1 = bused b"
proof (cases "d = []")
  case True
  with assms show ?thesis by (simp add: buffer_append_def)
next
  case False
  let ?t = "bused b + bleft b"
  let ?r = "buffer_resize (?t + length d) b"
  note r = resize_ok [OF assms(1,2)]
  let ?cs = "Some (take ?t (cells_of ?r) @ map Some d @ drop (?t + length d) (cells_of ?r))"
  let ?b = "?r\<lparr>bleft := bleft b + length d, bdata := ?cs\<rparr>"
  have l: "length (cells_of ?r) = bsize ?r" using r by (simp add: buffer_ok_def)
  have "poke ?t (map Some d) (bdata ?r) = Inr ?cs" using poke_ok [of ?t "map Some d" ?r] False r l by simp
  moreover have "size_add (bused b) (bleft b) = ?t" "size_add ?t (length d) = ?t + length d"
    "size_add (bleft b) (length d) = bleft b + length d" using assms(2) by (simp_all add: object_size)
  ultimately have "buffer_append (Some d) (length d) b = Inr ?b"
    using False r by (simp add: buffer_append_def Let_def)
  moreover have "buffer_ok ?b \<and> contents ?b = contents ?r @ d"
    by (rule extend_ok [where rest = "drop (?t + length d) (cells_of ?r)"]) (use r l in simp_all)
  ultimately show ?thesis using r by simp
qed

lemma set_ok:
  assumes "buffer_ok b" "length d + 1023 < 2 ^ 63"
  shows "\<exists>b1. buffer_set (Some d) (length d) b = Inr b1 \<and> buffer_ok b1 \<and> contents b1 = d \<and> bused b1 = 0"
proof (cases "d = []")
  case True
  have "buffer_ok (b\<lparr>bleft := 0, bused := 0\<rparr>) \<and> contents (b\<lparr>bleft := 0, bused := 0\<rparr>) = []"
    using assms(1) by (intro buffer_okI) (auto simp: buffer_ok_def cells_of_def)
  with True show ?thesis by (simp add: buffer_set_def)
next
  case False
  let ?r = "buffer_resize (length d) b"
  note r = resize_ok [OF assms]
  let ?b = "?r\<lparr>bdata := Some (map Some d @ drop (length d) (cells_of ?r)), bleft := length d, bused := 0\<rparr>"
  have l: "length (cells_of ?r) = bsize ?r" "bsize ?r < 2 ^ 63" using r by (auto simp: buffer_ok_def)
  have "poke 0 (map Some d) (bdata ?r) = Inr (Some (map Some d @ drop (length d) (cells_of ?r)))"
    using poke_ok [of 0 "map Some d" ?r] False r l by simp
  then have "buffer_set (Some d) (length d) b = Inr ?b"
    using False by (simp add: buffer_set_def Let_def)
  moreover have "buffer_ok ?b \<and> contents ?b = d"
    by (rule buffer_okI) (use r l in \<open>simp_all add: cells_of_def [of ?b]\<close>)
  ultimately show ?thesis by simp
qed

lemma clear_ok:
  assumes "buffer_ok b"
  shows "\<exists>b1. buffer_set None 0 b = Inr b1 \<and> buffer_ok b1 \<and> contents b1 = [] \<and> bused b1 = 0"
  using set_ok [OF assms, of "[]"] by (simp add: buffer_set_def)

lemma compact_ok:
  assumes "buffer_ok b"
  shows "\<exists>b1. buffer_compact b = Inr b1 \<and> buffer_ok b1 \<and> contents b1 = contents b \<and> bused b1 = 0"
proof -
  have l: "length (cells_of b) = bsize b" "bused b + bleft b \<le> bsize b" "bsize b < 2 ^ 63"
    using assms by (simp_all add: buffer_ok_def)
  consider "bused b = 0" | "bused b \<noteq> 0" "bleft b = 0" | "bused b \<noteq> 0" "bleft b \<noteq> 0" by blast
  then show ?thesis
  proof cases
    case 2
    have "contents b = []" using 2 by (simp add: contents_def)
    moreover have "buffer_ok (b\<lparr>bused := 0\<rparr>) \<and> contents (b\<lparr>bused := 0\<rparr>) = []"
      by (rule buffer_okI) (use l 2 in \<open>simp_all add: cells_of_def\<close>)
    ultimately show ?thesis using 2 by (simp add: buffer_compact_def)
  next
    case 3
    let ?cs = "map Some (contents b) @ drop (bleft b) (cells_of b)"
    let ?b = "b\<lparr>bdata := Some ?cs, bused := 0\<rparr>"
    have ne: "contents b \<noteq> []" using 3 length_contents [OF assms] by auto
    have "peek (bused b) (bleft b) (bdata b) = Inr (map Some (contents b))"
      using l 3 contents_cells [OF assms] by (auto simp: peek_def cells_of_def split: option.splits)
    moreover have "poke 0 (map Some (contents b)) (bdata b) = Inr (Some ?cs)"
      using poke_ok [of 0 "map Some (contents b)" b] ne l assms by simp
    ultimately have "buffer_compact b = Inr ?b" using 3 by (simp add: buffer_compact_def)
    moreover have "buffer_ok ?b \<and> contents ?b = contents b"
      by (rule buffer_okI) (use l assms in \<open>simp_all add: cells_of_def [of ?b]\<close>)
    ultimately show ?thesis by simp
  qed (use assms in \<open>simp add: buffer_compact_def\<close>)
qed

text \<open>Printing: behind the data, with the terminating nul outside of it.\<close>

lemma sprint_fits:
  assumes "buffer_ok b" "bused b + bleft b + length str < bsize b"
  shows "\<exists>p. vsnprintf str (bused b + bleft b) (bsize b - (bused b + bleft b)) (bdata b) = Inr p
    \<and> buffer_ok (b\<lparr>bdata := p, bleft := bleft b + length str\<rparr>)
    \<and> contents (b\<lparr>bdata := p, bleft := bleft b + length str\<rparr>) = contents b @ str"
proof -
  let ?t = "bused b + bleft b"
  let ?rest = "Some NUL # drop (?t + length str + 1) (cells_of b)"
  have l: "length (cells_of b) = bsize b" using assms(1) by (simp add: buffer_ok_def)
  have "vsnprintf str ?t (bsize b - ?t) (bdata b)
      = Inr (Some (take ?t (cells_of b) @ map Some str @ ?rest))"
    using assms(2) l poke_ok [of ?t "map Some (str @ [NUL])" b] by (simp add: vsnprintf_def)
  moreover have "buffer_ok (b\<lparr>bdata := Some (take ?t (cells_of b) @ map Some str @ ?rest), bleft := bleft b + length str\<rparr>)
    \<and> contents (b\<lparr>bdata := Some (take ?t (cells_of b) @ map Some str @ ?rest), bleft := bleft b + length str\<rparr>)
      = contents b @ str"
    by (rule extend_ok [where rest = ?rest]) (use assms l in simp_all)
  ultimately show ?thesis by blast
qed

lemma sprint_cut:
  assumes "buffer_ok b" "bsize b \<le> bused b + bleft b + length str"
  shows "\<exists>p. vsnprintf str (bused b + bleft b) (bsize b - (bused b + bleft b)) (bdata b) = Inr p
    \<and> buffer_ok (b\<lparr>bdata := p\<rparr>) \<and> contents (b\<lparr>bdata := p\<rparr>) = contents b"
proof -
  let ?t = "bused b + bleft b" and ?a = "bsize b - (bused b + bleft b)"
  have l: "length (cells_of b) = bsize b" "?t \<le> bsize b" using assms(1) by (simp_all add: buffer_ok_def)
  show ?thesis
  proof (cases "?a = 0")
    case True
    with assms show ?thesis by (intro exI [of _ "bdata b"]) (simp add: vsnprintf_def)
  next
    case False
    let ?d = "map Some (take (?a - 1) str @ [NUL])"
    let ?p = "Some (take ?t (cells_of b) @ ?d @ drop (?t + length ?d) (cells_of b))"
    have d: "length ?d = ?a" using False assms(2) by simp
    have "vsnprintf str ?t ?a (bdata b) = Inr ?p"
      using False l d poke_ok [of ?t ?d b] by (simp add: vsnprintf_def)
    moreover have "buffer_ok (b\<lparr>bdata := ?p\<rparr>) \<and> contents (b\<lparr>bdata := ?p\<rparr>) = contents b @ []"
      by (rule extend_ok [where rest = "?d @ drop (?t + length ?d) (cells_of b)"])
         (use assms(1) l d in simp_all)
    ultimately show ?thesis by auto
  qed
qed

lemma append_vsprintf_ok:
  assumes "buffer_ok b" "bused b + bleft b + length str + 1024 < 2 ^ 63"
  shows "\<exists>b1. buffer_append_vsprintf (Some str) b = Inr b1 \<and> buffer_ok b1 \<and> contents b1 = contents b @ str
    \<and> bused b1 = bused b"
proof -
  let ?t = "bused b + bleft b"
  have l: "?t \<le> bsize b" "bsize b < 2 ^ 63" using assms(1) by (simp_all add: buffer_ok_def)
  have a: "size_add (bused b) (bleft b) = ?t" "size_sub (bsize b) ?t = bsize b - ?t"
    "size_add (bleft b) (length str) = bleft b + length str"
    "size_add ?t (length str) = ?t + length str" "size_add (?t + length str) (Suc 0) = Suc (?t + length str)"
    using l assms(2) by (simp_all add: object_size)
  show ?thesis
  proof (cases "?t + length str < bsize b")
    case True
    from sprint_fits [OF assms(1) True] True show ?thesis
      unfolding buffer_append_vsprintf_def by (auto simp: a Let_def)
  next
    case False
    then obtain p where p: "vsnprintf str ?t (bsize b - ?t) (bdata b) = Inr p"
      "buffer_ok (b\<lparr>bdata := p\<rparr>)" "contents (b\<lparr>bdata := p\<rparr>) = contents b"
      using sprint_cut [OF assms(1), of str] by auto
    let ?r = "buffer_resize (?t + length str + 1) (b\<lparr>bdata := p\<rparr>)"
    from resize_ok [OF p(2), of "?t + length str + 1"] assms(2)
    have r: "buffer_ok ?r" "contents ?r = contents b" "bused ?r = bused b" "bleft ?r = bleft b"
      "?t + length str < bsize ?r" using p(3) by auto
    have s: "size_sub (bsize ?r) ?t = bsize ?r - ?t" "size_add (bleft ?r) (length str) = bleft ?r + length str"
      using r a(3) by (simp_all add: object_size buffer_ok_def)
    from sprint_fits [OF r(1), of str] r show ?thesis
      using False p(1) s unfolding buffer_append_vsprintf_def by (auto simp: a Let_def)
  qed
qed

lemma vsprintf_ok:
  assumes "buffer_ok b" "length str + 1024 < 2 ^ 63"
  shows "\<exists>b1. buffer_vsprintf (Some str) b = Inr b1 \<and> buffer_ok b1 \<and> contents b1 = str \<and> bused b1 = 0"
proof -
  obtain b1 where b1: "buffer_set None 0 b = Inr b1" "buffer_ok b1" "contents b1 = []" "bused b1 = 0"
    using clear_ok [OF assms(1)] by blast
  then have "bleft b1 = 0" using length_contents [OF b1(2)] by simp
  with append_vsprintf_ok [OF b1(2), of str] b1 assms(2) show ?thesis by (auto simp: buffer_vsprintf_def)
qed

text \<open>
  What a descriptor delivers: its data up to the first end of file or error that
  is not an interruption, and whether it ends with the end of file.
\<close>

fun delivered :: "rd_result list \<Rightarrow> bytes \<times> bool" where
  "delivered [] = ([], True)"
| "delivered (Rd_Data d # rs) =
     (if d = [] then ([], True) else (d @ fst (delivered rs), snd (delivered rs)))"
| "delivered (Rd_Err e # rs) = (if e = EAGAIN \<or> e = EINTR then delivered rs else ([], False))"

lemma sys_read_delivered:
  assumes "sys_read n s = (Rd_Data d, s1)" "n > 0" "d \<noteq> []"
  shows "delivered (rd s) = (d @ fst (delivered (rd s1)), snd (delivered (rd s1))) \<and> length d \<le> n"
  using assms by (auto simp: sys_read_def split: sys_splits)

lemma buffer_read_ok:
  assumes "buffer_ok b" "bused b + bleft b < bsize b"
  shows "\<exists>r b1 s1. buffer_read b s = Inr (r, b1, s1) \<and> buffer_ok b1 \<and> bused b1 = bused b \<and> bsize b1 = bsize b
    \<and> (case r of None \<Rightarrow> b1 = b \<and> delivered (rd s) = ([], False)
       | Some n \<Rightarrow>
           if n = 0 then b1 = b \<and> delivered (rd s) = ([], True)
           else \<exists>d. length d = n \<and> contents b1 = contents b @ d
             \<and> delivered (rd s) = (d @ fst (delivered (rd s1)), snd (delivered (rd s1))))"
  using assms
proof (induction b s rule: buffer_read.induct)
  case (1 b s)
  let ?t = "bused b + bleft b"
  have l: "length (cells_of b) = bsize b" "bsize b < 2 ^ 63" using 1(2) by (simp_all add: buffer_ok_def)
  have a: "size_add (bused b) (bleft b) = ?t" "size_sub (bsize b) ?t = bsize b - ?t"
    using l 1(3) by (simp_all add: object_size)
  obtain x s2 where x: "sys_read (bsize b - ?t) s = (x, s2)" by fastforce
  show ?case
  proof (cases x)
    case (Rd_Err e)
    then have e: "rd s = Rd_Err e # rd s2" using x by (auto simp: sys_read_def split: sys_splits)
    show ?thesis
    proof (cases "e = EAGAIN \<or> e = EINTR")
      case True
      have c: "buffer_read b s = buffer_read b s2"
        using x Rd_Err True by (subst buffer_read.simps) (auto simp: a Let_def)
      have dl: "delivered (rd s) = delivered (rd s2)" using e True by auto
      have "sys_read (size_sub (bsize b) (size_add (bused b) (bleft b))) s = (x, s2)" using x a by simp
      from 1(1) [OF refl this [symmetric] Rd_Err True 1(2,3)] show ?thesis by (simp only: c dl)
    next
      case False
      then have "buffer_read b s = Inr (None, b, s2)"
        using x Rd_Err by (subst buffer_read.simps) (auto simp: a Let_def)
      with e False 1(2) show ?thesis by auto
    qed
  next
    case (Rd_Data d)
    show ?thesis
    proof (cases "d = []")
      case True
      then have "buffer_read b s = Inr (Some 0, b, s2)"
        using x Rd_Data by (subst buffer_read.simps) (auto simp: a Let_def)
      moreover have "delivered (rd s) = ([], True)"
        using x Rd_Data True 1(3) by (auto simp: sys_read_def split: sys_splits)
      ultimately show ?thesis using 1(2) by auto
    next
      case False
      note dl = sys_read_delivered [OF x [unfolded Rd_Data] _ False]
      have d: "length d \<le> bsize b - ?t" using dl 1(3) by simp
      let ?p = "Some (take ?t (cells_of b) @ map Some d @ drop (?t + length d) (cells_of b))"
      let ?b = "b\<lparr>bdata := ?p, bleft := bleft b + length d\<rparr>"
      have "poke ?t (map Some d) (bdata b) = Inr ?p"
        using poke_ok [of ?t "map Some d" b] False d 1(3) l by simp
      moreover have "size_add (bleft b) (length d) = bleft b + length d" using d l 1(3) by (simp add: object_size)
      ultimately have r: "buffer_read b s = Inr (Some (length d), ?b, s2)"
        using x Rd_Data False by (subst buffer_read.simps) (auto simp: a Let_def)
      have "buffer_ok ?b \<and> contents ?b = contents b @ d"
        by (rule extend_ok [where rest = "drop (?t + length d) (cells_of b)"]) (use 1(2,3) d l in simp_all)
      with r dl 1(3) False show ?thesis by auto
    qed
  qed
qed

lemma bleft_sum: "buffer_ok b \<Longrightarrow> contents b1 = contents b @ d \<Longrightarrow> buffer_ok b1 \<Longrightarrow> bleft b1 = bleft b + length d"
  using length_contents [of b] length_contents [of b1] by simp

text \<open>Before each read there is room; a full buffer is doubled.\<close>

lemma read_room:
  assumes "buffer_ok b" "bsize b > 0" "bused b + bleft b < 2 ^ 62 - 1024"
  obtains b1 where
    "(if bsize b \<le> size_add (bused b) (bleft b) then buffer_resize (bsize b * 2 mod 2 ^ 64) b else b) = b1"
    "buffer_ok b1" "contents b1 = contents b" "bused b1 = bused b" "bleft b1 = bleft b"
    "bused b1 + bleft b1 < bsize b1"
proof (cases "bsize b \<le> bused b + bleft b")
  case True
  have l: "bused b + bleft b \<le> bsize b" using assms(1) by (simp add: buffer_ok_def)
  have m: "bsize b * 2 mod 2 ^ 64 = bsize b * 2" using True l assms(3) by (intro mod_less) simp
  have "bsize b * 2 + 1023 < 2 ^ 63" using True l assms(3) by simp
  note r = resize_ok [OF assms(1) this]
  have "bused b + bleft b < bsize b * 2" using True l assms(2) by linarith
  with r have "bused b + bleft b < bsize (buffer_resize (bsize b * 2) b)" by linarith
  with r True assms(3) show thesis by (intro that [of "buffer_resize (bsize b * 2) b"]) (simp_all add: m object_size)
next
  case False
  with assms that [OF refl] show thesis by (simp add: object_size)
qed

lemma read_all_loop_ok:
  assumes "buffer_ok b" "bsize b > 0" "bused b + bleft b + length (fst (delivered (rd s))) < 2 ^ 62 - 1024"
  shows "\<exists>b1 s1. read_all_loop b s = Inr (snd (delivered (rd s)), b1, s1) \<and> buffer_ok b1
    \<and> contents b1 = contents b @ fst (delivered (rd s)) \<and> bused b1 = bused b"
  using assms
proof (induction b s rule: read_all_loop.induct)
  case (1 b s)
  have "bused b + bleft b < 2 ^ 62 - 1024" using 1(4) by linarith
  from read_room [OF 1(2,3) this] obtain b1 where b1:
    "(if bsize b \<le> size_add (bused b) (bleft b) then buffer_resize (bsize b * 2 mod 2 ^ 64) b else b) = b1"
    "buffer_ok b1" "contents b1 = contents b" "bused b1 = bused b" "bleft b1 = bleft b"
    "bused b1 + bleft b1 < bsize b1" .
  obtain r b2 s1 where r: "buffer_read b1 s = Inr (r, b2, s1)" "buffer_ok b2" "bused b2 = bused b1" "bsize b2 = bsize b1"
    and c: "case r of None \<Rightarrow> b2 = b1 \<and> delivered (rd s) = ([], False)
       | Some n \<Rightarrow>
           if n = 0 then b2 = b1 \<and> delivered (rd s) = ([], True)
           else \<exists>d. length d = n \<and> contents b2 = contents b1 @ d
             \<and> delivered (rd s) = (d @ fst (delivered (rd s1)), snd (delivered (rd s1)))"
    using buffer_read_ok [OF b1(2,6), of s] by blast
  have step: "read_all_loop b s = (case r of None \<Rightarrow> Inr (False, b2, s1)
      | Some n \<Rightarrow> if n > 0 then read_all_loop b2 s1 else Inr (True, b2, s1))"
    by (subst read_all_loop.simps) (simp add: b1(1) r(1) Let_def split: option.split)
  show ?case
  proof (cases "r = None \<or> r = Some 0")
    case True
    with c step b1 r show ?thesis by auto
  next
    case False
    then obtain n where n: "r = Some n" "n > 0" by auto
    with c obtain d where d: "length d = n" "contents b2 = contents b1 @ d"
      "delivered (rd s) = (d @ fst (delivered (rd s1)), snd (delivered (rd s1)))" by auto
    have "bleft b2 = bleft b + n" using bleft_sum [OF b1(2) d(2) r(2)] b1 d by simp
    then have "bused b2 + bleft b2 + length (fst (delivered (rd s1))) < 2 ^ 62 - 1024" "bsize b2 > 0"
      using 1(4) b1 r d by simp_all
    with 1(1) [OF refl b1(1) [symmetric] r(1) refl n(1) refl n(2) r(2)] show ?thesis
      using step n d b1 r by simp
  qed
qed

lemma read_all_ok:
  assumes "buffer_ok b" "bused b + bleft b + length (fst (delivered (rd s))) < 2 ^ 62 - 1024"
  shows "\<exists>b1 s1. buffer_read_all b s = Inr (snd (delivered (rd s)), b1, s1) \<and> buffer_ok b1
    \<and> contents b1 = contents b @ fst (delivered (rd s)) \<and> bused b1 = bused b"
proof (cases "bsize b = 0")
  case True
  from resize_ok [OF assms(1), of 1024] True assms(2)
    read_all_loop_ok [of "buffer_resize 1024 b" s] show ?thesis by (simp add: buffer_read_all_def)
next
  case False
  with read_all_loop_ok [OF assms(1) _ assms(2)] show ?thesis by (simp add: buffer_read_all_def)
qed

lemma read_file_ok:
  assumes "buffer_ok b" "bused b + bleft b + st_size + length (fst (delivered (rd s))) < 2 ^ 62 - 1024"
  shows "\<exists>b1 s1. buffer_read_file (Inr st_size) b s = Inr (snd (delivered (rd s)), b1, s1) \<and> buffer_ok b1
    \<and> contents b1 = contents b @ fst (delivered (rd s)) \<and> bused b1 = bused b"
proof -
  have a: "size_add (bused b) (bleft b) = bused b + bleft b"
    "size_add st_size (bused b + bleft b) = st_size + (bused b + bleft b)"
    using assms(2) by (simp_all add: object_size)
  have r: "st_size + (bused b + bleft b) + 1023 < 2 ^ 63" using assms(2) by simp
  from resize_ok [OF assms(1) r] read_all_ok [of "buffer_resize (st_size + (bused b + bleft b)) b" s] assms(2)
  show ?thesis by (simp add: buffer_read_file_def Let_def a)
qed

subsection \<open>Buffers implement byte strings\<close>

text \<open>
  The contract of a data type that implements another: every operation succeeds
  while there is room, keeps the invariant, and does to the abstraction what its
  specification says. \<open>extent\<close> is the room taken and \<open>grow\<close> what an operation may take.
\<close>

primrec run_ops :: "('op \<Rightarrow> 'b \<Rightarrow> fault + 'b) \<Rightarrow> 'op list \<Rightarrow> 'b \<Rightarrow> fault + 'b" where
  "run_ops f [] b = Inr b"
| "run_ops f (x # xs) b = ebind (f x b) (run_ops f xs)"

locale data_refinement =
  fixes ok :: "'b \<Rightarrow> bool" and abstr :: "'b \<Rightarrow> 'a" and extent :: "'b \<Rightarrow> nat" and limit :: nat
    and step :: "'op \<Rightarrow> 'b \<Rightarrow> fault + 'b" and spec :: "'op \<Rightarrow> 'a \<Rightarrow> 'a" and grow :: "'op \<Rightarrow> nat"
  assumes step_refines: "ok b \<Longrightarrow> extent b + grow x < limit
    \<Longrightarrow> \<exists>b1. step x b = Inr b1 \<and> ok b1 \<and> abstr b1 = spec x (abstr b) \<and> extent b1 \<le> extent b + grow x"
begin

lemma run_refines:
  "ok b \<Longrightarrow> extent b + (\<Sum>x \<leftarrow> xs. grow x) < limit
    \<Longrightarrow> \<exists>b1. run_ops step xs b = Inr b1 \<and> ok b1 \<and> abstr b1 = fold spec xs (abstr b)"
proof (induction xs arbitrary: b)
  case (Cons x xs)
  have "extent b + grow x < limit" using Cons.prems(2) by simp
  from step_refines [OF Cons.prems(1) this] obtain b1 where
    b1: "step x b = Inr b1" "ok b1" "abstr b1 = spec x (abstr b)" "extent b1 \<le> extent b + grow x" by blast
  have "extent b1 + (\<Sum>x \<leftarrow> xs. grow x) < limit" using b1(4) Cons.prems(2) by simp
  from Cons.IH [OF b1(2) this] b1 show ?case by simp
qed simp

end

datatype buffer_op =
    Resize nat | Compact | Set bytes | Append bytes | Sprintf "bytes option" | Append_sprintf "bytes option"
  | Read_all sock | Read_file "errno + nat" sock

fun buffer_step :: "buffer_op \<Rightarrow> buffer \<Rightarrow> fault + buffer" where
  "buffer_step (Resize n) b = Inr (buffer_resize n b)"
| "buffer_step Compact b = buffer_compact b"
| "buffer_step (Set d) b = buffer_set (Some d) (length d) b"
| "buffer_step (Append d) b = buffer_append (Some d) (length d) b"
| "buffer_step (Sprintf p) b = buffer_sprintf p b"
| "buffer_step (Append_sprintf p) b = buffer_append_sprintf p b"
| "buffer_step (Read_all s) b = ebind (buffer_read_all b s) (\<lambda>(_, b1, _). Inr b1)"
| "buffer_step (Read_file st s) b = ebind (buffer_read_file st b s) (\<lambda>(_, b1, _). Inr b1)"

fun string_step :: "buffer_op \<Rightarrow> bytes \<Rightarrow> bytes" where
  "string_step (Resize n) c = c"
| "string_step Compact c = c"
| "string_step (Set d) c = d"
| "string_step (Append d) c = c @ d"
| "string_step (Sprintf p) c = (case p of None \<Rightarrow> [] | Some d \<Rightarrow> d)"
| "string_step (Append_sprintf p) c = c @ (case p of None \<Rightarrow> [] | Some d \<Rightarrow> d)"
| "string_step (Read_all s) c = c @ fst (delivered (rd s))"
| "string_step (Read_file st s) c = (case st of Inl _ \<Rightarrow> c | Inr _ \<Rightarrow> c @ fst (delivered (rd s)))"

fun op_grow :: "buffer_op \<Rightarrow> nat" where
  "op_grow (Resize n) = n"
| "op_grow Compact = 0"
| "op_grow (Set d) = length d"
| "op_grow (Append d) = length d"
| "op_grow (Sprintf p) = (case p of None \<Rightarrow> 0 | Some d \<Rightarrow> length d)"
| "op_grow (Append_sprintf p) = (case p of None \<Rightarrow> 0 | Some d \<Rightarrow> length d)"
| "op_grow (Read_all s) = length (fst (delivered (rd s)))"
| "op_grow (Read_file st s) = (case st of Inl _ \<Rightarrow> 0 | Inr n \<Rightarrow> n + length (fst (delivered (rd s))))"

lemma buffer_step_refines:
  assumes "buffer_ok b" "bused b + bleft b + op_grow x < 2 ^ 62 - 1024"
  shows "\<exists>b1. buffer_step x b = Inr b1 \<and> buffer_ok b1 \<and> contents b1 = string_step x (contents b)
    \<and> bused b1 \<le> bused b"
proof (cases x)
  case (Resize n)
  with resize_ok [OF assms(1), of n] assms(2) show ?thesis by simp
next
  case Compact
  with compact_ok [OF assms(1)] show ?thesis by auto
next
  case (Set d)
  with set_ok [OF assms(1), of d] assms(2) show ?thesis by auto
next
  case (Append d)
  with append_ok [OF assms(1), of d] assms(2) show ?thesis by auto
next
  case (Sprintf p)
  with vsprintf_ok [OF assms(1), of "the p"] clear_ok [OF assms(1)] assms(2) show ?thesis
    by (cases p) (auto simp: buffer_sprintf_def buffer_vsprintf_def [of None] buffer_append_vsprintf_def [of None])
next
  case (Append_sprintf p)
  with append_vsprintf_ok [OF assms(1), of "the p"] assms show ?thesis
    by (cases p) (auto simp: buffer_append_sprintf_def buffer_append_vsprintf_def [of None])
next
  case (Read_all s)
  with read_all_ok [OF assms(1), of s] assms(2) show ?thesis by auto
next
  case (Read_file st s)
  show ?thesis
  proof (cases st)
    case (Inl e)
    with Read_file assms(1) show ?thesis by (simp add: buffer_read_file_def)
  next
    case (Inr n)
    with Read_file read_file_ok [OF assms(1), of n s] assms(2) show ?thesis by (auto simp: add.assoc)
  qed
qed

lemma step_extent: "length (string_step x c) \<le> length c + op_grow x"
  by (cases x) (auto split: option.splits sum.splits)

interpretation bytebuf: data_refinement buffer_ok contents "\<lambda>b. bused b + bleft b" "2 ^ 62 - 1024"
  buffer_step string_step op_grow
proof
  fix b x
  assume a: "buffer_ok b" "bused b + bleft b + op_grow x < 2 ^ 62 - 1024"
  from buffer_step_refines [OF this] obtain b1 where b1: "buffer_step x b = Inr b1" "buffer_ok b1"
    "contents b1 = string_step x (contents b)" "bused b1 \<le> bused b" by blast
  have "bleft b1 \<le> bleft b + op_grow x"
    using step_extent [of x "contents b"] b1(3) length_contents [OF a(1)] length_contents [OF b1(2)] by simp
  with b1 show "\<exists>b1. buffer_step x b = Inr b1 \<and> buffer_ok b1 \<and> contents b1 = string_step x (contents b)
    \<and> bused b1 + bleft b1 \<le> bused b + bleft b + op_grow x" by auto
qed

subsection \<open>Finding a string\<close>

definition occurs_at :: "bytes \<Rightarrow> bytes \<Rightarrow> nat \<Rightarrow> bool" where
  "occurs_at p xs k \<longleftrightarrow> k + length p \<le> length xs \<and> take (length p) (drop k xs) = p"

definition first_from :: "bytes \<Rightarrow> bytes \<Rightarrow> nat \<Rightarrow> nat option \<Rightarrow> bool" where
  "first_from p xs start r \<longleftrightarrow>
     (case r of
        None \<Rightarrow> \<forall>j \<ge> start. \<not> occurs_at p xs j
      | Some k \<Rightarrow> start \<le> k \<and> occurs_at p xs k \<and> (\<forall>j. start \<le> j \<and> j < k \<longrightarrow> \<not> occurs_at p xs j))"

lemma occurs_at_hd: "occurs_at (c # cs) xs j \<Longrightarrow> j < length xs \<and> xs ! j = c"
  by (cases "drop j xs") (auto simp: occurs_at_def nth_via_drop)

lemma memchr_exact:
  "n = length xs \<Longrightarrow> \<exists>r. memchr c n (map Some xs @ ys) = Inr r
     \<and> (case r of None \<Rightarrow> c \<notin> set xs | Some k \<Rightarrow> k < length xs \<and> xs ! k = c \<and> (\<forall>j < k. xs ! j \<noteq> c))"
proof (induction xs arbitrary: n)
  case (Cons x xs)
  from Cons.IH [OF refl] obtain r where r: "memchr c (length xs) (map Some xs @ ys) = Inr r"
    "case r of None \<Rightarrow> c \<notin> set xs | Some k \<Rightarrow> k < length xs \<and> xs ! k = c \<and> (\<forall>j < k. xs ! j \<noteq> c)" by blast
  show ?case
  proof (cases "x = c")
    case False
    with r Cons.prems show ?thesis
      by (intro exI [of _ "map_option Suc r"]) (auto simp: nth_Cons split: option.splits nat.splits)
  qed (use Cons.prems in simp)
qed simp

text \<open>The search behind \<open>start\<close> when the first octet of the string was found at \<open>m\<close>, or not at all.\<close>

lemma first_from_skip:
  assumes "\<forall>j. start \<le> j \<and> j < m \<longrightarrow> \<not> occurs_at p xs j" "start \<le> m" "first_from p xs m r"
  shows "first_from p xs start r"
  using assms by (auto simp: first_from_def split: option.splits) (metis le_trans not_le)+

text \<open>The data of a buffer in its cells, from some place on.\<close>

lemma data_from:
  assumes "take left (drop used cs) = map Some xs" "length xs = left" "m \<le> left"
  shows "drop (used + m) cs = map Some (drop m xs) @ drop (used + left) cs"
proof -
  have "drop used cs = map Some xs @ drop (used + left) cs"
    using assms(1) append_take_drop_id [of left "drop used cs"] by (simp add: add.commute)
  then have "drop m (drop used cs) = drop m (map Some xs @ drop (used + left) cs)" by simp
  with assms(2,3) show ?thesis by (simp add: drop_map add.commute)
qed

lemma scan_exact:
  assumes "take left (drop used cs) = map Some xs" "length xs = left" "left < 2 ^ 63" "start \<le> left"
  obtains r where "memchr c (size_sub left start) (drop (used + start) cs) = Inr r"
    "r = None \<Longrightarrow> \<forall>j. start \<le> j \<and> j < left \<longrightarrow> xs ! j \<noteq> c"
    "\<And>k. r = Some k \<Longrightarrow> start + k < left \<and> xs ! (start + k) = c \<and> (\<forall>j. start \<le> j \<and> j < start + k \<longrightarrow> xs ! j \<noteq> c)"
proof -
  have n: "size_sub left start = length (drop start xs)" using assms(2-4) by (simp add: object_size)
  from memchr_exact [OF n, of c "drop (used + left) cs"] obtain r where
    r: "memchr c (size_sub left start) (drop (used + start) cs) = Inr r"
    and rc: "case r of None \<Rightarrow> c \<notin> set (drop start xs)
      | Some k \<Rightarrow> k < length (drop start xs) \<and> drop start xs ! k = c \<and> (\<forall>j < k. drop start xs ! j \<noteq> c)"
    unfolding data_from [OF assms(1,2,4)] by blast
  have nth: "start \<le> j \<Longrightarrow> xs ! j = drop start xs ! (j - start)" for j using assms(2,4) by simp
  show thesis
  proof (rule that [OF r])
    assume "r = None"
    then have "c \<notin> set (drop start xs)" using rc by simp
    then show "\<forall>j. start \<le> j \<and> j < left \<longrightarrow> xs ! j \<noteq> c"
      using assms(2) by (auto simp: nth simp del: nth_drop)
  next
    fix k assume "r = Some k"
    then have k: "k < length (drop start xs)" "drop start xs ! k = c" "\<forall>j < k. drop start xs ! j \<noteq> c" using rc by simp_all
    have "\<forall>j. start \<le> j \<and> j < start + k \<longrightarrow> xs ! j \<noteq> c"
    proof (intro allI impI)
      fix j assume j: "start \<le> j \<and> j < start + k"
      then have "j - start < k" by linarith
      with k(3) nth [of j] j show "xs ! j \<noteq> c" by simp
    qed
    with k(1,2) assms(2,4) show "start + k < left \<and> xs ! (start + k) = c
        \<and> (\<forall>j. start \<le> j \<and> j < start + k \<longrightarrow> xs ! j \<noteq> c)" by simp
  qed
qed

lemma find_string_loop_exact:
  assumes "take left (drop used cs) = map Some xs" "length xs = left" "used + left \<le> length cs" "left < 2 ^ 63"
    "start \<le> left" "p \<noteq> []"
  shows "\<exists>r. find_string_loop cs used left p start = Inr r \<and> first_from p xs start r"
  using assms
proof (induction cs used left p start rule: find_string_loop.induct)
  case (1 cs used left p start)
  obtain c p1 where p: "p = c # p1" using 1(7) by (cases p) auto
  obtain r where r: "memchr c (size_sub left start) (drop (used + start) cs) = Inr r"
    and none: "r = None \<longrightarrow> (\<forall>j. start \<le> j \<and> j < left \<longrightarrow> xs ! j \<noteq> c)"
    and some: "\<forall>k. r = Some k \<longrightarrow> start + k < left \<and> xs ! (start + k) = c
        \<and> (\<forall>j. start \<le> j \<and> j < start + k \<longrightarrow> xs ! j \<noteq> c)"
    by (rule scan_exact [OF 1(2,3,5,6), of c]) blast
  show ?case
  proof (cases r)
    case None
    have "first_from p xs start None" using none None 1(3) unfolding first_from_def p by (auto dest!: occurs_at_hd)
    with None r p show ?thesis by (subst find_string_loop.simps) simp
  next
    case (Some k)
    let ?m = "start + k"
    note m = some [rule_format, OF Some]
    have before: "\<forall>j. start \<le> j \<and> j < ?m \<longrightarrow> \<not> occurs_at p xs j" using m unfolding p by (blast dest: occurs_at_hd)
    have sub: "size_sub left ?m = left - ?m" using m 1(5) by (simp add: object_size)
    show ?thesis
    proof (cases "left - ?m < length p")
      case True
      then have "first_from p xs ?m None" using 1(3) by (auto simp: first_from_def occurs_at_def)
      from first_from_skip [OF before _ this] True r Some p sub show ?thesis by (subst find_string_loop.simps) simp
    next
      case False
      have pk: "peek (used + ?m) (length p) (Some cs) = Inr (map Some (take (length p) (drop ?m xs)))"
      proof -
        have "used + ?m + length p \<le> length cs" using False 1(3,4) m by linarith
        with False 1(3) m data_from [OF 1(2,3), of ?m] show ?thesis by (simp add: peek_def take_map)
      qed
      have iff: "occurs_at p xs ?m \<longleftrightarrow> map Some (take (length p) (drop ?m xs)) = map Some p"
        using False 1(3) m by (auto simp: occurs_at_def inj_map_eq_map)
      have mc: "memchr (hd (p @ [NUL])) (size_sub left start) (drop (used + start) cs) = Inr r" using r p by simp
      have step: "find_string_loop cs used left p start
          = (if occurs_at p xs ?m then Inr (Some ?m) else find_string_loop cs used left p (?m + 1))"
        unfolding iff using mc Some sub False pk by (subst find_string_loop.simps) (simp del: map_eq_conv)
      show ?thesis
      proof (cases "occurs_at p xs ?m")
        case True
        then have "first_from p xs ?m (Some ?m)" by (auto simp: first_from_def)
        from first_from_skip [OF before _ this] True step show ?thesis by simp
      next
        case F: False
        have "\<exists>r. find_string_loop cs used left p (?m + 1) = Inr r \<and> first_from p xs (?m + 1) r"
          by (rule 1(1) [OF mc Some _ pk _ F [unfolded iff] 1(2-5) _ 1(7)]) (use False sub m in auto)
        moreover have "\<forall>j. start \<le> j \<and> j < ?m + 1 \<longrightarrow> \<not> occurs_at p xs j"
          using before F by (auto simp: less_Suc_eq)
        ultimately show ?thesis using first_from_skip [of start "?m + 1" p xs] step F by auto
      qed
    qed
  qed
qed

subsection \<open>Properties\<close>

text \<open>
  C35: buffers refine byte strings: any sequence of resizing, compacting,
  setting, appending, printing and reading succeeds without leaving the memory
  of the buffer, and its contents are those of the byte string on which the same
  operations are carried out.
\<close>

theorem buffer_refines:
  assumes "buffer_ok b" "bused b + bleft b + (\<Sum>x \<leftarrow> xs. op_grow x) < 2 ^ 62 - 1024"
  shows "\<exists>b1. run_ops buffer_step xs b = Inr b1 \<and> buffer_ok b1 \<and> contents b1 = fold string_step xs (contents b)"
  using assms by (rule bytebuf.run_refines)

theorem buffer_refines_witness:
  "\<exists>b1. run_ops buffer_step [Set ''ab'', Append ''cd'', Append_sprintf (Some ''12''),
      Read_all \<lparr>sel = [], rd = [Rd_Err EINTR, Rd_Data ''xy''], wr = [], clock = [], sent = [], socket_errno = EINVAL\<rparr>] buffer_new
     = Inr b1 \<and> contents b1 = ''abcd12xy''"
proof -
  let ?xs = "[Set ''ab'', Append ''cd'', Append_sprintf (Some ''12''),
      Read_all \<lparr>sel = [], rd = [Rd_Err EINTR, Rd_Data ''xy''], wr = [], clock = [], sent = [], socket_errno = EINVAL\<rparr>]"
  have "bused buffer_new + bleft buffer_new + (\<Sum>x \<leftarrow> ?xs. op_grow x) < 2 ^ 62 - 1024"
    by (simp add: buffer_new_def)
  from buffer_refines [OF conjunct1 [OF new_ok] this] obtain b1 where
    "run_ops buffer_step ?xs buffer_new = Inr b1" "contents b1 = fold string_step ?xs (contents buffer_new)" by blast
  then show ?thesis using new_ok by (intro exI [of _ b1]) simp
qed

text \<open>
  Searching a buffer for a string gives its first occurrence at or behind
  the starting place, and none if there is none; the search stays within the data.
\<close>

theorem buffer_find_string_first:
  assumes "buffer_ok b" "start \<le> bleft b" "p \<noteq> []"
  shows "\<exists>r. buffer_find_string p start b = Inr r \<and> first_from p (contents b) start r"
proof (cases "bdata b")
  case None
  then have "bleft b = 0" using assms(1) by (simp add: buffer_ok_def cells_of_def)
  then have "\<not> occurs_at p (contents b) j" for j using assms length_contents [OF assms(1)] by (auto simp: occurs_at_def)
  with None show ?thesis by (simp add: buffer_find_string_def first_from_def)
next
  case (Some cs)
  have c: "cells_of b = cs" using Some by (simp add: cells_of_def)
  from find_string_loop_exact [of "bleft b" "bused b" cs "contents b" start p] contents_cells [OF assms(1)] assms
  show ?thesis by (simp add: buffer_find_string_def Some c buffer_ok_def)
qed

theorem buffer_find_string_first_witness:
  "\<exists>r. buffer_find_string ''bc'' 1 \<lparr>bsize = 5, bused = 0, bleft = 5, bdata = Some (map Some ''abbcx'')\<rparr> = Inr r
     \<and> first_from ''bc'' ''abbcx'' 1 r \<and> r = Some 2"
proof -
  let ?b = "\<lparr>bsize = 5, bused = 0, bleft = 5, bdata = Some (map Some ''abbcx'')\<rparr>"
  have ok: "buffer_ok ?b \<and> contents ?b = ''abbcx''"
    by (rule buffer_okI) (simp_all add: cells_of_def)
  from buffer_find_string_first [of ?b 1 "''bc''"] ok obtain r where
    r: "buffer_find_string ''bc'' 1 ?b = Inr r" "first_from ''bc'' ''abbcx'' 1 r" by auto
  have o: "occurs_at ''bc'' ''abbcx'' 2" "\<not> occurs_at ''bc'' ''abbcx'' 1" by (simp_all add: occurs_at_def)
  have "r = Some 2"
  proof (cases r)
    case None
    with r(2) o(1) show ?thesis by (auto simp: first_from_def)
  next
    case (Some k)
    with r(2) have k: "1 \<le> k" "occurs_at ''bc'' ''abbcx'' k" "\<not> 2 < k" using o(1) by (auto simp: first_from_def)
    then have "k = 1 \<or> k = 2" by linarith
    with k(2) o(2) Some show ?thesis by auto
  qed
  with r show ?thesis by auto
qed

end
