(* ===== verification/Message_Log.thy ===== *)
theory Message_Log
  imports Server_Types
begin

text \<open>
  Where messages go: \<^verbatim>\<open>src/util/messages.c\<close>, the callbacks of
  \<^verbatim>\<open>src/server/event-util.c\<close>, \<^verbatim>\<open>src/util/gss-errors.c\<close> and \<open>warn_gssapi\<close> of
  \<^verbatim>\<open>src/server/logging.c\<close>.

  The handlers in effect are the state, together with what was written to the two
  streams and to syslog. A message is given as it is formatted, None when
  \<open>vsnprintf\<close> fails. The words of the system for an error and the status
  messages of GSS-API are parameters. \<open>emit\<close> connects the log entries of the other
  theories with the functions that write them.
\<close>

subsection \<open>State\<close>

datatype priority = LOG_DEBUG | LOG_INFO | LOG_NOTICE | LOG_WARNING | LOG_ERR | LOG_CRIT

datatype message_handler = Message_log_stdout | Message_log_stderr | Message_log_syslog priority

text \<open>A list of handlers is a null pointer, one of the two static lists, or allocated.\<close>

datatype handler_list = No_handlers | Stdout_handlers | Stderr_handlers | Allocated "message_handler list"

record message_state =
  debug_handlers :: handler_list
  notice_handlers :: handler_list
  warn_handlers :: handler_list
  die_handlers :: handler_list
  message_program_name :: "string option"
  message_fatal_cleanup :: "int option"
  on_stdout :: string
  on_stderr :: string
  on_syslog :: "(priority \<times> string) list"

definition initial_messages :: message_state where
  "initial_messages =
     \<lparr>debug_handlers = No_handlers, notice_handlers = Stdout_handlers, warn_handlers = Stderr_handlers,
      die_handlers = Stderr_handlers, message_program_name = None, message_fatal_cleanup = None,
      on_stdout = [], on_stderr = [], on_syslog = []\<rparr>"

subsection \<open>Handlers\<close>

text \<open>The second component is whether the old list is freed.\<close>

definition message_handlers :: "handler_list \<Rightarrow> message_handler list \<Rightarrow> handler_list \<times> bool" where
  "message_handlers old hs = (Allocated hs, old \<noteq> Stdout_handlers \<and> old \<noteq> Stderr_handlers)"

definition message_handlers_debug :: "message_handler list \<Rightarrow> message_state \<Rightarrow> message_state" where
  "message_handlers_debug hs st = st\<lparr>debug_handlers := fst (message_handlers (debug_handlers st) hs)\<rparr>"

definition message_handlers_notice :: "message_handler list \<Rightarrow> message_state \<Rightarrow> message_state" where
  "message_handlers_notice hs st = st\<lparr>notice_handlers := fst (message_handlers (notice_handlers st) hs)\<rparr>"

definition message_handlers_warn :: "message_handler list \<Rightarrow> message_state \<Rightarrow> message_state" where
  "message_handlers_warn hs st = st\<lparr>warn_handlers := fst (message_handlers (warn_handlers st) hs)\<rparr>"

definition message_handlers_die :: "message_handler list \<Rightarrow> message_state \<Rightarrow> message_state" where
  "message_handlers_die hs st = st\<lparr>die_handlers := fst (message_handlers (die_handlers st) hs)\<rparr>"

definition message_handlers_reset :: "message_state \<Rightarrow> message_state" where
  "message_handlers_reset st =
     st\<lparr>debug_handlers := No_handlers, notice_handlers := Stdout_handlers, warn_handlers := Stderr_handlers,
        die_handlers := Stderr_handlers\<rparr>"

text \<open>A null list of handlers is dereferenced.\<close>

definition handlers_of :: "handler_list \<Rightarrow> fault + message_handler list" where
  "handlers_of l =
     (case l of
        No_handlers \<Rightarrow> Inl Undefined
      | Stdout_handlers \<Rightarrow> Inr [Message_log_stdout]
      | Stderr_handlers \<Rightarrow> Inr [Message_log_stderr]
      | Allocated hs \<Rightarrow> Inr hs)"

definition message_line :: "(errno \<Rightarrow> string) \<Rightarrow> string option \<Rightarrow> string \<Rightarrow> errno option \<Rightarrow> string" where
  "message_line strerror name text err =
     (case name of None \<Rightarrow> [] | Some n \<Rightarrow> n @ '': '') @ text
     @ (case err of None \<Rightarrow> [] | Some e \<Rightarrow> '': '' @ strerror e) @ [NL]"

definition message_log_stdout ::
  "(errno \<Rightarrow> string) \<Rightarrow> string \<Rightarrow> errno option \<Rightarrow> message_state \<Rightarrow> message_state" where
  "message_log_stdout strerror text err st =
     st\<lparr>on_stdout := on_stdout st @ message_line strerror (message_program_name st) text err\<rparr>"

definition message_log_stderr ::
  "(errno \<Rightarrow> string) \<Rightarrow> string \<Rightarrow> errno option \<Rightarrow> message_state \<Rightarrow> message_state" where
  "message_log_stderr strerror text err st =
     st\<lparr>on_stderr := on_stderr st @ message_line strerror (message_program_name st) text err\<rparr>"

definition syslog_text ::
  "(errno \<Rightarrow> string) \<Rightarrow> priority \<Rightarrow> string \<Rightarrow> errno option \<Rightarrow> message_state \<Rightarrow> message_state" where
  "syslog_text strerror pri text err st =
     st\<lparr>on_syslog := on_syslog st @ [(pri, case err of None \<Rightarrow> text | Some e \<Rightarrow> text @ '': '' @ strerror e)]\<rparr>"

text \<open>
  A handler gets the length that the message had when it was first formatted; the
  syslog handler formats it into a buffer of that length and warns when it does
  not fit. The text of that warning is constant and fits.
\<close>

definition run_plain ::
  "(errno \<Rightarrow> string) \<Rightarrow> string \<Rightarrow> errno option \<Rightarrow> message_handler \<Rightarrow> message_state \<Rightarrow> message_state" where
  "run_plain strerror text err h st =
     (case h of
        Message_log_stdout \<Rightarrow> message_log_stdout strerror text err st
      | Message_log_stderr \<Rightarrow> message_log_stderr strerror text err st
      | Message_log_syslog pri \<Rightarrow> syslog_text strerror pri text err st)"

definition message_log_syslog ::
  "(errno \<Rightarrow> string) \<Rightarrow> priority \<Rightarrow> nat \<Rightarrow> string \<Rightarrow> errno option \<Rightarrow> message_state \<Rightarrow> fault + message_state" where
  "message_log_syslog strerror pri len text err st =
     (if length text \<ge> len + 1
      then ebind (handlers_of (warn_handlers st)) (\<lambda>hs.
             Inr (fold (run_plain strerror ''failed to format output with vsnprintf in syslog handler'' None) hs st))
      else Inr (syslog_text strerror pri text err st))"

definition run_handler ::
  "(errno \<Rightarrow> string) \<Rightarrow> nat \<Rightarrow> string \<Rightarrow> errno option \<Rightarrow> message_handler \<Rightarrow> message_state \<Rightarrow> fault + message_state" where
  "run_handler strerror len text err h st =
     (case h of
        Message_log_stdout \<Rightarrow> Inr (message_log_stdout strerror text err st)
      | Message_log_stderr \<Rightarrow> Inr (message_log_stderr strerror text err st)
      | Message_log_syslog pri \<Rightarrow> message_log_syslog strerror pri len text err st)"

primrec handler_loop ::
  "(errno \<Rightarrow> string) \<Rightarrow> string \<Rightarrow> errno option \<Rightarrow> message_handler list \<Rightarrow> message_state \<Rightarrow> fault + message_state" where
  "handler_loop strerror text err [] st = Inr st"
| "handler_loop strerror text err (h # hs) st =
     ebind (run_handler strerror (length text) text err h st) (handler_loop strerror text err hs)"

definition run_handlers ::
  "(errno \<Rightarrow> string) \<Rightarrow> handler_list \<Rightarrow> string option \<Rightarrow> errno option \<Rightarrow> message_state \<Rightarrow> fault + message_state" where
  "run_handlers strerror l message err st =
     (case message of
        None \<Rightarrow> Inr st
      | Some text \<Rightarrow> ebind (handlers_of l) (\<lambda>hs. handler_loop strerror text err hs st))"

subsection \<open>Messages\<close>

definition debug_msg :: "(errno \<Rightarrow> string) \<Rightarrow> string option \<Rightarrow> message_state \<Rightarrow> fault + message_state" where
  "debug_msg strerror m st =
     (if debug_handlers st = No_handlers then Inr st else run_handlers strerror (debug_handlers st) m None st)"

definition notice_msg :: "(errno \<Rightarrow> string) \<Rightarrow> string option \<Rightarrow> message_state \<Rightarrow> fault + message_state" where
  "notice_msg strerror m st = run_handlers strerror (notice_handlers st) m None st"

definition sysnotice_msg ::
  "(errno \<Rightarrow> string) \<Rightarrow> string option \<Rightarrow> errno \<Rightarrow> message_state \<Rightarrow> fault + message_state" where
  "sysnotice_msg strerror m e st = run_handlers strerror (notice_handlers st) m (Some e) st"

definition warn_msg :: "(errno \<Rightarrow> string) \<Rightarrow> string option \<Rightarrow> message_state \<Rightarrow> fault + message_state" where
  "warn_msg strerror m st = run_handlers strerror (warn_handlers st) m None st"

definition syswarn_msg ::
  "(errno \<Rightarrow> string) \<Rightarrow> string option \<Rightarrow> errno \<Rightarrow> message_state \<Rightarrow> fault + message_state" where
  "syswarn_msg strerror m e st = run_handlers strerror (warn_handlers st) m (Some e) st"

text \<open>Dying returns the exit status.\<close>

definition exit_code :: "message_state \<Rightarrow> int" where
  "exit_code st = (case message_fatal_cleanup st of None \<Rightarrow> 1 | Some n \<Rightarrow> n)"

definition die_msg :: "(errno \<Rightarrow> string) \<Rightarrow> string option \<Rightarrow> message_state \<Rightarrow> fault + int \<times> message_state" where
  "die_msg strerror m st =
     ebind (run_handlers strerror (die_handlers st) m None st) (\<lambda>st1. Inr (exit_code st1, st1))"

definition sysdie_msg ::
  "(errno \<Rightarrow> string) \<Rightarrow> string option \<Rightarrow> errno \<Rightarrow> message_state \<Rightarrow> fault + int \<times> message_state" where
  "sysdie_msg strerror m e st =
     ebind (run_handlers strerror (die_handlers st) m (Some e) st) (\<lambda>st1. Inr (exit_code st1, st1))"

subsection \<open>Callbacks and GSS-API errors\<close>

definition server_event_log_callback ::
  "(errno \<Rightarrow> string) \<Rightarrow> int \<Rightarrow> string \<Rightarrow> message_state \<Rightarrow> fault + message_state" where
  "server_event_log_callback strerror severity message st =
     (if severity = 0 then debug_msg strerror (Some message) st
      else if severity = 1 then notice_msg strerror (Some message) st
      else warn_msg strerror (Some message) st)"

definition server_event_fatal_callback ::
  "(errno \<Rightarrow> string) \<Rightarrow> int \<Rightarrow> message_state \<Rightarrow> fault + int \<times> message_state" where
  "server_event_fatal_callback strerror err st =
     die_msg strerror (Some (''fatal libevent error ('' @ show_int err @ '')'')) st"

text \<open>The messages of a status code, of which there is at least one; True is a GSS code.\<close>

type_synonym gss_words = "bool \<Rightarrow> nat \<Rightarrow> string \<times> string list"

definition gssapi_error_string :: "gss_words \<Rightarrow> string \<Rightarrow> gss_status \<Rightarrow> string" where
  "gssapi_error_string display prefix status =
     (case status of (major, minor) \<Rightarrow>
      case display True major of (m, ms) \<Rightarrow>
        let str = foldl (\<lambda>s x. s @ '', '' @ x) (''GSS-API error '' @ prefix @ '': '' @ m) ms
        in if minor \<noteq> 0
           then (case display False minor of (m1, ms1) \<Rightarrow> foldl (\<lambda>s x. s @ '', '' @ x) str (m1 # ms1))
           else str)"

definition warn_gssapi ::
  "(errno \<Rightarrow> string) \<Rightarrow> gss_words \<Rightarrow> string \<Rightarrow> gss_status \<Rightarrow> message_state \<Rightarrow> fault + message_state" where
  "warn_gssapi strerror display prefix status st =
     warn_msg strerror (Some (gssapi_error_string display prefix status)) st"

text \<open>
  The messages of \<^verbatim>\<open>src/util/messages-krb5.c\<close>: \<open>k5\<close> is what Kerberos says of the error, None
  without a context, and \<open>message\<close> the formatted text.
\<close>

definition krb5_text :: "string \<Rightarrow> string option \<Rightarrow> string" where
  "krb5_text message k5 = (case k5 of None \<Rightarrow> message | Some m \<Rightarrow> message @ '': '' @ m)"

definition warn_krb5 :: "(errno \<Rightarrow> string) \<Rightarrow> string option \<Rightarrow> string \<Rightarrow> message_state \<Rightarrow> fault + message_state" where
  "warn_krb5 strerror k5 message st = warn_msg strerror (Some (krb5_text message k5)) st"

definition die_krb5 :: "(errno \<Rightarrow> string) \<Rightarrow> string option \<Rightarrow> string \<Rightarrow> message_state \<Rightarrow> fault + int \<times> message_state" where
  "die_krb5 strerror k5 message st = die_msg strerror (Some (krb5_text message k5)) st"

text \<open>How the server sets up its log, and the entries of the other theories as messages.\<close>

definition setup_logging :: "bool \<Rightarrow> bool \<Rightarrow> message_state \<Rightarrow> message_state" where
  "setup_logging log_stdout debug st =
     (if log_stdout then if debug then message_handlers_debug [Message_log_stdout] st else st
      else
        let st1 = message_handlers_die [Message_log_syslog LOG_ERR]
                    (message_handlers_warn [Message_log_syslog LOG_WARNING]
                      (message_handlers_notice [Message_log_syslog LOG_INFO] st))
        in if debug then message_handlers_debug [Message_log_syslog LOG_DEBUG] st1 else st1)"

definition emit ::
  "(errno \<Rightarrow> string) \<Rightarrow> gss_words \<Rightarrow> log_entry \<Rightarrow> message_state \<Rightarrow> fault + message_state" where
  "emit strerror display x st =
     (case x of
        Log Notice t \<Rightarrow> notice_msg strerror (Some t) st
      | Log Warn t \<Rightarrow> warn_msg strerror (Some t) st
      | Log_errno Notice t e \<Rightarrow> sysnotice_msg strerror (Some t) e st
      | Log_errno Warn t e \<Rightarrow> syswarn_msg strerror (Some t) e st
      | Log_gssapi _ t s \<Rightarrow> warn_gssapi strerror display t s st)"

primrec emit_all ::
  "(errno \<Rightarrow> string) \<Rightarrow> gss_words \<Rightarrow> log_entry list \<Rightarrow> message_state \<Rightarrow> fault + message_state" where
  "emit_all strerror display [] st = Inr st"
| "emit_all strerror display (x # xs) st = ebind (emit strerror display x st) (emit_all strerror display xs)"

subsection \<open>Lemmas\<close>

lemmas message_defs = message_log_stdout_def message_log_stderr_def syslog_text_def

text \<open>The message fits the buffer of each handler, and each handler in effect gets it once, in order.\<close>

lemma handler_loop_plain:
  "handler_loop strerror text err hs st = Inr (fold (run_plain strerror text err) hs st)"
  by (induction hs arbitrary: st)
     (simp_all add: run_handler_def message_log_syslog_def run_plain_def split: message_handler.split)

definition handlers_ok :: "message_state \<Rightarrow> bool" where
  "handlers_ok st \<longleftrightarrow> notice_handlers st \<noteq> No_handlers \<and> warn_handlers st \<noteq> No_handlers \<and> die_handlers st \<noteq> No_handlers"

lemma handlers_ok_simps [simp]:
  "handlers_ok initial_messages" "handlers_ok (message_handlers_reset st)"
  "handlers_ok st \<Longrightarrow> handlers_ok (message_handlers_debug hs st)"
  "handlers_ok st \<Longrightarrow> handlers_ok (message_handlers_notice hs st)"
  "handlers_ok st \<Longrightarrow> handlers_ok (message_handlers_warn hs st)"
  "handlers_ok st \<Longrightarrow> handlers_ok (message_handlers_die hs st)"
  by (simp_all add: handlers_ok_def initial_messages_def message_handlers_reset_def message_handlers_debug_def
      message_handlers_notice_def message_handlers_warn_def message_handlers_die_def message_handlers_def)

lemma run_plain_handlers [simp]:
  "notice_handlers (run_plain strerror text err h st) = notice_handlers st"
  "warn_handlers (run_plain strerror text err h st) = warn_handlers st"
  "die_handlers (run_plain strerror text err h st) = die_handlers st"
  "message_fatal_cleanup (run_plain strerror text err h st) = message_fatal_cleanup st"
  by (simp_all add: run_plain_def message_defs split: message_handler.split)

lemma fold_plain_handlers [simp]:
  "notice_handlers (fold (run_plain strerror text err) hs st) = notice_handlers st"
  "warn_handlers (fold (run_plain strerror text err) hs st) = warn_handlers st"
  "die_handlers (fold (run_plain strerror text err) hs st) = die_handlers st"
  "message_fatal_cleanup (fold (run_plain strerror text err) hs st) = message_fatal_cleanup st"
  by (induction hs arbitrary: st) simp_all

lemma run_handlers_ok:
  "l \<noteq> No_handlers \<Longrightarrow> \<exists>st1. run_handlers strerror l m err st = Inr st1 \<and> notice_handlers st1 = notice_handlers st
     \<and> warn_handlers st1 = warn_handlers st \<and> die_handlers st1 = die_handlers st"
  by (auto simp: run_handlers_def handlers_of_def handler_loop_plain split: option.split handler_list.split)

text \<open>With the handlers that the setters leave, no message dereferences a null list.\<close>

lemma emit_all_ok: "handlers_ok st \<Longrightarrow> \<exists>st1. emit_all strerror display es st = Inr st1 \<and> handlers_ok st1"
proof (induction es arbitrary: st)
  case (Cons x es)
  have "\<exists>st1. emit strerror display x st = Inr st1 \<and> handlers_ok st1"
    using Cons.prems run_handlers_ok [of "notice_handlers st" strerror _ _ st] run_handlers_ok [of "warn_handlers st" strerror _ _ st]
    by (cases x; cases "case x of Log l _ \<Rightarrow> l | Log_errno l _ _ \<Rightarrow> l | Log_gssapi l _ _ \<Rightarrow> l")
       (fastforce simp: emit_def handlers_ok_def notice_msg_def warn_msg_def sysnotice_msg_def syswarn_msg_def warn_gssapi_def)+
  then show ?case using Cons.IH by fastforce
qed simp

text \<open>What the server logs to syslog: one line for each entry, with the priority of its level.\<close>

primrec syslog_of :: "(errno \<Rightarrow> string) \<Rightarrow> gss_words \<Rightarrow> log_entry \<Rightarrow> priority \<times> string" where
  "syslog_of strerror display (Log l t) = (if l = Notice then LOG_INFO else LOG_WARNING, t)"
| "syslog_of strerror display (Log_errno l t e) = (if l = Notice then LOG_INFO else LOG_WARNING, t @ '': '' @ strerror e)"
| "syslog_of strerror display (Log_gssapi l t s) = (LOG_WARNING, gssapi_error_string display t s)"

lemma emit_syslog:
  assumes "notice_handlers st = Allocated [Message_log_syslog LOG_INFO]" "warn_handlers st = Allocated [Message_log_syslog LOG_WARNING]"
  shows "emit strerror display x st = Inr (st\<lparr>on_syslog := on_syslog st @ [syslog_of strerror display x]\<rparr>)"
  using assms
  by (cases x; cases "case x of Log l _ \<Rightarrow> l | Log_errno l _ _ \<Rightarrow> l | Log_gssapi l _ _ \<Rightarrow> l")
     (simp_all add: emit_def notice_msg_def warn_msg_def sysnotice_msg_def syswarn_msg_def warn_gssapi_def
       run_handlers_def handlers_of_def handler_loop_plain run_plain_def syslog_text_def)

lemma emit_all_syslog:
  "notice_handlers st = Allocated [Message_log_syslog LOG_INFO] \<Longrightarrow> warn_handlers st = Allocated [Message_log_syslog LOG_WARNING]
    \<Longrightarrow> emit_all strerror display es st = Inr (st\<lparr>on_syslog := on_syslog st @ map (syslog_of strerror display) es\<rparr>)"
  by (induction es arbitrary: st) (simp_all add: emit_syslog)

lemma server_logs_to_syslog:
  "emit_all strerror display es (setup_logging False debug st)
     = Inr ((setup_logging False debug st)\<lparr>on_syslog := on_syslog st @ map (syslog_of strerror display) es\<rparr>)"
  by (subst emit_all_syslog)
     (simp_all add: setup_logging_def message_handlers_die_def message_handlers_warn_def message_handlers_notice_def
       message_handlers_debug_def message_handlers_def Let_def)

end
