(* ===== verification/Writev.thy ===== *)
theory Writev
  imports Sockets
begin

text \<open>
  Gathered writing: \<open>xwritev\<close> of \<^verbatim>\<open>src/util/xwrite.c\<close>. An \<open>iovec\<close> is the list
  of octets it points at, and \<open>writev\<close> writes the concatenation of an array as
  \<open>write\<close> does. Reading an element behind the end of an array is undefined. As
  for \<open>xwrite\<close>, the result is whether everything was written.

  Writing at an offset: \<open>xpwrite\<close>, on a file with its contents and a script of what \<open>pwrite\<close> accepts.
\<close>

subsection \<open>Operations\<close>

text \<open>The first attempts; the result is the status, with None for -1, and the count.\<close>

function writev_first :: "bytes \<Rightarrow> nat option \<Rightarrow> nat \<Rightarrow> ('z) sock_scheme \<Rightarrow> (nat option \<times> nat) \<times> ('z) sock_scheme" where
  "writev_first buf status count s =
     (if Suc count > 10 then ((status, Suc count), s)
      else (case sys_write buf s of
              (Some n, s1) \<Rightarrow> ((Some n, if n > 0 then 0 else Suc count), s1)
            | (None, s1) \<Rightarrow>
                if socket_errno s1 = EINTR then writev_first buf None (Suc count) s1
                else ((None, Suc count), s1)))"
  by pat_completeness auto
termination
  by (relation "measure (\<lambda>(buf, status, count, s). length (wr s))") (auto dest: sys_write_None)

text \<open>Skip what has been written: the rest of the array and the offset into its first element.\<close>

fun skip_written :: "nat \<Rightarrow> bytes list \<Rightarrow> fault + nat \<times> bytes list" where
  "skip_written offset [] = Inl Undefined"
| "skip_written offset (v # vs) =
     (if offset \<ge> length v then skip_written (offset - length v) vs else Inr (offset, v # vs))"

function writev_loop ::
  "bytes list \<Rightarrow> nat \<Rightarrow> nat \<Rightarrow> nat \<Rightarrow> ('z) sock_scheme \<Rightarrow> fault + bool \<times> ('z) sock_scheme" where
  "writev_loop tmpiov offset left count s =
     (if Suc count > 10 then Inr (left = 0, s)
      else (case skip_written offset tmpiov of
              Inl e \<Rightarrow> Inl e
            | Inr (k, vs) \<Rightarrow>
                let tmp = drop k (hd vs) # tl vs
                in case sys_write (concat tmp) s of
                     (None, s1) \<Rightarrow>
                       if left > 0 \<and> socket_errno s1 = EINTR then writev_loop tmp 0 left (Suc count) s1
                       else Inr (left = 0, s1)
                   | (Some n, s1) \<Rightarrow>
                       let left1 = (if n = 0 then left else left - n);
                           count1 = (if n = 0 then Suc count else 0)
                       in if left1 > 0 then writev_loop tmp n left1 count1 s1
                          else Inr (left1 = 0, s1)))"
  by pat_completeness auto
termination
  by (relation "measure (\<lambda>(tmpiov, offset, left, count, s). length (wr s))")
     (auto dest!: sys_write_Some sys_write_None)

declare writev_first.simps [simp del] writev_loop.simps [simp del]

definition xwritev :: "bytes list \<Rightarrow> ('z) sock_scheme \<Rightarrow> fault + bool \<times> ('z) sock_scheme" where
  "xwritev iov s =
     (if length iov = 0 then Inr (True, s)
      else if length iov > SIZE_MAX div 16 then Inr (False, s\<lparr>socket_errno := EINVAL\<rparr>)
      else
        let total = sum_list (map length iov)
        in if total = 0 then Inr (True, s)
           else case writev_first (concat iov) (Some 0) 0 s of
                  ((None, _), s1) \<Rightarrow> Inr (False, s1)
                | ((Some n, count), s1) \<Rightarrow>
                    if n = total then Inr (True, s1)
                    else ebind (skip_written n iov) (\<lambda>(offset, tmpiov). writev_loop tmpiov offset (total - n) count s1))"

subsection \<open>Equivalence with \<open>xwrite\<close>\<close>

lemma skip_written_rest:
  "offset < length (concat vs) \<Longrightarrow>
     \<exists>k v ws. skip_written offset vs = Inr (k, v # ws) \<and> k < length v \<and> drop k v @ concat ws = drop offset (concat vs)"
  by (induction offset vs rule: skip_written.induct) auto

lemma writev_loop_xwrite:
  "drop offset (concat tmp) = rest \<Longrightarrow> rest \<noteq> [] \<Longrightarrow> left = length rest
    \<Longrightarrow> writev_loop tmp offset left count s = Inr (xwrite_loop rest count s)"
proof (induction rest count s arbitrary: tmp offset left rule: xwrite_loop.induct)
  case (1 rest count s)
  have "offset < length (concat tmp)" using 1(4,5) by (metis drop_all not_le)
  then obtain k v ws where k: "skip_written offset tmp = Inr (k, v # ws)" "drop k v @ concat ws = rest"
    using skip_written_rest 1(4) by blast
  let ?tmp = "drop k v # ws"
  have tmp: "concat ?tmp = rest" using k(2) by simp
  show ?case
  proof (cases "Suc count > 10")
    case True
    with 1(4-6) show ?thesis by (simp add: writev_loop.simps xwrite_loop.simps [of rest count])
  next
    case count: False
    obtain r s1 where w: "sys_write rest s = (r, s1)" by fastforce
    show ?thesis
    proof (cases r)
      case None
      show ?thesis
      proof (cases "socket_errno s1 = EINTR")
        case True
        have "writev_loop ?tmp 0 left (Suc count) s1 = Inr (xwrite_loop rest (Suc count) s1)"
          by (rule 1(1) [OF 1(5) count w [symmetric] None]) (use True 1(5,6) k(2) in simp_all)
        then show ?thesis using count 1(5,6) k(1) w None True tmp
          by (simp add: writev_loop.simps [of tmp] xwrite_loop.simps [of rest count] Let_def)
      next
        case False
        then show ?thesis using count 1(5,6) k(1) w None tmp
          by (simp add: writev_loop.simps [of tmp] xwrite_loop.simps [of rest count] Let_def)
      qed
    next
      case (Some n)
      have n: "n \<le> length rest" using sys_write_Some [of n s1 rest s] w Some by simp
      consider "n = 0" | "0 < n" "n < length rest" | "0 < n" "n = length rest" using n by linarith
      then show ?thesis
      proof cases
        case zero: 1
        have "writev_loop ?tmp 0 left (Suc count) s1 = Inr (xwrite_loop rest (Suc count) s1)"
          by (rule 1(3) [OF 1(5) count w [symmetric] Some]) (use zero 1(5,6) k(2) in simp_all)
        then show ?thesis using count 1(5,6) k(1) w Some zero tmp
          by (simp add: writev_loop.simps [of tmp] xwrite_loop.simps [of rest count] Let_def)
      next
        case part: 2
        have "writev_loop ?tmp n (left - n) 0 s1 = Inr (xwrite_loop (drop n rest) 0 s1)"
          by (rule 1(2) [OF 1(5) count w [symmetric] Some]) (use part 1(5,6) tmp in simp_all)
        then show ?thesis using count 1(5,6) k(1) w Some part tmp
          by (simp add: writev_loop.simps [of tmp] xwrite_loop.simps [of rest count] Let_def)
      next
        case all: 3
        then show ?thesis using count 1(5,6) k(1) w Some tmp
          by (simp add: writev_loop.simps [of tmp] xwrite_loop.simps [of rest count] xwrite_loop.simps [of "[]"] Let_def)
      qed
    qed
  qed
qed

text \<open>The first attempts are those of \<open>xwrite\<close>.\<close>

lemma writev_first_xwrite:
  assumes "buf \<noteq> []" "count < 10 \<or> status = None"
  shows "xwrite_loop buf count s
    = (case writev_first buf status count s of
         ((None, _), s1) \<Rightarrow> (False, s1)
       | ((Some n, c), s1) \<Rightarrow> xwrite_loop (drop n buf) c s1)
    \<and> (\<forall>n c s1. writev_first buf status count s = ((Some n, c), s1) \<longrightarrow> n \<le> length buf)"
  using assms
proof (induction buf status count s rule: writev_first.induct)
  case (1 buf status count s)
  obtain r s1 where w: "sys_write buf s = (r, s1)" by fastforce
  show ?case
  proof (cases "Suc count > 10")
    case True
    with 1(2,3) show ?thesis by (simp add: writev_first.simps xwrite_loop.simps [of buf count])
  next
    case count: False
    show ?thesis
    proof (cases r)
      case None
      show ?thesis
      proof (cases "socket_errno s1 = EINTR")
        case True
        from 1(1) [OF count _ _ True 1(2), of None] w None
        show ?thesis using count True w None 1(2)
          by (simp add: writev_first.simps [of buf status count] xwrite_loop.simps [of buf count])
      next
        case False
        with count w None 1(2) show ?thesis
          by (simp add: writev_first.simps [of buf status count] xwrite_loop.simps [of buf count])
      qed
    next
      case (Some n)
      have "n \<le> length buf" using sys_write_Some [of n s1 buf s] w Some by simp
      with count w Some 1(2) show ?thesis
        by (simp add: writev_first.simps [of buf status count] xwrite_loop.simps [of buf count])
    qed
  qed
qed

text \<open>Gathered writing does what writing the concatenation does, with the same calls.\<close>

theorem xwritev_xwrite:
  assumes "length iov \<le> SIZE_MAX div 16"
  shows "xwritev iov s = Inr (xwrite (concat iov) s)"
proof -
  have total: "sum_list (map length iov) = length (concat iov)" by (simp add: length_concat)
  show ?thesis
  proof (cases "concat iov = []")
    case True
    then have "sum_list (map length iov) = 0" unfolding total by simp
    with True assms show ?thesis by (simp add: xwritev_def xwrite_def)
  next
    case False
    obtain st c s1 where f: "writev_first (concat iov) (Some 0) 0 s = ((st, c), s1)" by (metis prod.exhaust)
    note x = writev_first_xwrite [OF False, of 0 "Some 0" s, simplified f]
    have ne: "iov \<noteq> []" "sum_list (map length iov) \<noteq> 0" using False unfolding total by auto
    show ?thesis
    proof (cases st)
      case None
      with x f ne assms False show ?thesis by (simp add: xwritev_def xwrite_def del: concat_eq_Nil_conv sum_list_eq_0_iff)
    next
      case (Some n)
      show ?thesis
      proof (cases "n = length (concat iov)")
        case True
        with Some x f ne assms False show ?thesis
          by (simp add: xwritev_def xwrite_def total xwrite_loop.simps [of "[]"] del: concat_eq_Nil_conv sum_list_eq_0_iff length_concat)
      next
        case part: False
        with x Some have n: "n < length (concat iov)" by simp
        from skip_written_rest [OF n] obtain k v ws where
          k: "skip_written n iov = Inr (k, v # ws)" "k < length v" "drop k v @ concat ws = drop n (concat iov)" by blast
        have "writev_loop (v # ws) k (length (concat iov) - n) c s1 = Inr (xwrite_loop (drop n (concat iov)) c s1)"
          by (rule writev_loop_xwrite) (use k n in auto)
        with Some part x f ne assms False k show ?thesis
          by (simp add: xwritev_def xwrite_def total del: concat_eq_Nil_conv sum_list_eq_0_iff length_concat)
      qed
    qed
  qed
qed

subsection \<open>Writing at an offset\<close>

record pfile =
  pwr :: "wr_result list"
  disk :: bytes

text \<open>The octets between the end of the file and the offset are nul octets.\<close>

definition overwrite :: "nat \<Rightarrow> bytes \<Rightarrow> bytes \<Rightarrow> bytes" where
  "overwrite off bs d =
     (if bs = [] then d else take off (d @ replicate (off - length d) NUL) @ bs @ drop (off + length bs) d)"

definition pwrite :: "bytes \<Rightarrow> nat \<Rightarrow> pfile \<Rightarrow> (errno + nat) \<times> pfile" where
  "pwrite bs off f =
     (case pwr f of
        [] \<Rightarrow> (Inl EPIPE, f)
      | Wr_Err e # r \<Rightarrow> (Inl e, f\<lparr>pwr := r\<rparr>)
      | Wr_Room k # r \<Rightarrow> (Inr (min k (length bs)), f\<lparr>pwr := r, disk := overwrite off (take k bs) (disk f)\<rparr>))"

function xpwrite_loop :: "bytes \<Rightarrow> nat \<Rightarrow> nat \<Rightarrow> nat \<Rightarrow> pfile \<Rightarrow> bool \<times> pfile" where
  "xpwrite_loop buffer written count off f =
     (if \<not> written < length buffer then (True, f)
      else if Suc count > 10 then (False, f)
      else (case pwrite (drop written buffer) (off + written) f of
              (Inr n, f1) \<Rightarrow> xpwrite_loop buffer (written + n) (if n > 0 then 0 else Suc count) off f1
            | (Inl e, f1) \<Rightarrow>
                if e \<noteq> EINTR then (False, f1) else xpwrite_loop buffer written (Suc count) off f1))"
  by pat_completeness auto
termination
  by (relation "measure (\<lambda>(buffer, written, count, off, f). length (pwr f))")
     (auto simp: pwrite_def split: list.split_asm wr_result.split_asm)

declare xpwrite_loop.simps [simp del]

definition xpwrite :: "bytes \<Rightarrow> nat \<Rightarrow> pfile \<Rightarrow> bool \<times> pfile" where
  "xpwrite buffer off f = (if buffer = [] then (True, f) else xpwrite_loop buffer 0 0 off f)"

lemma length_overwrite: "bs \<noteq> [] \<Longrightarrow> length (overwrite off bs d) = max (length d) (off + length bs)"
  by (simp add: overwrite_def)

lemma nth_overwrite:
  assumes "bs \<noteq> []" "i < length (overwrite off bs d)"
  shows "overwrite off bs d ! i =
    (if off \<le> i \<and> i < off + length bs then bs ! (i - off) else if i < length d then d ! i else NUL)"
  using assms by (auto simp: length_overwrite) (auto simp: overwrite_def nth_append min_def)

lemma overwrite_append: "overwrite (off + length a) b (overwrite off a d) = overwrite off (a @ b) d"
proof (cases "a = [] \<or> b = []")
  case True
  then show ?thesis by (auto simp: overwrite_def)
next
  case False
  then have ne: "a \<noteq> []" "b \<noteq> []" "a @ b \<noteq> []" by auto
  show ?thesis
  proof (rule nth_equalityI)
    show l: "length (overwrite (off + length a) b (overwrite off a d)) = length (overwrite off (a @ b) d)"
      using ne by (simp add: length_overwrite)
    fix i assume "i < length (overwrite (off + length a) b (overwrite off a d))"
    then show "overwrite (off + length a) b (overwrite off a d) ! i = overwrite off (a @ b) d ! i"
      using ne l by (auto simp: nth_overwrite length_overwrite nth_append)
  qed
qed

text \<open>A successful call has written the whole buffer at its place; a failed one a prefix of it.\<close>

lemma xpwrite_loop_result:
  assumes "xpwrite_loop buffer written count off f = (ok, f1)" "written \<le> length buffer" "disk f = overwrite off (take written buffer) d"
  shows "\<exists>n \<le> length buffer. disk f1 = overwrite off (take n buffer) d \<and> (ok \<longrightarrow> n = length buffer)"
  using assms
proof (induction buffer written count off f rule: xpwrite_loop.induct)
  case (1 buffer written count off f)
  note step = "1.prems"(1) [unfolded xpwrite_loop.simps [of buffer written count off f]]
  show ?case
  proof (cases "written < length buffer \<and> \<not> Suc count > 10")
    case False
    then show ?thesis using step "1.prems"(2,3) by (auto split: if_splits)
  next
    case True
    obtain w f2 where w: "pwrite (drop written buffer) (off + written) f = (w, f2)" by fastforce
    show ?thesis
    proof (cases w)
      case (Inl e)
      then have "disk f2 = disk f" using w by (auto simp: pwrite_def split: list.splits wr_result.splits)
      then show ?thesis using step w Inl True "1.prems"(2,3) "1.IH"(1) [OF _ _ w [symmetric] Inl]
        by (cases "e = EINTR") (auto intro!: exI [of _ written])
    next
      case (Inr n)
      then have n: "n \<le> length buffer - written" "disk f2 = overwrite (off + written) (take n (drop written buffer)) (disk f)"
        using w by (auto simp: pwrite_def min_def split: list.splits wr_result.splits)
      have le: "written + n \<le> length buffer" using n(1) True by linarith
      have "disk f2 = overwrite off (take (written + n) buffer) d"
        using overwrite_append [of off "take written buffer" "take n (drop written buffer)" d] n(2) "1.prems"(2,3)
        by (simp add: take_add)
      then show ?thesis using step w Inr True le "1.IH"(2) [OF _ _ w [symmetric] Inr] by simp
    qed
  qed
qed

lemma xpwrite_result:
  assumes "xpwrite buffer off f = (ok, f1)"
  shows "\<exists>n \<le> length buffer. disk f1 = overwrite off (take n buffer) (disk f) \<and> (ok \<longrightarrow> n = length buffer)"
proof (cases "buffer = []")
  case True
  then show ?thesis using assms by (auto simp: xpwrite_def overwrite_def)
next
  case False
  then show ?thesis using assms xpwrite_loop_result [of buffer 0 0 off f ok f1 "disk f"]
    by (auto simp: xpwrite_def overwrite_def)
qed

end
