(* ===== verification/Allocation.thy ===== *)
theory Allocation
  imports Buffer
begin

text \<open>
  Allocation: \<^verbatim>\<open>src/util/xmalloc.c\<close> and the replacements \<^verbatim>\<open>src/portable/reallocarray.c\<close>,
  \<^verbatim>\<open>strndup.c\<close>, \<^verbatim>\<open>asprintf.c\<close> and \<^verbatim>\<open>setenv.c\<close>.

  The allocator of the C library is a parameter: \<open>ok i n\<close> tells whether the
  \<open>i\<close>-th call, for \<open>n\<close> octets, succeeds. A block is the list of its cells, as in
  \<open>Buffer\<close>. The wrappers call an error handler until an allocation succeeds;
  the handler ends the program or returns, and with one that returns the loop may
  run for ever. So they are partial functions: the value \<open>None\<close> is a loop
  that does not end. Their second result is the number of calls made so far.

  The main result is what the rest of the development assumes of memory: a
  wrapper that returns has allocated exactly the block its caller asked for,
  and it returns as soon as the allocator grants it one.
\<close>

subsection \<open>The wrappers\<close>

type_synonym allocator = "nat \<Rightarrow> nat \<Rightarrow> bool"

text \<open>The handler gets the function, the size, the file and the line; \<open>None\<close> says that it returns.\<close>

type_synonym xmalloc_handler_type = "string \<Rightarrow> nat \<Rightarrow> string \<Rightarrow> nat \<Rightarrow> fault option"

definition xmalloc_fail :: xmalloc_handler_type where
  "xmalloc_fail f n path line_no =
     Some (Died (if n = 0
                 then ''failed to format output with '' @ f @ '' at '' @ path @ '' line '' @ show_nat line_no
                 else ''failed to '' @ f @ '' '' @ show_nat n @ '' bytes at '' @ path @ '' line '' @ show_nat line_no))"

text \<open>The loop all of them have: an attempt, and while it fails the handler and the next attempt.\<close>

partial_function (option) retry :: "(nat \<Rightarrow> bool) \<Rightarrow> fault option \<Rightarrow> nat \<Rightarrow> (fault + nat) option" where
  [code]: "retry granted h i =
     (if granted i then Some (Inr (Suc i))
      else case h of Some e \<Rightarrow> Some (Inl e) | None \<Rightarrow> retry granted h (Suc i))"

definition with_block :: "'b \<Rightarrow> (fault + nat) option \<Rightarrow> (fault + 'b \<times> nat) option" where
  "with_block b r = map_option (map_sum id (\<lambda>i. (b, i))) r"

definition x_malloc ::
  "allocator \<Rightarrow> xmalloc_handler_type \<Rightarrow> nat \<Rightarrow> string \<Rightarrow> nat \<Rightarrow> nat \<Rightarrow> (fault + cells \<times> nat) option" where
  "x_malloc ok h sz path line_no i =
     (let real_size = (if sz > 0 then sz else 1)
      in with_block (replicate real_size None)
           (retry (\<lambda>k. ok k real_size) (h ''malloc'' sz path line_no) i))"

text \<open>\<open>calloc\<close> fails when the product does not fit; the handler is told the product as it wraps.\<close>

definition x_calloc ::
  "allocator \<Rightarrow> xmalloc_handler_type \<Rightarrow> nat \<Rightarrow> nat \<Rightarrow> string \<Rightarrow> nat \<Rightarrow> nat \<Rightarrow> (fault + cells \<times> nat) option" where
  "x_calloc ok h n sz path line_no i =
     (let n1 = (if n > 0 then n else 1); size1 = (if sz > 0 then sz else 1)
      in with_block (replicate (n1 * size1) (Some NUL))
           (retry (\<lambda>k. n1 * size1 \<le> SIZE_MAX \<and> ok k (n1 * size1))
              (h ''calloc'' (n1 * size1 mod 2 ^ 64) path line_no) i))"

text \<open>\<open>realloc\<close> of the C library: a failed call returns no block and leaves the old one.\<close>

definition realloc :: "allocator \<Rightarrow> cells option \<Rightarrow> nat \<Rightarrow> nat \<Rightarrow> cells option" where
  "realloc ok p sz i = (if ok i sz then xrealloc p sz else None)"

definition x_realloc ::
  "allocator \<Rightarrow> xmalloc_handler_type \<Rightarrow> cells option \<Rightarrow> nat \<Rightarrow> string \<Rightarrow> nat \<Rightarrow> nat
     \<Rightarrow> (fault + cells option \<times> nat) option" where
  "x_realloc ok h p sz path line_no i =
     (if sz = 0 then Some (Inr (realloc ok p sz i, Suc i))
      else with_block (xrealloc p sz)
             (retry (\<lambda>k. realloc ok p sz k \<noteq> None) (h ''realloc'' sz path line_no) i))"

subsection \<open>Arrays\<close>

definition CHECK_THRESHOLD :: nat where "CHECK_THRESHOLD = 2 ^ 32"

text \<open>The size \<open>reallocarray\<close> asks for, if it asks.\<close>

definition array_size :: "nat \<Rightarrow> nat \<Rightarrow> nat option" where
  "array_size nmemb sz =
     (if (nmemb \<ge> CHECK_THRESHOLD \<or> sz \<ge> CHECK_THRESHOLD) \<and> nmemb > 0 \<and> SIZE_MAX div nmemb \<le> sz
      then None
      else if nmemb = 0 \<or> sz = 0 then Some 1
      else Some (nmemb * sz mod 2 ^ 64))"

definition reallocarray :: "allocator \<Rightarrow> cells option \<Rightarrow> nat \<Rightarrow> nat \<Rightarrow> nat \<Rightarrow> cells option" where
  "reallocarray ok p nmemb sz i =
     (case array_size nmemb sz of None \<Rightarrow> None | Some n \<Rightarrow> realloc ok p n i)"

definition x_reallocarray ::
  "allocator \<Rightarrow> xmalloc_handler_type \<Rightarrow> cells option \<Rightarrow> nat \<Rightarrow> nat \<Rightarrow> string \<Rightarrow> nat \<Rightarrow> nat
     \<Rightarrow> (fault + cells option \<times> nat) option" where
  "x_reallocarray ok h p n sz path line_no i =
     (if sz = 0 \<or> n = 0 then Some (Inr (reallocarray ok p n sz i, Suc i))
      else with_block (case array_size n sz of None \<Rightarrow> None | Some m \<Rightarrow> xrealloc p m)
             (retry (\<lambda>k. reallocarray ok p n sz k \<noteq> None)
                (h ''reallocarray'' (n * sz mod 2 ^ 64) path line_no) i))"

subsection \<open>Strings\<close>

text \<open>A string is the octets of its object; \<open>strlen\<close> and the copy of a whole string need its nul.\<close>

definition x_strdup ::
  "allocator \<Rightarrow> xmalloc_handler_type \<Rightarrow> string \<Rightarrow> string \<Rightarrow> nat \<Rightarrow> nat \<Rightarrow> (fault + cells \<times> nat) option" where
  "x_strdup ok h s path line_no i =
     (let len = length s + 1
      in with_block (map Some (s @ [NUL])) (retry (\<lambda>k. ok k len) (h ''strdup'' len path line_no) i))"

text \<open>The loop over at most \<open>sz\<close> octets of an object that need not have a nul.\<close>

function strn_scan :: "bytes \<Rightarrow> nat \<Rightarrow> nat \<Rightarrow> fault + nat" where
  "strn_scan s sz p =
     (if p < sz
      then if p < length s then if s ! p \<noteq> NUL then strn_scan s sz (Suc p) else Inr p else Inl Undefined
      else Inr p)"
  by pat_completeness auto
termination
  by (relation "measure (\<lambda>(s, sz, p). sz - p)") auto

declare strn_scan.simps [simp del]

definition x_strndup_block ::
  "allocator \<Rightarrow> xmalloc_handler_type \<Rightarrow> bytes \<Rightarrow> nat \<Rightarrow> string \<Rightarrow> nat \<Rightarrow> nat \<Rightarrow> (fault + cells \<times> nat) option" where
  "x_strndup_block ok h s sz path line_no i =
     (case strn_scan s sz 0 of
        Inl e \<Rightarrow> Some (Inl e)
      | Inr len \<Rightarrow>
          with_block (map Some (take len s @ [NUL]))
            (retry (\<lambda>k. ok k (len + 1)) (h ''strndup'' (len + 1) path line_no) i))"

text \<open>The replacement for \<open>strndup\<close>, which reports failures instead.\<close>

definition strndup_portable :: "allocator \<Rightarrow> bytes option \<Rightarrow> nat \<Rightarrow> nat \<Rightarrow> fault + errno + cells" where
  "strndup_portable ok s n i =
     (case s of
        None \<Rightarrow> Inr (Inl EINVAL)
      | Some bs \<Rightarrow>
          ebind (strn_scan bs n 0) (\<lambda>len.
            Inr (if ok i (len + 1) then Inr (map Some (take len bs @ [NUL])) else Inl ENOMEM)))"

subsection \<open>Formatted output\<close>

text \<open>
  What a format and its arguments print is given, with \<open>None\<close> for a format that
  \<open>vsnprintf\<close> cannot print. The result of \<open>vasprintf\<close> is its status and the block
  it stores. \<open>vsnprintf\<close> returns an \<open>int\<close>, so texts are shorter than \<open>INT_MAX\<close>, or it fails.
\<close>

definition INT_MAX :: nat where "INT_MAX = 2 ^ 31 - 1"

definition vsnprintf_len :: "string option \<Rightarrow> int" where
  "vsnprintf_len text = (case text of None \<Rightarrow> -1 | Some t \<Rightarrow> if length t > INT_MAX then -1 else int (length t))"

definition vasprintf :: "allocator \<Rightarrow> string option \<Rightarrow> nat \<Rightarrow> fault + int \<times> cells option" where
  "vasprintf ok text i =
     (let needed = vsnprintf_len text
      in if needed < 0 then Inr (needed, None)
         else if needed = int INT_MAX then Inl Undefined
         else if \<not> ok i (nat needed + 1) then Inr (-1, None)
         else Inr (needed, Some (map Some (the text @ [NUL]))))"

definition asprintf :: "allocator \<Rightarrow> string option \<Rightarrow> nat \<Rightarrow> fault + int \<times> cells option" where
  "asprintf ok text i = vasprintf ok text i"

text \<open>The size reported to the handler: the octets needed, or 0 when the format itself failed.\<close>

definition format_size :: "string option \<Rightarrow> nat" where
  "format_size text = (if vsnprintf_len text < 0 then 0 else nat (vsnprintf_len text + 1))"

definition x_format ::
  "allocator \<Rightarrow> xmalloc_handler_type \<Rightarrow> string \<Rightarrow> string option \<Rightarrow> string \<Rightarrow> nat \<Rightarrow> nat
     \<Rightarrow> (fault + cells \<times> nat) option" where
  "x_format ok h name text path line_no i =
     (if vsnprintf_len text = int INT_MAX then Some (Inl Undefined)
      else with_block (map Some (the text @ [NUL]))
             (retry (\<lambda>k. case vasprintf ok text k of Inr (st, _) \<Rightarrow> 0 \<le> st | Inl _ \<Rightarrow> False)
                (h name (format_size text) path line_no) i))"

definition x_vasprintf ::
  "allocator \<Rightarrow> xmalloc_handler_type \<Rightarrow> string option \<Rightarrow> string \<Rightarrow> nat \<Rightarrow> nat \<Rightarrow> (fault + cells \<times> nat) option" where
  "x_vasprintf ok h = x_format ok h ''vasprintf''"

definition x_asprintf ::
  "allocator \<Rightarrow> xmalloc_handler_type \<Rightarrow> string option \<Rightarrow> string \<Rightarrow> nat \<Rightarrow> nat \<Rightarrow> (fault + cells \<times> nat) option" where
  "x_asprintf ok h = x_format ok h ''asprintf''"

subsection \<open>The environment of the process\<close>

text \<open>\<open>putenv\<close> of the C library: the string up to its first \<open>=\<close> is the name.\<close>

definition putenv :: "string \<Rightarrow> (string \<rightharpoonup> string) \<Rightarrow> (string \<rightharpoonup> string)" where
  "putenv s env =
     (case strchr s (CHR ''='') of
        None \<Rightarrow> env(s := None)
      | Some t \<Rightarrow> env(take (length s - length t) s \<mapsto> tl t))"

definition setenv ::
  "allocator \<Rightarrow> string \<Rightarrow> string \<Rightarrow> bool \<Rightarrow> (string \<rightharpoonup> string) \<Rightarrow> nat \<Rightarrow> fault + int \<times> (string \<rightharpoonup> string)" where
  "setenv ok name val overwrite env i =
     (if \<not> overwrite \<and> env name \<noteq> None then Inr (0, env)
      else ebind (asprintf ok (Some (name @ ''='' @ val)) i) (\<lambda>(st, _).
             if st < 0 then Inr (-1, env) else Inr (0, putenv (name @ ''='' @ val) env)))"

subsection \<open>The contract of the wrappers\<close>

lemma retry_dies: "retry granted (Some e) i = Some (if granted i then Inr (Suc i) else Inl e)"
  by (simp add: retry.simps)

lemma retry_first:
  "granted k \<Longrightarrow> i \<le> k \<Longrightarrow> \<forall>j. i \<le> j \<and> j < k \<longrightarrow> \<not> granted j \<Longrightarrow> retry granted None i = Some (Inr (Suc k))"
proof (induction "k - i" arbitrary: i)
  case 0
  then show ?case by (simp add: retry.simps)
next
  case (Suc n)
  then have "\<not> granted i" "retry granted None (Suc i) = Some (Inr (Suc k))" by auto
  then show ?case by (simp add: retry.simps)
qed

text \<open>A loop that returns does so by induction on the number of its rounds.\<close>

lemma retry_outcome:
  assumes "retry granted h i = Some r"
  shows "case r of Inl e \<Rightarrow> h = Some e
    | Inr j \<Rightarrow> \<exists>k. j = Suc k \<and> i \<le> k \<and> granted k \<and> (\<forall>m. i \<le> m \<and> m < k \<longrightarrow> \<not> granted m)"
proof (rule retry.raw_induct [where P = "\<lambda>granted h i r. case r of Inl e \<Rightarrow> h = Some e
    | Inr j \<Rightarrow> \<exists>k. j = Suc k \<and> i \<le> k \<and> granted k \<and> (\<forall>m. i \<le> m \<and> m < k \<longrightarrow> \<not> granted m)", OF _ assms])
  fix att granted h i r
  assume ih: "\<And>granted h i r. att granted h i = Some r \<Longrightarrow> (case r of Inl e \<Rightarrow> h = Some e
      | Inr j \<Rightarrow> \<exists>k. j = Suc k \<and> i \<le> k \<and> granted k \<and> (\<forall>m. i \<le> m \<and> m < k \<longrightarrow> \<not> granted m))"
    and step: "(if granted i then Some (Inr (Suc i)) else case h of None \<Rightarrow> att granted h (Suc i) | Some e \<Rightarrow> Some (Inl e)) = Some r"
  show "case r of Inl e \<Rightarrow> h = Some e
      | Inr j \<Rightarrow> \<exists>k. j = Suc k \<and> i \<le> k \<and> granted k \<and> (\<forall>m. i \<le> m \<and> m < k \<longrightarrow> \<not> granted m)"
  proof (cases "granted i \<or> h \<noteq> None")
    case True
    then show ?thesis using step by (auto split: if_splits)
  next
    case False
    with step have "att granted h (Suc i) = Some r" by simp
    from ih [OF this] False show ?thesis
      by (cases r) (auto simp: Suc_le_eq, metis order.not_eq_order_implies_strict)
  qed
qed

lemmas retry_granted = retry_outcome [of _ _ _ "Inr j" for j, simplified]

lemma retry_returns: "(\<exists>r. retry granted None i = Some r) \<longleftrightarrow> (\<exists>k \<ge> i. granted k)"
proof
  assume "\<exists>k \<ge> i. granted k"
  then obtain k where k: "i \<le> k" "granted k" by blast
  define m where "m = (LEAST m. i \<le> m \<and> granted m)"
  have "i \<le> m \<and> granted m" unfolding m_def by (rule LeastI [of _ k]) (use k in simp)
  moreover have "\<forall>j. i \<le> j \<and> j < m \<longrightarrow> \<not> granted j" unfolding m_def using not_less_Least by blast
  ultimately have "retry granted None i = Some (Inr (Suc m))" using retry_first by blast
  then show "\<exists>r. retry granted None i = Some r" by blast
next
  assume "\<exists>r. retry granted None i = Some r"
  then obtain r where r: "retry granted None i = Some r" by blast
  show "\<exists>k \<ge> i. granted k"
  proof (cases r)
    case (Inr j)
    then show ?thesis using retry_granted r by blast
  next
    case (Inl e)
    then show ?thesis using retry_outcome [OF r] by simp
  qed
qed

lemma with_block_iff [simp]:
  "with_block b r = Some (Inr (b1, j)) \<longleftrightarrow> b1 = b \<and> r = Some (Inr j)"
  "with_block b r = Some (Inl e) \<longleftrightarrow> r = Some (Inl e)"
  "with_block b r = None \<longleftrightarrow> r = None"
proof -
  show "with_block b r = Some (Inr (b1, j)) \<longleftrightarrow> b1 = b \<and> r = Some (Inr j)"
    by (cases r; cases "the r") (auto simp: with_block_def)
  show "with_block b r = Some (Inl e) \<longleftrightarrow> r = Some (Inl e)"
    by (cases r; cases "the r") (auto simp: with_block_def)
qed (simp add: with_block_def)

text \<open>
  What a caller relies on: a call that returns has the block that was asked for,
  at the first attempt the allocator grants; it returns exactly when there is such
  an attempt or the handler ends the program.
\<close>

locale wrapper =
  fixes call :: "xmalloc_handler_type \<Rightarrow> string \<Rightarrow> nat \<Rightarrow> nat \<Rightarrow> (fault + 'b \<times> nat) option"
    and name :: string and asked :: nat and block :: 'b and granted :: "nat \<Rightarrow> bool"
  assumes call_retry: "call h path line_no i = with_block block (retry granted (h name asked path line_no) i)"
begin

lemma block_exact:
  assumes "call h path line_no i = Some (Inr (b, j))"
  shows "b = block \<and> (\<exists>k. j = Suc k \<and> i \<le> k \<and> granted k \<and> (\<forall>m. i \<le> m \<and> m < k \<longrightarrow> \<not> granted m))"
  using assms retry_granted unfolding call_retry by auto

lemma fails_by_handler:
  assumes "call h path line_no i = Some (Inl e)"
  shows "h name asked path line_no = Some e"
  using assms retry_outcome [of granted "h name asked path line_no" i "Inl e"] by (simp add: call_retry)

lemma returns_iff:
  "(\<exists>r. call h path line_no i = Some r) \<longleftrightarrow> h name asked path line_no \<noteq> None \<or> (\<exists>k \<ge> i. granted k)"
proof -
  have "(\<exists>r. call h path line_no i = Some r) \<longleftrightarrow> (\<exists>r. retry granted (h name asked path line_no) i = Some r)"
    unfolding not_None_eq [symmetric] call_retry with_block_iff(3) ..
  then show ?thesis
    by (cases "h name asked path line_no") (simp_all add: retry_returns retry_dies)
qed

end

interpretation malloc: wrapper "\<lambda>h. x_malloc ok h sz" "''malloc''" sz
    "replicate (if sz > 0 then sz else 1) None" "\<lambda>k. ok k (if sz > 0 then sz else 1)"
  by unfold_locales (simp add: x_malloc_def Let_def)

interpretation strdup: wrapper "\<lambda>h. x_strdup ok h s" "''strdup''" "length s + 1"
    "map Some (s @ [NUL])" "\<lambda>k. ok k (length s + 1)"
  by unfold_locales (simp add: x_strdup_def Let_def)

interpretation calloc: wrapper "\<lambda>h. x_calloc ok h n sz" "''calloc''"
    "(if n > 0 then n else 1) * (if sz > 0 then sz else 1) mod 2 ^ 64"
    "replicate ((if n > 0 then n else 1) * (if sz > 0 then sz else 1)) (Some NUL)"
    "\<lambda>k. (if n > 0 then n else 1) * (if sz > 0 then sz else 1) \<le> SIZE_MAX
       \<and> ok k ((if n > 0 then n else 1) * (if sz > 0 then sz else 1))"
  by unfold_locales (simp only: x_calloc_def Let_def)

interpretation realloc: wrapper "\<lambda>h. x_realloc ok h p (Suc m)" "''realloc''" "Suc m"
    "xrealloc p (Suc m)" "\<lambda>k. realloc ok p (Suc m) k \<noteq> None"
  by unfold_locales (simp add: x_realloc_def)

interpretation reallocarray: wrapper "\<lambda>h. x_reallocarray ok h p (Suc m) (Suc sz)" "''reallocarray''"
    "Suc m * Suc sz mod 2 ^ 64" "case array_size (Suc m) (Suc sz) of None \<Rightarrow> None | Some k \<Rightarrow> xrealloc p k"
    "\<lambda>k. reallocarray ok p (Suc m) (Suc sz) k \<noteq> None"
  by unfold_locales (simp only: x_reallocarray_def nat.simps simp_thms if_False)

text \<open>The octets a bounded copy takes are those of \<open>x_strndup\<close>, and none beyond the object is read.\<close>

lemma strn_scan_result:
  assumes "n \<le> length s \<or> NUL \<in> set s" "p \<le> n" "p \<le> length s" "NUL \<notin> set (take p s)"
  shows "strn_scan s n p = Inr (length (x_strndup s n))"
  using assms
proof (induction s n p rule: strn_scan.induct)
  case (1 s n p)
  have split: "take n s = take p s @ take (n - p) (drop p s)"
    using 1(3) by (metis le_add_diff_inverse take_add)
  then have tw: "x_strndup s n = take p s @ takeWhile (\<lambda>c. c \<noteq> NUL) (take (n - p) (drop p s))"
    using 1(5) by (auto simp: x_strndup_def takeWhile_append)
  show ?case
  proof (cases "p < n \<and> p < length s")
    case True
    then have "drop p s = s ! p # drop (Suc p) s" "n - p = Suc (n - Suc p)"
      by (simp_all add: Cons_nth_drop_Suc Suc_diff_Suc)
    then have d: "take (n - p) (drop p s) = s ! p # take (n - Suc p) (drop (Suc p) s)" by simp
    show ?thesis
    proof (cases "s ! p = NUL")
      case True
      with \<open>p < n \<and> p < length s\<close> tw d show ?thesis by (simp add: strn_scan.simps [of s n p])
    next
      case False
      with True 1(5) have "NUL \<notin> set (take (Suc p) s)" by (auto simp: take_Suc_conv_app_nth)
      with True False 1(1) 1(2) show ?thesis by (simp add: strn_scan.simps [of s n p])
    qed
  next
    case False
    with 1(2-5) have "p = n" by (auto simp: not_less)
    then show ?thesis using tw 1(4) by (simp add: strn_scan.simps [of s n n])
  qed
qed

lemma strn_scan_copy:
  assumes "n \<le> length s \<or> NUL \<in> set s"
  shows "strn_scan s n 0 = Inr (length (x_strndup s n))" "take (length (x_strndup s n)) s = x_strndup s n"
proof -
  show "strn_scan s n 0 = Inr (length (x_strndup s n))" using strn_scan_result [OF assms, of 0] by simp
  have "length (x_strndup s n) \<le> n"
    unfolding x_strndup_def by (rule order.trans [OF length_takeWhile_le]) simp
  moreover have "x_strndup s n = take (length (x_strndup s n)) (take n s)"
    unfolding x_strndup_def by (rule takeWhile_eq_take)
  ultimately show "take (length (x_strndup s n)) s = x_strndup s n" by (metis min.absorb1 take_take)
qed

lemma x_strndup_block_copies:
  assumes "n \<le> length s \<or> NUL \<in> set s"
  shows "x_strndup_block ok h s n path line_no i =
    with_block (map Some (x_strndup s n @ [NUL]))
      (retry (\<lambda>k. ok k (length (x_strndup s n) + 1)) (h ''strndup'' (length (x_strndup s n) + 1) path line_no) i)"
  unfolding x_strndup_block_def strn_scan_copy(1) [OF assms] sum.case strn_scan_copy(2) [OF assms] ..

text \<open>The size of an array is never computed with a wrap-around.\<close>

lemma array_size_fits:
  assumes "array_size n sz \<noteq> None" "n \<le> SIZE_MAX"
  shows "n * sz \<le> SIZE_MAX"
proof (cases "n \<ge> CHECK_THRESHOLD \<or> sz \<ge> CHECK_THRESHOLD")
  case True
  then have "sz \<le> SIZE_MAX div n \<or> n = 0" using assms(1) by (auto simp: array_size_def split: if_splits)
  then have "n * sz \<le> n * (SIZE_MAX div n)" by auto
  also have "\<dots> \<le> SIZE_MAX" by simp
  finally show ?thesis .
next
  case False
  then have "n \<le> 2 ^ 32 - 1" "sz \<le> 2 ^ 32 - 1" by (auto simp: CHECK_THRESHOLD_def)
  from mult_le_mono [OF this] show ?thesis by (simp add: SIZE_MAX_def)
qed

lemma array_size_exact:
  assumes "array_size n sz = Some m" "n \<le> SIZE_MAX"
  shows "m = (if n = 0 \<or> sz = 0 then 1 else n * sz)"
proof -
  have "n * sz \<le> SIZE_MAX" using array_size_fits assms by simp
  then have "n * sz mod 2 ^ 64 = n * sz" by (intro mod_less) (simp add: SIZE_MAX_def)
  with assms(1) show ?thesis by (auto simp: array_size_def split: if_splits)
qed

text \<open>Only arrays that fill the address space are refused.\<close>

lemma array_size_granted:
  assumes "n * sz + n \<le> SIZE_MAX"
  shows "array_size n sz \<noteq> None"
proof (cases "n = 0")
  case False
  have "sz < SIZE_MAX div n"
  proof (rule ccontr)
    assume "\<not> sz < SIZE_MAX div n"
    then have "SIZE_MAX div n * n \<le> sz * n" by (intro mult_le_mono1) simp
    moreover have "SIZE_MAX < SIZE_MAX div n * n + n" using False dividend_less_times_div [of n SIZE_MAX] by (simp add: mult.commute)
    ultimately show False using assms unfolding mult.commute [of n sz] by linarith
  qed
  then show ?thesis by (auto simp: array_size_def)
qed (simp add: array_size_def)

text \<open>An array is granted with all of its new size or not at all.\<close>

lemma reallocarray_granted:
  assumes "reallocarray ok p n sz k \<noteq> None" "n \<le> SIZE_MAX"
  shows "n * sz \<le> SIZE_MAX \<and> array_size n sz = Some (if n = 0 \<or> sz = 0 then 1 else n * sz)"
proof -
  obtain m where "array_size n sz = Some m" using assms(1) by (auto simp: reallocarray_def split: option.splits)
  with array_size_exact [OF this assms(2)] array_size_fits assms(2) show ?thesis by simp
qed

lemma xrealloc_grown:
  assumes "0 < n"
  obtains cs where "xrealloc p n = Some cs" "length cs = n"
    "\<And>old. p = Some old \<Longrightarrow> take (length old) cs = take n old"
proof (cases p)
  case None
  then show thesis using that [of "replicate n None"] by (simp add: xrealloc_def)
next
  case (Some old)
  then show thesis using assms that [of "take n old @ replicate (n - length old) None"]
    by (auto simp: xrealloc_def min_def)
qed

text \<open>
  C40: an array is never allocated with a wrapped size. The call always returns or ends the program;
  when it returns, the number of elements times their size fits in \<open>size_t\<close>, the block
  has exactly that many octets and begins with the octets of the old block as far as they fit; and
  an array that does not fill the address space is granted whenever the allocator grants it.
\<close>

theorem array_allocation:
  assumes "0 < n" "0 < sz" "n \<le> SIZE_MAX"
  shows "(\<exists>r. x_reallocarray ok xmalloc_fail p n sz path line_no i = Some r)
    \<and> (\<forall>b j. x_reallocarray ok xmalloc_fail p n sz path line_no i = Some (Inr (b, j)) \<longrightarrow>
         n * sz \<le> SIZE_MAX \<and> (\<exists>cs. b = Some cs \<and> length cs = n * sz
           \<and> (\<forall>old. p = Some old \<longrightarrow> take (length old) cs = take (n * sz) old)))
    \<and> (n * sz + n \<le> SIZE_MAX \<and> ok i (n * sz) \<longrightarrow>
         (\<exists>b. x_reallocarray ok xmalloc_fail p n sz path line_no i = Some (Inr (b, Suc i))))"
proof (intro conjI allI impI)
  obtain m1 s1 where ns: "n = Suc m1" "sz = Suc s1" using assms(1,2) by (cases n; cases sz) auto
  show "\<exists>r. x_reallocarray ok xmalloc_fail p n sz path line_no i = Some r"
    using reallocarray.returns_iff [of ok xmalloc_fail p m1 s1 path line_no i] by (simp add: ns xmalloc_fail_def)
  have pos: "0 < n * sz" using assms(1,2) by simp
  obtain cs where cs: "xrealloc p (n * sz) = Some cs" "length cs = n * sz"
    "\<And>old. p = Some old \<Longrightarrow> take (length old) cs = take (n * sz) old" using xrealloc_grown [OF pos] by metis
  {
    fix b j assume "x_reallocarray ok xmalloc_fail p n sz path line_no i = Some (Inr (b, j))"
    with reallocarray.block_exact [of ok xmalloc_fail p m1 s1 path line_no i b j]
    have b: "b = (case array_size n sz of None \<Rightarrow> None | Some k \<Rightarrow> xrealloc p k)"
      and k: "\<exists>k. reallocarray ok p n sz k \<noteq> None" by (auto simp: ns)
    from k obtain k1 where "reallocarray ok p n sz k1 \<noteq> None" by blast
    from reallocarray_granted [OF this assms(3)] b assms(1,2)
    have "n * sz \<le> SIZE_MAX" "b = xrealloc p (n * sz)" by auto
    then show "n * sz \<le> SIZE_MAX" "\<exists>cs. b = Some cs \<and> length cs = n * sz
           \<and> (\<forall>old. p = Some old \<longrightarrow> take (length old) cs = take (n * sz) old)" using cs by auto
  }
  assume "n * sz + n \<le> SIZE_MAX \<and> ok i (n * sz)"
  moreover from this array_size_granted have "array_size n sz \<noteq> None" by blast
  then obtain m where m: "array_size n sz = Some m" by auto
  moreover have "m = n * sz" using array_size_exact [OF m assms(3)] assms(1,2) by simp
  ultimately show "\<exists>b. x_reallocarray ok xmalloc_fail p n sz path line_no i = Some (Inr (b, Suc i))"
    using assms(1,2) cs by (auto simp: x_reallocarray_def reallocarray_def realloc_def xmalloc_fail_def retry_dies with_block_def)
qed

theorem array_allocation_witness:
  "\<exists>b. x_reallocarray (\<lambda>k n. n \<le> 64) xmalloc_fail (Some [Some (CHR ''a'')]) 3 2 ''buffer.c'' 7 0 = Some (Inr (b, 1))"
  using array_allocation [of 3 2 "\<lambda>k n. n \<le> 64" "Some [Some (CHR ''a'')]" "''buffer.c''" 7 0] by (simp add: SIZE_MAX_def)

text \<open>Formatted output: the text that was asked for, with its nul.\<close>

lemma format_wrapper:
  assumes "length t < INT_MAX"
  shows "wrapper (\<lambda>h. x_format ok h nm (Some t)) nm (length t + 1) (map Some (t @ [NUL])) (\<lambda>k. ok k (length t + 1))"
proof
  have v: "vsnprintf_len (Some t) = int (length t)" "vsnprintf_len (Some t) \<noteq> int INT_MAX"
    "format_size (Some t) = length t + 1" using assms by (simp_all add: vsnprintf_len_def format_size_def)
  then have "(case vasprintf ok (Some t) k of Inl e \<Rightarrow> False | Inr (st, b) \<Rightarrow> 0 \<le> st) = ok k (length t + 1)" for k
    using assms by (simp add: vasprintf_def Let_def nat_add_distrib)
  then show "x_format ok h nm (Some t) path line_no i
      = with_block (map Some (t @ [NUL])) (retry (\<lambda>k. ok k (length t + 1)) (h nm (length t + 1) path line_no) i)"
    for h path line_no i using v by (simp add: x_format_def)
qed

text \<open>
  \<open>setenv\<close> sets the variable and no other one; without \<open>overwrite\<close> a variable that is set keeps its value.
  The replacement does not check the name: with a \<open>=\<close> in it, another variable is set.
\<close>

lemma putenv_assignment:
  assumes "CHR ''='' \<notin> set name"
  shows "putenv (name @ ''='' @ val) env = env(name \<mapsto> val)"
proof -
  have "dropWhile (\<lambda>x. x \<noteq> CHR ''='') (name @ ''='' @ val) = ''='' @ val"
    using assms by (subst dropWhile_append2) auto
  then show ?thesis by (simp add: putenv_def strchr_def)
qed

lemma setenv_exact:
  assumes "CHR ''='' \<notin> set name" "length name + length val + 1 < INT_MAX"
  shows "setenv ok name val overwrite env i =
    (if \<not> overwrite \<and> env name \<noteq> None then Inr (0, env)
     else if ok i (length name + length val + 2) then Inr (0, env(name \<mapsto> val))
     else Inr (-1, env))"
  using assms putenv_assignment [OF assms(1), of val env]
  by (simp add: setenv_def asprintf_def vasprintf_def vsnprintf_len_def Let_def nat_add_distrib)

lemma setenv_unchecked_name:
  "setenv (\<lambda>i n. True) ''a=b'' ''c'' True Map.empty 0 = Inr (0, [''a'' \<mapsto> ''b=c''])"
  by (simp add: setenv_def asprintf_def vasprintf_def vsnprintf_len_def INT_MAX_def putenv_def strchr_def)

text \<open>With the default handler a wrapper always returns or ends the program.\<close>

lemma x_malloc_default:
  "\<exists>r. x_malloc ok xmalloc_fail sz path line_no i = Some r"
  using malloc.returns_iff [of ok xmalloc_fail sz path line_no i] by (simp add: xmalloc_fail_def)

text \<open>A handler that returns and an allocator that never grants anything: the loop does not end.\<close>

lemma x_malloc_diverges: "x_malloc (\<lambda>k n. False) (\<lambda>f n fl l. None) sz path line_no i = None"
  using malloc.returns_iff [of "\<lambda>k n. False" "\<lambda>f n fl l. None" sz path line_no i] by simp

end
