(* ===== verification/Portable_Files.thy ===== *)
theory Portable_Files
  imports Sockets
begin

text \<open>
  Replacements for missing functions of the C library that deal with files and
  descriptors: \<^verbatim>\<open>src/portable/mkstemp.c\<close> and \<^verbatim>\<open>src/portable/daemon.c\<close>, and the
  flags of descriptors of \<^verbatim>\<open>src/util/fdflag.c\<close>.

  The kernel is a parameter: what \<open>open\<close> returns for a name at its \<open>i\<close>-th call,
  and the outcome of each call \<open>daemon\<close> makes.
\<close>

subsection \<open>Temporary files\<close>

definition letters :: string where
  "letters = ''ABCDEFGHIJKLMNOPQRSTUVWXYZabcdefghijklmnopqrstuvwxyz0123456789''"

text \<open>\<open>TMP_MAX\<close> of glibc.\<close>

definition TMP_MAX :: nat where "TMP_MAX = 238328"

datatype open_result = Opened nat | Open_exists | Open_isdir | Open_err errno

text \<open>The six characters made from a number.\<close>

primrec name_chars :: "nat \<Rightarrow> 64 word \<Rightarrow> string" where
  "name_chars 0 working = []"
| "name_chars (Suc n) working = letters ! unat (working mod 62) # name_chars n (working div 62)"

text \<open>\<open>tries\<close> counts what is left; the loop returns the descriptor or the error, and the name.\<close>

primrec mkstemp_loop ::
  "(nat \<Rightarrow> string \<Rightarrow> open_result) \<Rightarrow> string \<Rightarrow> 64 word \<Rightarrow> nat \<Rightarrow> nat \<Rightarrow> 64 word \<Rightarrow> string
     \<Rightarrow> (open_result + nat) \<times> string" where
  "mkstemp_loop opn prefix usec i 0 randnum t = (Inl Open_exists, t)"
| "mkstemp_loop opn prefix usec i (Suc tries) randnum t =
     (let name = prefix @ name_chars 6 randnum
      in case opn i name of
           Opened n \<Rightarrow> (Inr n, name)
         | Open_err e \<Rightarrow> (Inl (Open_err e), name)
         | _ \<Rightarrow> mkstemp_loop opn prefix usec (Suc i) tries (randnum + (drop_bit 10 usec AND 0xfff)) name)"

definition mkstemp ::
  "(nat \<Rightarrow> string \<Rightarrow> open_result) \<Rightarrow> 64 word \<Rightarrow> 64 word \<Rightarrow> 64 word \<Rightarrow> string \<Rightarrow> (open_result + nat) \<times> string" where
  "mkstemp opn usec sec pid_word template =
     (if length template < 6 then (Inl (Open_err EINVAL), template)
      else if drop (length template - 6) template \<noteq> ''XXXXXX'' then (Inl (Open_err EINVAL), template)
      else mkstemp_loop opn (take (length template - 6) template) usec 0 TMP_MAX
             (push_bit 16 usec XOR sec XOR pid_word) template)"

lemma length_letters: "length letters = 62"
  by (simp add: letters_def)

lemma name_chars_letters: "length (name_chars n w) = n \<and> set (name_chars n w) \<subseteq> set letters"
proof (induction n arbitrary: w)
  case (Suc n)
  have "unat (w mod 62) < 62" by (simp add: unat_mod)
  then have "letters ! unat (w mod 62) \<in> set letters" by (simp add: length_letters)
  with Suc show ?case by simp
qed simp

text \<open>A descriptor that is returned is that of the name left in the template, which keeps its prefix.\<close>

lemma mkstemp_loop_result:
  assumes "mkstemp_loop opn prefix usec i tries randnum t = (Inr n, t1)"
  shows "\<exists>k w. opn k t1 = Opened n \<and> t1 = prefix @ name_chars 6 w \<and> i \<le> k \<and> k < i + tries"
  using assms
proof (induction tries arbitrary: i randnum t)
  case (Suc tries)
  show ?case
  proof (cases "opn i (prefix @ name_chars 6 randnum)")
    case (Opened m)
    then show ?thesis using Suc.prems by (auto simp: Let_def)
  next
    case Open_exists
    with Suc.prems Suc.IH [of "Suc i"] show ?thesis by (fastforce simp: Let_def)
  next
    case Open_isdir
    with Suc.prems Suc.IH [of "Suc i"] show ?thesis by (fastforce simp: Let_def)
  next
    case (Open_err e)
    then show ?thesis using Suc.prems by (auto simp: Let_def)
  qed
qed simp

lemma mkstemp_opens:
  assumes "mkstemp opn usec sec pid_word template = (Inr n, t1)"
  shows "\<exists>k < TMP_MAX. opn k t1 = Opened n \<and> length t1 = length template
     \<and> take (length template - 6) t1 = take (length template - 6) template
     \<and> set (drop (length template - 6) t1) \<subseteq> set letters"
proof -
  let ?n = "length template - 6"
  from assms have len: "6 \<le> length template"
    and l: "mkstemp_loop opn (take ?n template) usec 0 TMP_MAX (push_bit 16 usec XOR sec XOR pid_word) template = (Inr n, t1)"
    by (auto simp: mkstemp_def split: if_splits)
  from mkstemp_loop_result [OF l] obtain k w where
    "opn k t1 = Opened n" "t1 = take ?n template @ name_chars 6 w" "k < TMP_MAX" by auto
  then show ?thesis using name_chars_letters [of 6 w] len by (intro exI [of _ k]) simp
qed

text \<open>
  The increment between two names is 0 in the first 1024 microseconds of every
  second: the loop then tries the same name again and again.
\<close>

lemma mkstemp_no_increment: "usec < 1024 \<Longrightarrow> drop_bit 10 usec AND 0xfff = (0 :: 64 word)"
proof -
  assume "usec < 1024"
  then have "drop_bit 10 usec = 0" by (simp add: drop_bit_eq_div div_word_less)
  then show ?thesis by simp
qed

lemma mkstemp_same_name:
  assumes "usec < 1024" "\<forall>k. opn k (prefix @ name_chars 6 randnum) = Open_exists" "0 < tries"
  shows "mkstemp_loop opn prefix usec i tries randnum t = (Inl Open_exists, prefix @ name_chars 6 randnum)"
  using assms(3)
proof (induction tries arbitrary: i t)
  case (Suc tries)
  then show ?case
    using assms(2) mkstemp_no_increment [OF assms(1)] by (cases tries) (simp_all add: Let_def)
qed simp

subsection \<open>Becoming a daemon\<close>

text \<open>
  What the kernel answers to each call, on a system with \<open>setsid\<close>: \<open>d_fork\<close> is the result of
  \<open>fork\<close>, and \<open>d_null\<close> the descriptor for \<^verbatim>\<open>/dev/null\<close>. A table of descriptors says
  what each one refers to.
\<close>

record daemon_calls =
  d_fork :: int
  d_setsid :: bool
  d_chdir :: bool
  d_null :: "nat option"
  d_dup2 :: "nat \<Rightarrow> bool"

type_synonym fd_table = "nat \<rightharpoonup> string"

datatype daemon_result = Parent_exits | Daemon_fails fd_table | Daemon_runs fd_table

primrec dup_all :: "(nat \<Rightarrow> bool) \<Rightarrow> nat \<Rightarrow> nat list \<Rightarrow> fd_table \<Rightarrow> bool \<times> fd_table" where
  "dup_all ok n [] t = (True, t)"
| "dup_all ok n (k # ks) t = (if ok k then dup_all ok n ks (t(k := t n)) else (False, t))"

definition daemon_portable :: "daemon_calls \<Rightarrow> bool \<Rightarrow> bool \<Rightarrow> fd_table \<Rightarrow> daemon_result" where
  "daemon_portable d nochdir noclose t =
     (if d_fork d < 0 then Daemon_fails t
      else if d_fork d > 0 then Parent_exits
      else if \<not> d_setsid d then Daemon_fails t
      else if \<not> nochdir \<and> \<not> d_chdir d then Daemon_fails t
      else if \<not> noclose then
        (case d_null d of
           None \<Rightarrow> Daemon_fails t
         | Some n \<Rightarrow>
             (case dup_all (d_dup2 d) n [0, 1, 2] (t(n \<mapsto> ''/dev/null'')) of
                (False, t1) \<Rightarrow> Daemon_fails t1
              | (True, t1) \<Rightarrow> Daemon_runs (if n > 2 then t1(n := None) else t1)))
      else Daemon_runs t)"

lemma daemon_detached:
  assumes "daemon_portable d nochdir False t = Daemon_runs t1" "\<forall>n. d_null d = Some n \<longrightarrow> t n = None"
  shows "\<forall>k. t1 k = (if k \<le> 2 then Some ''/dev/null'' else t k)"
proof -
  from assms(1) obtain n where n: "d_null d = Some n" "\<forall>k \<in> {0, 1, 2}. d_dup2 d k"
    by (auto simp: daemon_portable_def numeral_2_eq_2 split: if_splits option.splits)
  have k: "k \<le> 2 \<longleftrightarrow> k = 0 \<or> k = 1 \<or> k = 2" for k :: nat by auto
  show ?thesis
    using assms n unfolding k
    by (auto simp: daemon_portable_def numeral_2_eq_2 split: if_splits)
qed

subsection \<open>Flags of descriptors\<close>

text \<open>The flags of each open descriptor; \<open>fcntl\<close> may also refuse to set them.\<close>

definition FD_CLOEXEC :: u32 where "FD_CLOEXEC = 1"
definition O_NONBLOCK :: u32 where "O_NONBLOCK = 0x800"

definition set_flag :: "u32 \<Rightarrow> (nat \<Rightarrow> bool) \<Rightarrow> nat \<Rightarrow> bool \<Rightarrow> (nat \<rightharpoonup> u32) \<Rightarrow> bool \<times> (nat \<rightharpoonup> u32)" where
  "set_flag fbit ok n flag t =
     (case t n of
        None \<Rightarrow> (False, t)
      | Some oflag \<Rightarrow>
          let mode = (if flag then oflag OR fbit else oflag AND NOT fbit)
          in if ok n then (True, t(n \<mapsto> mode)) else (False, t))"

definition fdflag_close_exec :: "(nat \<Rightarrow> bool) \<Rightarrow> nat \<Rightarrow> bool \<Rightarrow> (nat \<rightharpoonup> u32) \<Rightarrow> bool \<times> (nat \<rightharpoonup> u32)" where
  "fdflag_close_exec = set_flag FD_CLOEXEC"

definition fdflag_nonblocking :: "(nat \<Rightarrow> bool) \<Rightarrow> nat \<Rightarrow> bool \<Rightarrow> (nat \<rightharpoonup> u32) \<Rightarrow> bool \<times> (nat \<rightharpoonup> u32)" where
  "fdflag_nonblocking = set_flag O_NONBLOCK"

lemma set_flag_exact:
  assumes "set_flag (2 ^ b) ok n flag t = (True, t1)" "b < 32"
  shows "\<exists>old new. t n = Some old \<and> t1 = t(n \<mapsto> new) \<and> (\<forall>i < 32. bit new i = (if i = b then flag else bit old i))"
  using assms
  by (auto simp: set_flag_def Let_def bit_simps split: option.splits if_splits intro!: exI)

end
