(* ===== verification/Addresses.thy ===== *)
theory Addresses
  imports Sockets
begin

text \<open>
  Addresses: \<open>network_sockaddr_sprint\<close>, \<open>network_sockaddr_equal\<close>,
  \<open>network_sockaddr_port\<close> and \<open>network_addr_match\<close> of \<^verbatim>\<open>src/util/network.c\<close>.

  An IPv4 address is a word and a port a number, both in host order: the code
  combines values in network order only with each other. An IPv6 address is the
  list of its 16 octets. The parsers and printers of the C library
  (\<open>inet_aton\<close>, \<open>inet_pton\<close>, \<open>inet_ntop\<close>) are parameters.
\<close>

subsection \<open>Socket addresses\<close>

datatype sockaddr = Sockaddr_in u32 nat | Sockaddr_in6 "u8 list" nat | Sockaddr_other nat

record printers =
  inet_ntop4 :: "u32 \<Rightarrow> string"
  inet_ntop6 :: "u8 list \<Rightarrow> string"

definition is_v4mapped :: "u8 list \<Rightarrow> bool" where
  "is_v4mapped xs \<longleftrightarrow> take 10 xs = replicate 10 0 \<and> take 2 (drop 10 xs) = [0xff, 0xff]"

definition mapped_v4 :: "u8 list \<Rightarrow> u32" where
  "mapped_v4 xs =
     push_bit 24 (ucast (xs ! 12)) OR push_bit 16 (ucast (xs ! 13)) OR push_bit 8 (ucast (xs ! 14)) OR ucast (xs ! 15)"

text \<open>\<open>inet_ntop\<close> fails when the result with its nul does not fit; None is a failure.\<close>

definition ntop_into :: "nat \<Rightarrow> string \<Rightarrow> string option" where
  "ntop_into sz s = (if length s < sz then Some s else None)"

definition network_sockaddr_sprint :: "printers \<Rightarrow> nat \<Rightarrow> sockaddr \<Rightarrow> string option" where
  "network_sockaddr_sprint p sz addr =
     (case addr of
        Sockaddr_in6 xs _ \<Rightarrow>
          if is_v4mapped xs then ntop_into sz (inet_ntop4 p (mapped_v4 xs))
          else ntop_into sz (inet_ntop6 p xs)
      | Sockaddr_in x _ \<Rightarrow> ntop_into sz (inet_ntop4 p x)
      | Sockaddr_other _ \<Rightarrow> None)"

definition network_sockaddr_equal :: "sockaddr \<Rightarrow> sockaddr \<Rightarrow> bool" where
  "network_sockaddr_equal a0 b0 =
     (let (a, b) = (case (a0, b0) of (Sockaddr_in _ _, Sockaddr_in6 _ _) \<Rightarrow> (b0, a0) | _ \<Rightarrow> (a0, b0))
      in case a of
           Sockaddr_in6 xs _ \<Rightarrow>
             (case b of
                Sockaddr_in6 ys _ \<Rightarrow> xs = ys
              | Sockaddr_other _ \<Rightarrow> False
              | Sockaddr_in y _ \<Rightarrow> if \<not> is_v4mapped xs then False else mapped_v4 xs = y)
         | Sockaddr_in x _ \<Rightarrow> (case b of Sockaddr_in y _ \<Rightarrow> x = y | _ \<Rightarrow> False)
         | Sockaddr_other _ \<Rightarrow> False)"

definition network_sockaddr_port :: "sockaddr \<Rightarrow> nat" where
  "network_sockaddr_port sa =
     (case sa of Sockaddr_in6 _ prt \<Rightarrow> prt | Sockaddr_other _ \<Rightarrow> 0 | Sockaddr_in _ prt \<Rightarrow> prt)"

subsection \<open>Matching\<close>

text \<open>\<open>strtoul(s, &end, 10)\<close>: the value and what \<open>end\<close> points at.\<close>

definition strtoul :: "string \<Rightarrow> nat \<times> string" where
  "strtoul s =
     (let t = dropWhile isspace s;
          neg = (t \<noteq> [] \<and> hd t = CHR ''-'');
          u = (if t \<noteq> [] \<and> (hd t = CHR ''-'' \<or> hd t = CHR ''+'') then tl t else t)
      in if u = [] \<or> \<not> isdigit (hd u) then (0, s)
         else let (m, rest) = digits_value 0 u
              in if m \<ge> 2 ^ 64 then (2 ^ 64 - 1, rest)
                 else if neg then ((2 ^ 64 - m) mod 2 ^ 64, rest)
                 else (m, rest))"

record addr_parsers =
  inet_aton :: "string \<Rightarrow> u32 option"
  inet_pton6 :: "string \<Rightarrow> u8 list option"

text \<open>The loops that set the leading bits of a mask.\<close>

primrec cidr_bits :: "nat \<Rightarrow> u32" where
  "cidr_bits 0 = 0"
| "cidr_bits (Suc i) = cidr_bits i OR push_bit (31 - i) 1"

primrec octet_bits :: "nat \<Rightarrow> u32" where
  "octet_bits 0 = 0"
| "octet_bits (Suc i) = octet_bits i OR push_bit (7 - i) 1"

definition v4_mask :: "addr_parsers \<Rightarrow> string option \<Rightarrow> u32 option" where
  "v4_mask p msk =
     (case msk of
        None \<Rightarrow> Some 0xffffffff
      | Some m \<Rightarrow>
          if CHR ''.'' \<notin> set m then
            (case strtoul m of (cidr, rest) \<Rightarrow> if cidr > 32 \<or> rest \<noteq> [] then None else Some (cidr_bits cidr))
          else inet_aton p m)"

function v6_match_loop :: "u8 list \<Rightarrow> u8 list \<Rightarrow> nat \<Rightarrow> nat \<Rightarrow> bool" where
  "v6_match_loop xs ys cidr i =
     (if i * 8 < cidr then
        if (i + 1) * 8 \<le> cidr then
          if xs ! i \<noteq> ys ! i then False else v6_match_loop xs ys cidr (i + 1)
        else
          let addr_mask = octet_bits (cidr mod 8)
          in if ucast (xs ! i) AND addr_mask \<noteq> ucast (ys ! i) AND addr_mask then False
             else v6_match_loop xs ys cidr (i + 1)
      else True)"
  by pat_completeness auto
termination
  by (relation "measure (\<lambda>(xs, ys, cidr, i). cidr - i * 8)") auto

declare v6_match_loop.simps [simp del]

definition v6_cidr :: "string option \<Rightarrow> nat option" where
  "v6_cidr msk =
     (case msk of
        None \<Rightarrow> Some 128
      | Some m \<Rightarrow> (case strtoul m of (cidr, rest) \<Rightarrow> if cidr > 128 \<or> rest \<noteq> [] then None else Some cidr))"

definition network_addr_match :: "addr_parsers \<Rightarrow> string \<Rightarrow> string \<Rightarrow> string option \<Rightarrow> bool" where
  "network_addr_match p a b msk =
     (if a = [] \<or> b = [] then False
      else case (inet_aton p a, inet_aton p b) of
             (Some x, Some y) \<Rightarrow>
               (case v4_mask p msk of None \<Rightarrow> False | Some w \<Rightarrow> x AND w = y AND w)
           | _ \<Rightarrow>
               (case (inet_pton6 p a, inet_pton6 p b) of
                  (Some xs, Some ys) \<Rightarrow>
                    (case v6_cidr msk of None \<Rightarrow> False | Some cidr \<Rightarrow> v6_match_loop xs ys cidr 0)
                | _ \<Rightarrow> False))"

subsection \<open>Lemmas\<close>

text \<open>Two sockaddrs are equal if both have an address and it is the same after unmapping.\<close>

datatype address = V4 u32 | V6 "u8 list"

definition canonical :: "sockaddr \<Rightarrow> address option" where
  "canonical a =
     (case a of
        Sockaddr_in x _ \<Rightarrow> Some (V4 x)
      | Sockaddr_in6 xs _ \<Rightarrow> Some (if is_v4mapped xs then V4 (mapped_v4 xs) else V6 xs)
      | Sockaddr_other _ \<Rightarrow> None)"

lemma cidr_bits_bit: "i \<le> 32 \<Longrightarrow> bit (cidr_bits i) k \<longleftrightarrow> k < 32 \<and> 32 - i \<le> k"
  by (induction i) (auto simp: bit_simps)

lemma octet_bits_bit: "i \<le> 8 \<Longrightarrow> bit (octet_bits i) k \<longleftrightarrow> k < 8 \<and> 8 - i \<le> k"
  by (induction i) (auto simp: bit_simps)

definition v4_prefix :: "nat \<Rightarrow> u32 \<Rightarrow> u32 \<Rightarrow> bool" where
  "v4_prefix n x y \<longleftrightarrow> (\<forall>i < n. bit x (31 - i) = bit y (31 - i))"

lemma cidr_match:
  assumes "n \<le> 32"
  shows "x AND cidr_bits n = y AND cidr_bits n \<longleftrightarrow> v4_prefix n x y"
proof
  assume e: "x AND cidr_bits n = y AND cidr_bits n"
  show "v4_prefix n x y" unfolding v4_prefix_def
  proof (intro allI impI)
    fix i assume "i < n"
    with assms have "bit (cidr_bits n) (31 - i)" by (simp add: cidr_bits_bit) linarith
    then show "bit x (31 - i) = bit y (31 - i)" using arg_cong [OF e, of "\<lambda>w. bit w (31 - i)"] by (simp add: bit_and_iff)
  qed
next
  assume p: "v4_prefix n x y"
  show "x AND cidr_bits n = y AND cidr_bits n"
  proof (rule bit_word_eqI)
    fix k assume k: "k < LENGTH(32)"
    then have "31 - (31 - k) = k" by simp
    then have "32 - n \<le> k \<Longrightarrow> bit x k = bit y k"
      using p [unfolded v4_prefix_def, rule_format, of "31 - k"] k assms by auto
    with k assms show "bit (x AND cidr_bits n) k = bit (y AND cidr_bits n) k"
      by (auto simp: bit_and_iff cidr_bits_bit)
  qed
qed

lemma octet_match:
  fixes x y :: u8
  assumes "n \<le> 8"
  shows "(ucast x :: u32) AND octet_bits n = ucast y AND octet_bits n \<longleftrightarrow> (\<forall>i < n. bit x (7 - i) = bit y (7 - i))"
proof
  assume e: "(ucast x :: u32) AND octet_bits n = ucast y AND octet_bits n"
  show "\<forall>i < n. bit x (7 - i) = bit y (7 - i)"
  proof (intro allI impI)
    fix i assume "i < n"
    with assms have "bit (octet_bits n) (7 - i)" by (simp add: octet_bits_bit) linarith
    moreover have "7 - i < 32" by linarith
    ultimately show "bit x (7 - i) = bit y (7 - i)"
      using arg_cong [OF e, of "\<lambda>w. bit w (7 - i)"] by (simp add: bit_and_iff bit_ucast_iff)
  qed
next
  assume p: "\<forall>i < n. bit x (7 - i) = bit y (7 - i)"
  show "(ucast x :: u32) AND octet_bits n = ucast y AND octet_bits n"
  proof (rule bit_word_eqI)
    fix k :: nat
    have "k < 8 \<Longrightarrow> 8 - n \<le> k \<Longrightarrow> bit x k = bit y k"
      using p [rule_format, of "7 - k"] assms by auto
    with assms show "bit ((ucast x :: u32) AND octet_bits n) k = bit (ucast y AND octet_bits n) k"
      by (auto simp: bit_and_iff bit_ucast_iff octet_bits_bit)
  qed
qed

lemma octet_equal: "x = y \<longleftrightarrow> (\<forall>i < 8. bit x (7 - i) = bit y (7 - i))" for x y :: u8
proof
  assume p: "\<forall>i < 8. bit x (7 - i) = bit y (7 - i)"
  show "x = y"
  proof (rule bit_word_eqI)
    fix k assume "k < LENGTH(8)"
    then show "bit x k = bit y k" using p [rule_format, of "7 - k"] by auto
  qed
qed simp

definition v6_agree :: "u8 list \<Rightarrow> u8 list \<Rightarrow> nat \<Rightarrow> bool" where
  "v6_agree xs ys k \<longleftrightarrow> bit (xs ! (k div 8)) (7 - k mod 8) = bit (ys ! (k div 8)) (7 - k mod 8)"

text \<open>The bits of one octet, by their place in the address.\<close>

lemma octet_range:
  assumes "n \<le> 8"
  shows "(\<forall>j < n. bit (xs ! i) (7 - j) = bit (ys ! i) (7 - j)) \<longleftrightarrow> (\<forall>k. i * 8 \<le> k \<and> k < i * 8 + n \<longrightarrow> v6_agree xs ys k)"
  (is "?bits \<longleftrightarrow> ?range")
proof
  assume a: ?bits
  show ?range
  proof (intro allI impI)
    fix k assume "i * 8 \<le> k \<and> k < i * 8 + n"
    then obtain j where "k = i * 8 + j" "j < n" using le_Suc_ex [of "i * 8" k] by auto
    then have "k div 8 = i" "k mod 8 < n" using assms by auto
    with a show "v6_agree xs ys k" by (simp add: v6_agree_def)
  qed
next
  assume a: ?range
  show ?bits
  proof (intro allI impI)
    fix j assume j: "j < n"
    with a have "v6_agree xs ys (i * 8 + j)" "(i * 8 + j) div 8 = i" "(i * 8 + j) mod 8 = j" using assms by auto
    then show "bit (xs ! i) (7 - j) = bit (ys ! i) (7 - j)" by (simp add: v6_agree_def)
  qed
qed

lemma v6_match_loop_exact:
  "v6_match_loop xs ys cidr i \<longleftrightarrow> (\<forall>k. i * 8 \<le> k \<and> k < cidr \<longrightarrow> v6_agree xs ys k)"
proof (induction xs ys cidr i rule: v6_match_loop.induct)
  case (1 xs ys cidr i)
  consider (full) "(i + 1) * 8 \<le> cidr" | (part) "i * 8 < cidr" "cidr < (i + 1) * 8" | (none) "cidr \<le> i * 8" by linarith
  then show ?case
  proof cases
    case full
    have split: "(\<forall>k. i * 8 \<le> k \<and> k < cidr \<longrightarrow> v6_agree xs ys k)
        \<longleftrightarrow> (\<forall>k. i * 8 \<le> k \<and> k < i * 8 + 8 \<longrightarrow> v6_agree xs ys k) \<and> (\<forall>k. (i + 1) * 8 \<le> k \<and> k < cidr \<longrightarrow> v6_agree xs ys k)"
      using full by (auto simp: not_less) (metis add.commute not_le)
    have "v6_match_loop xs ys cidr i \<longleftrightarrow> xs ! i = ys ! i \<and> v6_match_loop xs ys cidr (i + 1)"
      using full by (subst v6_match_loop.simps) auto
    moreover have "v6_match_loop xs ys cidr (i + 1) \<longleftrightarrow> (\<forall>k. (i + 1) * 8 \<le> k \<and> k < cidr \<longrightarrow> v6_agree xs ys k)"
      if "xs ! i = ys ! i" using 1(1) that full by simp
    ultimately show ?thesis unfolding split octet_range [of 8 xs i ys, symmetric, simplified] octet_equal [symmetric]
      by blast
  next
    case part
    then obtain n where n: "cidr = i * 8 + n" "0 < n" "n < 8" using less_imp_add_positive [of "i * 8" cidr] by auto
    have "v6_match_loop xs ys cidr (i + 1)" using part by (subst v6_match_loop.simps) simp
    then have "v6_match_loop xs ys cidr i
        \<longleftrightarrow> (ucast (xs ! i) :: u32) AND octet_bits n = ucast (ys ! i) AND octet_bits n"
      using part n by (subst v6_match_loop.simps) (simp add: Let_def)
    then show ?thesis using n octet_match [of n] octet_range [of n xs i ys] by simp
  next
    case none
    then show ?thesis by (subst v6_match_loop.simps) auto
  qed
qed

definition v6_prefix :: "nat \<Rightarrow> u8 list \<Rightarrow> u8 list \<Rightarrow> bool" where
  "v6_prefix n xs ys \<longleftrightarrow> (\<forall>k < n. v6_agree xs ys k)"

lemma v6_prefix_all:
  assumes "length xs = 16" "length ys = 16"
  shows "v6_prefix 128 xs ys \<longleftrightarrow> xs = ys"
proof
  assume p: "v6_prefix 128 xs ys"
  show "xs = ys"
  proof (rule nth_equalityI)
    fix i assume "i < length xs"
    then have "\<forall>k. i * 8 \<le> k \<and> k < i * 8 + 8 \<longrightarrow> v6_agree xs ys k" using p assms(1) by (auto simp: v6_prefix_def)
    then show "xs ! i = ys ! i" using octet_range [of 8 xs i ys] octet_equal by simp
  qed (use assms in simp)
qed (simp add: v6_prefix_def v6_agree_def)

text \<open>The masks of IPv4 and IPv6, by what they match.\<close>

lemma v4_mask_match:
  "(case v4_mask p msk of None \<Rightarrow> False | Some w \<Rightarrow> x AND w = y AND w)
     \<longleftrightarrow> (case msk of
            None \<Rightarrow> x = y
          | Some m \<Rightarrow>
              if CHR ''.'' \<notin> set m then \<exists>n. n \<le> 32 \<and> strtoul m = (n, []) \<and> v4_prefix n x y
              else \<exists>w. inet_aton p m = Some w \<and> x AND w = y AND w)"
proof (cases msk)
  case None
  have ones: "(0xffffffff :: u32) = - 1" by simp
  have m: "z AND 0xffffffff = z" for z :: u32 by (simp only: ones and.right_neutral)
  with None show ?thesis by (simp add: v4_mask_def m)
next
  case (Some m)
  show ?thesis
  proof (cases "CHR ''.'' \<in> set m")
    case False
    then show ?thesis using Some
      by (cases "strtoul m") (auto simp: v4_mask_def cidr_match)
  qed (use Some in \<open>auto simp: v4_mask_def split: option.split\<close>)
qed

lemma v6_cidr_match:
  assumes "length xs = 16" "length ys = 16"
  shows "(case v6_cidr msk of None \<Rightarrow> False | Some n \<Rightarrow> v6_match_loop xs ys n 0)
     \<longleftrightarrow> (case msk of
            None \<Rightarrow> xs = ys
          | Some m \<Rightarrow> \<exists>n. n \<le> 128 \<and> strtoul m = (n, []) \<and> v6_prefix n xs ys)"
proof (cases msk)
  case None
  then show ?thesis using v6_prefix_all [OF assms] by (simp add: v6_cidr_def v6_match_loop_exact v6_prefix_def)
next
  case (Some m)
  then show ?thesis
    by (cases "strtoul m") (auto simp: v6_cidr_def v6_match_loop_exact v6_prefix_def)
qed

lemma mapped_v4_bit:
  assumes "k < 8"
  shows "bit (mapped_v4 xs) (24 + k) = bit (xs ! 12) k" "bit (mapped_v4 xs) (16 + k) = bit (xs ! 13) k"
    "bit (mapped_v4 xs) (8 + k) = bit (xs ! 14) k" "bit (mapped_v4 xs) k = bit (xs ! 15) k"
  using assms by (auto simp: mapped_v4_def bit_simps dest: bit_imp_le_length)

lemma mapped_v4_inj:
  assumes "is_v4mapped xs" "is_v4mapped ys" "length xs = 16" "length ys = 16" "mapped_v4 xs = mapped_v4 ys"
  shows "xs = ys"
proof (rule nth_equalityI)
  have e: "xs ! 12 = ys ! 12" "xs ! 13 = ys ! 13" "xs ! 14 = ys ! 14" "xs ! 15 = ys ! 15"
    using mapped_v4_bit [of _ xs] mapped_v4_bit [of _ ys] assms(5) by (auto intro!: bit_word_eqI)
  have t: "take 12 xs = take 12 ys"
    using assms(1,2) take_add [of 10 2 xs] take_add [of 10 2 ys] by (simp add: is_v4mapped_def)
  fix i assume i: "i < length xs"
  show "xs ! i = ys ! i"
  proof (cases "i < 12")
    case True
    then show ?thesis using arg_cong [OF t, of "\<lambda>zs. zs ! i"] by simp
  next
    case False
    then have "i = 12 \<or> i = 13 \<or> i = 14 \<or> i = 15" using i assms(3) by linarith
    with e show ?thesis by auto
  qed
qed (use assms in simp)

lemma network_sockaddr_equal_iff:
  assumes "\<And>xs ys n m. a = Sockaddr_in6 xs n \<Longrightarrow> b = Sockaddr_in6 ys m \<Longrightarrow> length xs = 16 \<and> length ys = 16"
  shows "network_sockaddr_equal a b \<longleftrightarrow> (\<exists>x. canonical a = Some x \<and> canonical b = Some x)"
  using assms by (cases a; cases b) (auto simp: network_sockaddr_equal_def canonical_def dest: mapped_v4_inj)

subsection \<open>Properties\<close>


text \<open>An empty mask is taken for the prefix length 0, under which every two IPv4 addresses match.\<close>

lemma empty_mask_matches_all:
  "a \<noteq> [] \<Longrightarrow> b \<noteq> [] \<Longrightarrow> inet_aton p a = Some x \<Longrightarrow> inet_aton p b = Some y \<Longrightarrow> network_addr_match p a b (Some [])"
  by (simp add: network_addr_match_def v4_mask_def strtoul_def)

definition demo_parsers :: addr_parsers where
  "demo_parsers = \<lparr>inet_aton = (\<lambda>s. if s = ''10.1.2.3'' then Some 0x0a010203 else if s = ''10.1.9.9'' then Some 0x0a010909 else None),
     inet_pton6 = (\<lambda>s. None)\<rparr>"


end
