(* ===== verification/Portable_Inet.thy ===== *)
theory Portable_Inet
  imports Addresses
begin

text \<open>
  The replacements for missing functions of the C library that parse and print
  IPv4 addresses: \<^verbatim>\<open>src/portable/inet_aton.c\<close>, \<^verbatim>\<open>src/portable/inet_ntoa.c\<close> and
  \<^verbatim>\<open>src/portable/inet_ntop.c\<close>. Addresses are words in host order.
\<close>

subsection \<open>Parsing\<close>

text \<open>The switch over the digits.\<close>

definition digit_of :: "char \<Rightarrow> nat option" where
  "digit_of c =
     (let n = of_char c :: nat
      in if 48 \<le> n \<and> n \<le> 57 then Some (n - 48)
         else if 65 \<le> n \<and> n \<le> 70 then Some (n - 55)
         else if 97 \<le> n \<and> n \<le> 102 then Some (n - 87)
         else None)"

text \<open>The digits of a part up to a period; \<open>oct\<close> is an \<open>unsigned int\<close>.\<close>

fun aton_digits :: "nat \<Rightarrow> nat \<Rightarrow> string \<Rightarrow> (nat \<times> string) option" where
  "aton_digits base oct [] = Some (oct, [])"
| "aton_digits base oct (c # cs) =
     (if c = CHR ''.'' then Some (oct, c # cs)
      else if oct > 0xffffffff div base then None
      else case digit_of c of
             None \<Rightarrow> None
           | Some i \<Rightarrow> if i \<ge> base then None else aton_digits base ((oct * base + i) mod 2 ^ 32) cs)"

definition aton_base :: "string \<Rightarrow> nat \<times> string" where
  "aton_base s =
     (if s \<noteq> [] \<and> hd s = CHR ''0'' then
        if tl s \<noteq> [] \<and> hd (tl s) = CHR ''x'' then (16, tl (tl s)) else (8, tl s)
      else (10, s))"

lemma aton_digits_rest: "aton_digits base oct s = Some (n, rest) \<Longrightarrow> length rest \<le> length s"
  by (induction base oct s rule: aton_digits.induct) (auto split: if_split_asm option.split_asm)

lemma aton_base_rest: "length (snd (aton_base s)) \<le> length s"
  by (auto simp: aton_base_def)

lemma aton_step:
  assumes "(base, p) = aton_base s" "aton_digits base 0 p = Some (n, rest)" "rest \<noteq> []"
  shows "length rest - Suc 0 < length s"
  using aton_digits_rest [OF assms(2)] aton_base_rest [of s] assms(3) by (cases rest) (simp_all flip: assms(1))

function aton_parts :: "nat \<Rightarrow> nat list \<Rightarrow> string \<Rightarrow> nat list option" where
  "aton_parts part octets s =
     (if s = [] then Some octets
      else if part > 3 then None
      else case aton_base s of (base, p) \<Rightarrow>
        if p \<noteq> [] \<and> hd p = CHR ''.'' \<and> base \<noteq> 8 then None
        else case aton_digits base 0 p of
               None \<Rightarrow> None
             | Some (oct, rest) \<Rightarrow>
                 if rest \<noteq> [] then
                   if tl rest = [] then None else aton_parts (part + 1) (octets @ [oct]) (tl rest)
                 else aton_parts (part + 1) (octets @ [oct]) [])"
  by pat_completeness auto
termination
  by (relation "measure (\<lambda>(part, octets, s). length s)") (auto dest: aton_step)

declare aton_parts.simps [simp del]

text \<open>All parts but the last are octets; the last one is the rest of the address.\<close>

fun aton_join :: "nat \<Rightarrow> u32 \<Rightarrow> nat list \<Rightarrow> u32 option" where
  "aton_join i address [] = None"
| "aton_join i address [oct] =
     (if oct > 0xffffffff div 2 ^ (i * 8) then None else Some (address OR of_nat oct))"
| "aton_join i address (oct # octs) =
     (if oct > 0xff then None
      else aton_join (i + 1) (address OR push_bit (8 * (3 - i)) (of_nat oct)) octs)"

definition inet_aton_portable :: "string \<Rightarrow> u32 option" where
  "inet_aton_portable s =
     (case aton_parts 0 [] s of
        None \<Rightarrow> None
      | Some octets \<Rightarrow> if octets = [] then None else aton_join 0 0 octets)"

subsection \<open>Printing\<close>

definition octet_at :: "nat \<Rightarrow> u32 \<Rightarrow> nat" where
  "octet_at i x = unat (take_bit 8 (drop_bit (8 * (3 - i)) x))"

definition inet_ntoa :: "u32 \<Rightarrow> string" where
  "inet_ntoa x =
     show_nat (octet_at 0 x) @ ''.'' @ show_nat (octet_at 1 x) @ ''.'' @ show_nat (octet_at 2 x) @ ''.''
       @ show_nat (octet_at 3 x)"

text \<open>Only IPv4 is supported; the size must be that of the longest address in any case.\<close>

definition INET_ADDRSTRLEN :: nat where "INET_ADDRSTRLEN = 16"

definition inet_ntop_portable :: "bool \<Rightarrow> u32 \<Rightarrow> nat \<Rightarrow> string option" where
  "inet_ntop_portable is_inet x sz =
     (if \<not> is_inet then None
      else if sz < INET_ADDRSTRLEN then None
      else if length (inet_ntoa x) \<ge> sz then None
      else Some (inet_ntoa x))"

subsection \<open>Lemmas\<close>

lemma digit_of_decimal [simp]: "k < 10 \<Longrightarrow> digit_of (char_of (48 + k)) = Some k"
  by (simp add: digit_of_def Let_def)

lemma decimal_no_period [simp]: "(k :: nat) < 10 \<Longrightarrow> char_of (48 + k) \<noteq> CHR ''.''"
proof
  assume "k < 10" "char_of (48 + k) = CHR ''.''"
  then have "(of_char (char_of (48 + k)) :: nat) = of_char (CHR ''.'')" by simp
  with \<open>k < 10\<close> show False by simp
qed

lemma aton_digits_show:
  "n < 2 ^ 32 \<Longrightarrow> aton_digits 10 0 (show_nat n @ rest) = aton_digits 10 n rest"
proof (induction n arbitrary: rest rule: show_nat.induct)
  case (1 n)
  show ?case
  proof (cases "n < 10")
    case True
    then show ?thesis by (simp add: show_nat.simps [of n])
  next
    case False
    obtain d q where d: "d = n mod 10" "q = n div 10" "d < 10" by simp
    then have m: "q \<le> 0xffffffff div 10" "q * 10 + d = n" "n mod 2 ^ 32 = n"
      using 1(2) by (auto intro: div_le_mono)
    have "aton_digits 10 0 (show_nat n @ rest) = aton_digits 10 0 (show_nat q @ char_of (48 + d) # rest)"
      using False d by (simp add: show_nat.simps [of n])
    also have "\<dots> = aton_digits 10 q (char_of (48 + d) # rest)"
      using 1(1) [OF False] 1(2) d by simp
    also have "\<dots> = aton_digits 10 n rest"
      using m(1,3) decimal_no_period [OF d(3)] digit_of_decimal [OF d(3)] d(3) unfolding m(2) [symmetric] by simp
    finally show ?thesis .
  qed
qed

lemma show_nat_head:
  "n \<noteq> 0 \<Longrightarrow> \<exists>c cs. show_nat n = c # cs \<and> c \<noteq> CHR ''0'' \<and> c \<noteq> CHR ''.''"
proof (induction n rule: show_nat.induct)
  case (1 n)
  show ?case
  proof (cases "n < 10")
    case True
    then have "char_of (48 + n) \<noteq> CHR ''0''" using 1(2) by (auto dest: arg_cong [where f = "of_char :: char \<Rightarrow> nat"])
    with True show ?thesis by (simp add: show_nat.simps [of n])
  next
    case False
    then have "n div 10 \<noteq> 0" by simp
    with 1(1) False show ?thesis by (auto simp: show_nat.simps [of n])
  qed
qed

text \<open>One part of a printed address.\<close>

lemma aton_parts_show:
  assumes "n < 2 ^ 32" "part \<le> 3"
  shows "aton_parts part octets (show_nat n) = aton_parts (part + 1) (octets @ [n]) []"
    "s \<noteq> [] \<Longrightarrow> aton_parts part octets (show_nat n @ CHR ''.'' # s) = aton_parts (part + 1) (octets @ [n]) s"
proof -
  have r: "aton_base (show_nat n @ rest) = (if n = 0 then (8, rest) else (10, show_nat n @ rest))"
    if "rest = [] \<or> hd rest = CHR ''.''" for rest
  proof (cases "n = 0")
    case True
    have "char_of (48 :: nat) = CHR ''0''" by code_simp
    with True show ?thesis using that by (cases rest) (auto simp: aton_base_def show_nat.simps [of 0])
  next
    case False
    then obtain c cs where "show_nat n = c # cs" "c \<noteq> CHR ''0''" using show_nat_head by blast
    with False show ?thesis by (simp add: aton_base_def)
  qed
  have ne: "show_nat n @ rest \<noteq> []" for rest by (simp add: show_nat.simps [of n])
  have d: "aton_digits 10 0 (show_nat n @ rest) = Some (n, rest)" if "rest = [] \<or> hd rest = CHR ''.''" for rest
    using aton_digits_show [OF assms(1), of rest] that by (cases rest) auto
  have hd: "n \<noteq> 0 \<Longrightarrow> hd (show_nat n @ rest) \<noteq> CHR ''.''" for rest using show_nat_head [of n] by auto
  show "aton_parts part octets (show_nat n) = aton_parts (part + 1) (octets @ [n]) []"
    using r [of "[]"] ne [of "[]"] d [of "[]"] hd [of "[]"] assms(2) by (subst aton_parts.simps) auto
  show "aton_parts part octets (show_nat n @ CHR ''.'' # s) = aton_parts (part + 1) (octets @ [n]) s" if "s \<noteq> []"
    using r [of "CHR ''.'' # s"] ne [of "CHR ''.'' # s"] d [of "CHR ''.'' # s"] hd [of "CHR ''.'' # s"] assms(2) that
    by (subst aton_parts.simps) auto
qed

text \<open>The octets of an address, and the address put together from them.\<close>

lemma octet_at_bound: "octet_at i x < 256"
  unfolding octet_at_def unsigned_take_bit_eq using take_bit_nat_less_exp [of 8] by simp

lemma octet_at_word: "(of_nat (octet_at i x) :: u32) = take_bit 8 (drop_bit (8 * (3 - i)) x)"
  by (simp add: octet_at_def)

lemma octets_joined:
  "push_bit 24 (take_bit 8 (drop_bit 24 x)) OR push_bit 16 (take_bit 8 (drop_bit 16 x))
     OR push_bit 8 (take_bit 8 (drop_bit 8 x)) OR take_bit 8 x = x" for x :: u32
proof (rule bit_word_eqI)
  fix n assume n: "n < LENGTH(32)"
  consider "n < 8" | "8 \<le> n" "n < 16" | "16 \<le> n" "n < 24" | "24 \<le> n" using n by linarith
  then show "bit (push_bit 24 (take_bit 8 (drop_bit 24 x)) OR push_bit 16 (take_bit 8 (drop_bit 16 x))
     OR push_bit 8 (take_bit 8 (drop_bit 8 x)) OR take_bit 8 x) n = bit x n"
    using n by cases (auto simp: bit_simps)
qed

subsection \<open>Round trips\<close>

text \<open>Every address is read back as it was printed, and printing always fits its buffers.\<close>

lemma inet_aton_ntoa: "inet_aton_portable (inet_ntoa x) = Some x"
proof -
  let ?o = "\<lambda>i. octet_at i x"
  have b: "?o i < 4294967296" for i using octet_at_bound [of i x] by simp
  have ne: "show_nat n @ s \<noteq> []" for n s by (simp add: show_nat.simps [of n])
  have "aton_parts 0 [] (inet_ntoa x) = Some [?o 0, ?o 1, ?o 2, ?o 3]"
    unfolding inet_ntoa_def using ne [of _ "[]"]
    by (simp add: aton_parts_show b ne aton_parts.simps [of _ _ "[]"])
  moreover have "aton_join 0 0 [?o 0, ?o 1, ?o 2, ?o 3] = Some x"
    using octet_at_bound [of 0 x] octet_at_bound [of 1 x] octet_at_bound [of 2 x] octet_at_bound [of 3 x]
      octets_joined [of x] by (simp add: octet_at_word not_less or.assoc)
  ultimately show ?thesis by (simp add: inet_aton_portable_def)
qed

lemma show_octet_length: "n < 256 \<Longrightarrow> length (show_nat n) \<le> 3"
proof -
  have s: "n < 10 \<Longrightarrow> length (show_nat n) = 1" for n by (simp add: show_nat.simps [of n])
  have t: "n < 100 \<Longrightarrow> length (show_nat n) \<le> 2" for n
    using s [of "n div 10"] s [of n] by (cases "n < 10") (auto simp: show_nat.simps [of n])
  show "n < 256 \<Longrightarrow> ?thesis"
    using t [of "n div 10"] s [of n] by (cases "n < 10") (auto simp: show_nat.simps [of n])
qed

lemma inet_ntoa_length: "length (inet_ntoa x) < INET_ADDRSTRLEN"
  using show_octet_length [OF octet_at_bound, of 0 x] show_octet_length [OF octet_at_bound, of 1 x]
    show_octet_length [OF octet_at_bound, of 2 x] show_octet_length [OF octet_at_bound, of 3 x]
  by (simp add: inet_ntoa_def INET_ADDRSTRLEN_def)

lemma inet_aton_ntop:
  "inet_ntop_portable True x sz = (if sz < INET_ADDRSTRLEN then None else Some (inet_ntoa x))"
  using inet_ntoa_length [of x] by (simp add: inet_ntop_portable_def)

text \<open>Matching printed addresses with this parser.\<close>

lemma portable_match:
  "inet_aton p = inet_aton_portable \<Longrightarrow> network_addr_match p (inet_ntoa x) (inet_ntoa y) None \<longleftrightarrow> x = y"
proof -
  assume p: "inet_aton p = inet_aton_portable"
  have ne: "inet_ntoa z \<noteq> []" for z by (simp add: inet_ntoa_def)
  show ?thesis
    using v4_mask_match [where p = p and msk = None and x = x and y = y] by (simp add: network_addr_match_def ne p inet_aton_ntoa)
qed

text \<open>The check before the multiplication misses decimal numbers that overflow with their last digit.\<close>

lemma inet_aton_wraps: "inet_aton_portable ''4294967296'' = Some 0"
  by (simp add: inet_aton_portable_def aton_parts.simps aton_base_def digit_of_def)

end
