(* ===== verification/Resolver.thy ===== *)
theory Resolver
  imports Portable_Inet
begin

text \<open>
  The replacements for the resolver: \<^verbatim>\<open>src/portable/getaddrinfo.c\<close> and
  \<^verbatim>\<open>src/portable/getnameinfo.c\<close>, IPv4 only.

  The databases of hosts and services are parameters, as is the parser of addresses,
  which may be the one of the C library or that of \<open>Portable_Inet\<close>. Addresses are
  words in host order and ports words of 16 bits; \<open>htons\<close> swaps the octets. Allocation succeeds,
  so \<open>EAI_MEMORY\<close> does not occur. The linked list of results is a list.
\<close>

subsection \<open>Codes and flags\<close>

datatype eai = EAI_AGAIN | EAI_BADFLAGS | EAI_FAIL | EAI_FAMILY | EAI_MEMORY | EAI_NONAME
  | EAI_SERVICE | EAI_SOCKTYPE | EAI_SYSTEM | EAI_OVERFLOW

primrec eai_number :: "eai \<Rightarrow> int" where
  "eai_number EAI_AGAIN = 1" | "eai_number EAI_BADFLAGS = 2" | "eai_number EAI_FAIL = 3"
| "eai_number EAI_FAMILY = 4" | "eai_number EAI_MEMORY = 5" | "eai_number EAI_NONAME = 6"
| "eai_number EAI_SERVICE = 7" | "eai_number EAI_SOCKTYPE = 8" | "eai_number EAI_SYSTEM = 9"
| "eai_number EAI_OVERFLOW = 10"

definition gai_errors :: "string list" where
  "gai_errors = [''Host name lookup failure'', ''Invalid flag value'', ''Unknown server error'',
     ''Unsupported address family'', ''Memory allocation failure'', ''Host unknown or not given'',
     ''Service not supported for socket'', ''Unsupported socket type'', ''System error'',
     ''Supplied buffer too small'']"

definition gai_strerror :: "int \<Rightarrow> string" where
  "gai_strerror ecode =
     (if ecode < 1 \<or> ecode > int (length gai_errors) then ''Unknown error''
      else gai_errors ! nat (ecode - 1))"

definition AI_PASSIVE :: u32 where "AI_PASSIVE = 0x1"
definition AI_CANONNAME :: u32 where "AI_CANONNAME = 0x2"
definition AI_NUMERICHOST :: u32 where "AI_NUMERICHOST = 0x4"
definition AI_NUMERICSERV :: u32 where "AI_NUMERICSERV = 0x8"
definition AI_INTERNAL_ALL :: u32 where "AI_INTERNAL_ALL = 0x7f"

definition NI_NUMERICHOST :: u32 where "NI_NUMERICHOST = 0x2"
definition NI_NAMEREQD :: u32 where "NI_NAMEREQD = 0x4"
definition NI_NUMERICSERV :: u32 where "NI_NUMERICSERV = 0x8"
definition NI_DGRAM :: u32 where "NI_DGRAM = 0x10"

lemmas resolver_flags = AI_PASSIVE_def AI_CANONNAME_def AI_NUMERICHOST_def AI_NUMERICSERV_def AI_INTERNAL_ALL_def
  NI_NUMERICHOST_def NI_NAMEREQD_def NI_NUMERICSERV_def NI_DGRAM_def

text \<open>The numbers of the platform for families, types of sockets and protocols.\<close>

definition AF_UNSPEC :: nat where "AF_UNSPEC = 0"
definition AF_INET :: nat where "AF_INET = 2"
definition SOCK_STREAM :: nat where "SOCK_STREAM = 1"
definition SOCK_DGRAM :: nat where "SOCK_DGRAM = 2"
definition IPPROTO_TCP :: nat where "IPPROTO_TCP = 6"
definition IPPROTO_UDP :: nat where "IPPROTO_UDP = 17"

lemmas platform_numbers = AF_UNSPEC_def AF_INET_def SOCK_STREAM_def SOCK_DGRAM_def IPPROTO_TCP_def IPPROTO_UDP_def

definition htons :: "16 word \<Rightarrow> 16 word" where
  "htons x = push_bit 8 x OR drop_bit 8 x"

subsection \<open>The databases\<close>

record servent =
  s_name :: string
  s_port :: int
  s_proto :: string

record hostent =
  h_name :: "string option"
  h_aliases :: "string list"
  h_length :: nat
  h_addr_list :: "u32 list"

datatype h_errno = HOST_NOT_FOUND | TRY_AGAIN | NO_RECOVERY | NO_DATA | NETDB_INTERNAL | H_OTHER int

record databases =
  db_aton :: "string \<Rightarrow> u32 option"
  getservbyname :: "string \<Rightarrow> string option \<Rightarrow> servent option"
  getservbyport :: "16 word \<Rightarrow> string \<Rightarrow> servent option"
  gethostbyname :: "string \<Rightarrow> h_errno + hostent"
  gethostbyaddr :: "u32 \<Rightarrow> hostent option"

subsection \<open>getaddrinfo\<close>

record addrinfo =
  ai_flags :: u32
  ai_family :: nat
  ai_socktype :: nat
  ai_protocol :: nat
  ai_canonname :: "string option"
  sin_addr :: u32
  sin_port :: "16 word"

definition convert_service :: "string \<Rightarrow> int option" where
  "convert_service s =
     (if s = [] then None
      else case strtol s of (v, rest, erange) \<Rightarrow> if erange \<or> rest \<noteq> [] \<or> v < 0 then None else Some v)"

definition gai_addrinfo_new :: "nat \<Rightarrow> string option \<Rightarrow> u32 \<Rightarrow> 16 word \<Rightarrow> addrinfo" where
  "gai_addrinfo_new socktype canon addr prt =
     \<lparr>ai_flags = 0, ai_family = AF_INET, ai_socktype = socktype,
      ai_protocol = (if socktype = SOCK_DGRAM then IPPROTO_UDP else IPPROTO_TCP),
      ai_canonname = canon, sin_addr = addr, sin_port = htons prt\<rparr>"

text \<open>The port, and the type of socket, which the database may fill in.\<close>

definition gai_service :: "databases \<Rightarrow> string \<Rightarrow> u32 \<Rightarrow> nat \<Rightarrow> eai + nat \<times> 16 word" where
  "gai_service db servname fl typ =
     (case convert_service servname of
        Some v \<Rightarrow> if v > 2 ^ 16 - 1 then Inl EAI_SERVICE else Inr (typ, word_of_int v)
      | None \<Rightarrow>
          if fl AND AI_NUMERICSERV \<noteq> 0 then Inl EAI_NONAME
          else
            let proto = (if typ \<noteq> 0 then Some (if typ = SOCK_DGRAM then ''udp'' else ''tcp'') else None)
            in case getservbyname db servname proto of
                 None \<Rightarrow> Inl EAI_NONAME
               | Some se \<Rightarrow>
                   if s_proto se = ''udp'' \<or> s_proto se = ''tcp'' then
                     if s_port se > 2 ^ 16 - 1 then Inl EAI_SERVICE
                     else Inr (if s_proto se = ''udp'' then SOCK_DGRAM else SOCK_STREAM,
                               htons (word_of_int (s_port se)))
                   else Inl EAI_SERVICE)"

primrec host_error :: "h_errno \<Rightarrow> eai" where
  "host_error HOST_NOT_FOUND = EAI_NONAME"
| "host_error TRY_AGAIN = EAI_AGAIN"
| "host_error NO_DATA = EAI_AGAIN"
| "host_error NO_RECOVERY = EAI_FAIL"
| "host_error NETDB_INTERNAL = EAI_SYSTEM"
| "host_error (H_OTHER n) = EAI_SYSTEM"

text \<open>One result per address; an address of another length ends the loop.\<close>

primrec host_loop ::
  "nat \<Rightarrow> nat \<Rightarrow> string option \<Rightarrow> 16 word \<Rightarrow> u32 list \<Rightarrow> addrinfo list \<Rightarrow> eai + addrinfo list" where
  "host_loop hlen socktype canon prt [] acc = Inr acc"
| "host_loop hlen socktype canon prt (a # as) acc =
     (if hlen \<noteq> 4 then Inl EAI_FAIL
      else host_loop hlen socktype canon prt as (acc @ [gai_addrinfo_new socktype canon a prt]))"

definition gai_lookup :: "databases \<Rightarrow> string \<Rightarrow> u32 \<Rightarrow> nat \<Rightarrow> 16 word \<Rightarrow> eai + addrinfo list" where
  "gai_lookup db nodename fl socktype prt =
     (case db_aton db nodename of
        Some addr \<Rightarrow>
          Inr [gai_addrinfo_new socktype (if fl AND AI_CANONNAME \<noteq> 0 then Some nodename else None) addr prt]
      | None \<Rightarrow>
          if fl AND AI_NUMERICHOST \<noteq> 0 then Inl EAI_NONAME
          else case gethostbyname db nodename of
                 Inl he \<Rightarrow> Inl (host_error he)
               | Inr ho \<Rightarrow>
                   if h_addr_list ho = [] then Inl EAI_FAIL
                   else
                     let canon = (if fl AND AI_CANONNAME \<noteq> 0
                                      then Some (case h_name ho of Some nm \<Rightarrow> nm | None \<Rightarrow> nodename) else None)
                     in host_loop (h_length ho) socktype canon prt (h_addr_list ho) [])"

definition check_hints :: "addrinfo option \<Rightarrow> eai + u32 \<times> nat" where
  "check_hints hints =
     (case hints of
        None \<Rightarrow> Inr (0, 0)
      | Some hi \<Rightarrow>
          if ai_flags hi AND AI_INTERNAL_ALL \<noteq> ai_flags hi then Inl EAI_BADFLAGS
          else if ai_family hi \<noteq> AF_UNSPEC \<and> ai_family hi \<noteq> AF_INET then Inl EAI_FAMILY
          else if ai_socktype hi \<noteq> 0 \<and> ai_socktype hi \<noteq> SOCK_STREAM \<and> ai_socktype hi \<noteq> SOCK_DGRAM
          then Inl EAI_SOCKTYPE
          else if ai_protocol hi \<noteq> 0 \<and> ai_protocol hi \<noteq> IPPROTO_TCP \<and> ai_protocol hi \<noteq> IPPROTO_UDP
          then Inl EAI_SOCKTYPE
          else Inr (ai_flags hi, ai_socktype hi))"

definition getaddrinfo ::
  "databases \<Rightarrow> string option \<Rightarrow> string option \<Rightarrow> addrinfo option \<Rightarrow> eai + addrinfo list" where
  "getaddrinfo db nodename servname hints =
     (case check_hints hints of
        Inl e \<Rightarrow> Inl e
      | Inr (fl, socktype) \<Rightarrow>
          (case (case servname of None \<Rightarrow> Inr (socktype, 0) | Some s \<Rightarrow> gai_service db s fl socktype) of
             Inl e \<Rightarrow> Inl e
           | Inr (socktype1, prt) \<Rightarrow>
               (case nodename of
                  Some node \<Rightarrow> gai_lookup db node fl socktype1 prt
                | None \<Rightarrow>
                    if servname = None then Inl EAI_NONAME
                    else Inr [gai_addrinfo_new socktype1 None
                                (if fl AND AI_PASSIVE = AI_PASSIVE then 0 else 0x7f000001) prt])))"

subsection \<open>getnameinfo\<close>

text \<open>A text that is stored in a buffer of \<open>len\<close> octets with its nul.\<close>

definition store_name :: "string \<Rightarrow> nat \<Rightarrow> eai + string" where
  "store_name name len = (if length name + 1 > len then Inl EAI_OVERFLOW else Inr name)"

text \<open>\<open>None\<close> for a name that is not fully qualified or is an address in text form.\<close>

definition try_name :: "string \<Rightarrow> nat \<Rightarrow> (eai + string) option" where
  "try_name name nodelen =
     (if strchr name (CHR ''.'') = None then None
      else if \<not> (\<exists>ch \<in> set name. \<not> isdigit ch \<and> ch \<noteq> CHR ''.'') then None
      else Some (store_name name nodelen))"

primrec try_names :: "string list \<Rightarrow> nat \<Rightarrow> (eai + string) option" where
  "try_names [] nodelen = None"
| "try_names (nm # nms) nodelen = (case try_name nm nodelen of Some r \<Rightarrow> Some r | None \<Rightarrow> try_names nms nodelen)"

text \<open>A host without a name would be read through a null pointer; \<open>gethostbyaddr\<close> always sets one.\<close>

definition lookup_name :: "databases \<Rightarrow> u32 \<Rightarrow> nat \<Rightarrow> u32 \<Rightarrow> eai + string" where
  "lookup_name db addr nodelen fl =
     (let ascii = store_name (inet_ntoa addr) nodelen
      in if fl AND NI_NUMERICHOST = 0 then
           (case gethostbyaddr db addr of
              None \<Rightarrow> if fl AND NI_NAMEREQD \<noteq> 0 then Inl EAI_NONAME else ascii
            | Some ho \<Rightarrow>
                (case try_names ((case h_name ho of Some nm \<Rightarrow> [nm] | None \<Rightarrow> []) @ h_aliases ho) nodelen of
                   Some r \<Rightarrow> r
                 | None \<Rightarrow> if fl AND NI_NAMEREQD \<noteq> 0 then Inl EAI_NONAME else ascii))
         else ascii)"

definition lookup_service :: "databases \<Rightarrow> 16 word \<Rightarrow> nat \<Rightarrow> u32 \<Rightarrow> eai + string" where
  "lookup_service db prt servicelen fl =
     (let ascii = (if length (show_nat (unat prt)) \<ge> servicelen then Inl EAI_OVERFLOW
                   else Inr (show_nat (unat prt)))
      in if fl AND NI_NUMERICSERV = 0 then
           (case getservbyport db (htons prt) (if fl AND NI_DGRAM \<noteq> 0 then ''udp'' else ''tcp'') of
              Some se \<Rightarrow> store_name (s_name se) servicelen
            | None \<Rightarrow> ascii)
         else ascii)"

text \<open>
  A missing buffer has length 0 here, which the code treats alike. The result is
  what is stored in each of the two buffers.
\<close>

definition getnameinfo ::
  "databases \<Rightarrow> nat \<Rightarrow> u32 \<Rightarrow> 16 word \<Rightarrow> nat \<Rightarrow> nat \<Rightarrow> u32 \<Rightarrow> eai + string option \<times> string option" where
  "getnameinfo db family addr prt nodelen servicelen fl =
     (if nodelen = 0 \<and> servicelen = 0 then Inl EAI_NONAME
      else if family \<noteq> AF_INET then Inl EAI_FAMILY
      else case (if nodelen > 0 then map_sum id Some (lookup_name db addr nodelen fl) else Inr None) of
             Inl e \<Rightarrow> Inl e
           | Inr node \<Rightarrow>
               if servicelen > 0
               then map_sum id (\<lambda>s. (node, Some s)) (lookup_service db (htons prt) servicelen fl)
               else Inr (node, None))"

subsection \<open>Properties\<close>

lemma eai_text: "gai_strerror (eai_number e) \<in> set gai_errors" "inj (\<lambda>e. gai_strerror (eai_number e))"
proof -
  show "gai_strerror (eai_number e) \<in> set gai_errors" by (cases e) (simp_all add: gai_strerror_def gai_errors_def)
  show "inj (\<lambda>e. gai_strerror (eai_number e))"
  proof (rule injI)
    fix a b assume "gai_strerror (eai_number a) = gai_strerror (eai_number b)"
    then show "a = b" by (cases a; cases b) (simp_all add: gai_strerror_def gai_errors_def)
  qed
qed

lemma htons_htons [simp]: "htons (htons x) = x"
  unfolding htons_def by (rule bit_word_eqI) (auto simp: bit_simps)

text \<open>Decimal numbers are read back.\<close>

lemma digits_value_append: "digits_value acc (show_nat n @ rest) = digits_value (acc * 10 ^ length (show_nat n) + n) rest"
proof (induction n arbitrary: acc rest rule: show_nat.induct)
  case (1 n)
  have d: "isdigit (char_of (48 + k)) \<and> (of_char (char_of (48 + k)) :: nat) - 48 = k" if "k < 10" for k :: nat
    using that by (simp add: isdigit_def)
  show ?case
  proof (cases "n < 10")
    case True
    then show ?thesis using d [of n] by (simp add: show_nat.simps [of n] mult.commute)
  next
    case False
    have m: "n mod 10 < 10" by simp
    have "digits_value acc (show_nat n @ rest)
        = digits_value (acc * 10 ^ length (show_nat (n div 10)) + n div 10) (char_of (48 + n mod 10) # rest)"
      using 1 [OF False, of acc "char_of (48 + n mod 10) # rest"] False by (simp add: show_nat.simps [of n])
    also have "\<dots> = digits_value (10 * (acc * 10 ^ length (show_nat (n div 10)) + n div 10) + n mod 10) rest"
      using d [OF m] by simp
    also have "10 * (acc * 10 ^ length (show_nat (n div 10)) + n div 10) + n mod 10
        = acc * 10 ^ length (show_nat n) + n"
      using False by (simp add: show_nat.simps [of n] algebra_simps)
    finally show ?thesis .
  qed
qed

lemma show_nat_digits: "ch \<in> set (show_nat n) \<Longrightarrow> isdigit ch"
proof (induction n rule: show_nat.induct)
  case (1 n)
  have "isdigit (char_of (48 + k))" if "k < 10" for k :: nat using that by (simp add: isdigit_def)
  then show ?case using 1 by (cases "n < 10") (auto simp: show_nat.simps [of n])
qed

lemma strtol_show:
  assumes "int n \<le> LONG_MAX"
  shows "strtol (show_nat n) = (int n, [], False)"
proof -
  have "show_nat n \<noteq> []" by (simp add: show_nat.simps [of n])
  then obtain c cs where c: "show_nat n = c # cs" by (cases "show_nat n") auto
  have dg: "isdigit c" using show_nat_digits [of c n] c by simp
  then have "\<not> isspace c" "c \<noteq> CHR ''-''" "c \<noteq> CHR ''+''"
    by (auto simp: isdigit_def isspace_def Let_def)
  then show ?thesis
    using c dg digits_value_append [of 0 n "[]"] assms by (simp add: strtol_def Let_def LONG_MAX_def)
qed

lemma show_nat_length_5:
  assumes "n < 65536"
  shows "length (show_nat n) \<le> 5"
proof -
  have s: "length (show_nat m) \<le> Suc (length (show_nat (m div 10)))" for m
    by (cases "m < 10") (simp_all add: show_nat.simps [of m])
  have "n div 10 div 10 < 1000" using assms by simp
  then have "n div 10 div 10 div 10 < 100" "n div 10 div 10 div 10 div 10 < 10" using assms by simp_all
  then have "length (show_nat (n div 10 div 10 div 10 div 10)) = 1" by (simp add: show_nat.simps [of "n div 10 div 10 div 10 div 10"])
  with s [of n] s [of "n div 10"] s [of "n div 10 div 10"] s [of "n div 10 div 10 div 10"] show ?thesis by linarith
qed


definition demo_databases :: databases where
  "demo_databases = \<lparr>db_aton = inet_aton_portable, getservbyname = (\<lambda>n p. None), getservbyport = (\<lambda>n p. None),
     gethostbyname = (\<lambda>n. Inl HOST_NOT_FOUND), gethostbyaddr = (\<lambda>a. None)\<rparr>"


text \<open>With \<open>NI_NAMEREQD\<close> the result is never an address in text form.\<close>

lemma strchr_mem: "strchr s c \<noteq> None \<Longrightarrow> c \<in> set s"
proof (rule ccontr)
  assume "strchr s c \<noteq> None" "c \<notin> set s"
  moreover from this(2) have "dropWhile (\<lambda>x. x \<noteq> c) s = []" by (induction s) auto
  ultimately show False by (simp add: strchr_def)
qed

lemma try_name_qualified:
  assumes "try_name name len = Some (Inr nm)"
  shows "nm = name \<and> CHR ''.'' \<in> set nm \<and> (\<exists>ch \<in> set nm. \<not> isdigit ch \<and> ch \<noteq> CHR ''.'') \<and> length nm < len"
proof -
  from assms have "strchr name (CHR ''.'') \<noteq> None" "\<exists>ch \<in> set name. \<not> isdigit ch \<and> ch \<noteq> CHR ''.''"
    "store_name name len = Inr nm" by (simp_all only: try_name_def split: if_split_asm) auto
  then show ?thesis using strchr_mem by (auto simp: store_name_def split: if_splits)
qed

lemma try_names_qualified:
  "try_names nms len = Some (Inr nm) \<Longrightarrow>
     nm \<in> set nms \<and> CHR ''.'' \<in> set nm \<and> (\<exists>ch \<in> set nm. \<not> isdigit ch \<and> ch \<noteq> CHR ''.'') \<and> length nm < len"
proof (induction nms)
  case (Cons a nms)
  show ?case
  proof (cases "try_name a len")
    case None
    then show ?thesis using Cons by simp
  next
    case (Some r)
    then show ?thesis using Cons.prems try_name_qualified [of a len nm] by auto
  qed
qed simp

lemma lookup_name_required:
  assumes "lookup_name db addr len fl = Inr nm" "fl AND NI_NAMEREQD \<noteq> 0" "fl AND NI_NUMERICHOST = 0"
  shows "CHR ''.'' \<in> set nm \<and> (\<exists>ch \<in> set nm. \<not> isdigit ch \<and> ch \<noteq> CHR ''.'') \<and> length nm < len"
proof -
  from assms obtain ho where ho: "gethostbyaddr db addr = Some ho"
    by (cases "gethostbyaddr db addr") (simp_all add: lookup_name_def)
  let ?nms = "(case h_name ho of Some nm \<Rightarrow> [nm] | None \<Rightarrow> []) @ h_aliases ho"
  have "try_names ?nms len = Some (Inr nm)"
    using assms ho by (cases "try_names ?nms len") (simp_all add: lookup_name_def)
  from try_names_qualified [OF this] show ?thesis by blast
qed

text \<open>The results of a lookup: one or more, all for IPv4, with one port and one type of socket.\<close>

lemma host_loop_result:
  "host_loop hlen socktype canon prt as acc = Inr ais \<Longrightarrow>
     ais = acc @ map (\<lambda>a. gai_addrinfo_new socktype canon a prt) as"
proof (induction as arbitrary: acc)
  case (Cons a as)
  then have "host_loop hlen socktype canon prt as (acc @ [gai_addrinfo_new socktype canon a prt]) = Inr ais"
    by (simp split: if_splits)
  from Cons.IH [OF this] show ?case by simp
qed simp

lemma gai_lookup_result:
  assumes "gai_lookup db node fl typ prt = Inr ais"
  shows "ais \<noteq> [] \<and> (\<forall>ai \<in> set ais. ai_family ai = AF_INET \<and> sin_port ai = htons prt \<and> ai_socktype ai = typ)"
proof (cases "db_aton db node")
  case (Some addr)
  then show ?thesis using assms by (auto simp: gai_lookup_def gai_addrinfo_new_def)
next
  case None
  with assms obtain ho :: hostent and canon where "h_addr_list ho \<noteq> []"
    "host_loop (h_length ho) typ canon prt (h_addr_list ho) [] = Inr ais"
    by (auto simp: gai_lookup_def Let_def split: sum.splits if_split_asm)
  then show ?thesis using host_loop_result by (fastforce simp: gai_addrinfo_new_def)
qed

text \<open>The name of a service may be preceded by spaces and a sign, and 0 is a positive number for it.\<close>

lemma convert_service_loose: "convert_service '' +0'' = Some 0"
  by (simp add: convert_service_def strtol_def ctype_defs LONG_MAX_def)

end
