(* ===== verification/Getopt.thy ===== *)
theory Getopt
  imports Prelude "HOL-Library.Multiset"
begin

text \<open>
  The replacement for \<open>getopt\<close>: \<^verbatim>\<open>src/portable/getopt.c\<close>.

  The global variables and the static one are fields of the state, with the argument
  vector, which the function permutes, and the lines it prints on standard error.
  Characters of strings are read through \<open>char_at\<close>: the nul behind the last one is
  part of the string, and reading beyond it is undefined.
\<close>

subsection \<open>State\<close>

record getopt_state =
  argv :: "string list"
  optind :: nat
  opterr :: bool
  optopt :: char
  optarg :: "string option"
  charind :: nat
  complaints :: "string list"

abbreviation argc :: "getopt_state \<Rightarrow> nat" where "argc st \<equiv> length (argv st)"

definition char_at :: "string \<Rightarrow> nat \<Rightarrow> fault + char" where
  "char_at s i = (if i < length s then Inr (s ! i) else if i = length s then Inr NUL else Inl Undefined)"

definition arg_at :: "getopt_state \<Rightarrow> nat \<Rightarrow> fault + string" where
  "arg_at st i = (if i < argc st then Inr (argv st ! i) else Inl Undefined)"

text \<open>What the beginning of the option string and \<open>POSIXLY_CORRECT\<close> select: offset, mode and colon mode.\<close>

definition getopt_mode :: "bool \<Rightarrow> string \<Rightarrow> nat \<times> char \<times> bool" where
  "getopt_mode posix s =
     (if posix then (0, CHR ''+'', True)
      else
        let sign = (s \<noteq> [] \<and> (hd s = CHR ''+'' \<or> hd s = CHR ''-''));
            off = (if sign then 1 else 0);
            md = (if sign then hd s else NUL)
        in if off < length s \<and> s ! off = CHR '':'' then (off + 1, md, True) else (off, md, False))"

definition dash_word :: "string \<Rightarrow> bool" where
  "dash_word a = (a \<noteq> [] \<and> hd a = CHR ''-'' \<and> tl a \<noteq> [])"

definition complain :: "string \<Rightarrow> getopt_state \<Rightarrow> getopt_state" where
  "complain m st =
     (if opterr st
      then st\<lparr>complaints := complaints st @ [(case argv st of [] \<Rightarrow> [] | a # _ \<Rightarrow> a) @ m @ [optopt st]]\<rparr>
      else st)"

subsection \<open>One option\<close>

text \<open>
  The loop over the option string. A match does not end it: the pointer moves
  behind what was matched, and one further. \<open>True\<close> is the jump to \<open>done\<close>.
\<close>

function (sequential) scan_options ::
  "string \<Rightarrow> bool \<Rightarrow> nat \<Rightarrow> int \<Rightarrow> getopt_state \<Rightarrow> fault + bool \<times> int \<times> getopt_state" where
  "scan_options s colon_mode p option st =
     (if p > length s then Inl Undefined
      else if p = length s \<or> s ! p = NUL then Inr (False, option, st)
      else if s ! p \<noteq> optopt st then scan_options s colon_mode (p + 1) option st
      else
        ebind (char_at s (p + 1)) (\<lambda>c1.
          if c1 \<noteq> CHR '':'' then scan_options s colon_mode (p + 2) (schar (optopt st)) st
          else
            ebind (arg_at st (optind st)) (\<lambda>a.
            ebind (char_at a (charind st + 1)) (\<lambda>d.
              if d \<noteq> NUL then
                scan_options s colon_mode (p + 2) (schar (optopt st))
                  (st\<lparr>optarg := Some (drop (charind st + 1) a), optind := optind st + 1, charind := 0\<rparr>)
              else
                ebind (char_at s (p + 2)) (\<lambda>c2.
                  if c2 \<noteq> CHR '':'' then
                    let st1 = st\<lparr>charind := 0, optind := optind st + 1\<rparr>
                    in if optind st1 \<ge> argc st1 then
                         Inr (True, if colon_mode then schar (CHR '':'') else schar (CHR ''?''),
                              complain '': option requires an argument -- '' st1)
                       else scan_options s colon_mode (p + 3) (schar (optopt st))
                              (st1\<lparr>optarg := Some (argv st1 ! optind st1), optind := optind st1 + 1\<rparr>)
                  else scan_options s colon_mode (p + 3) (schar (optopt st)) st)))))"
  by pat_completeness auto
termination
  by (relation "measure (\<lambda>(s, cm, p, option, st). length s + 3 - p)") auto

declare scan_options.simps [simp del]

text \<open>The label \<open>done\<close>: to the next character, or to the next element behind the last one.\<close>

definition getopt_done :: "int \<Rightarrow> getopt_state \<Rightarrow> fault + int \<times> getopt_state" where
  "getopt_done option st =
     ebind (if charind st \<noteq> 0 then
              ebind (arg_at st (optind st)) (\<lambda>a.
              ebind (char_at a (charind st + 1)) (\<lambda>d.
                Inr (if d = NUL then st\<lparr>optind := optind st + 1, charind := 0\<rparr>
                     else st\<lparr>charind := charind st + 1\<rparr>)))
            else Inr st) (\<lambda>st1.
       Inr (option, if optind st1 > argc st1 then st1\<lparr>optind := argc st1\<rparr> else st1))"

definition getopt_char :: "string \<Rightarrow> nat \<Rightarrow> bool \<Rightarrow> getopt_state \<Rightarrow> fault + int \<times> getopt_state" where
  "getopt_char s off colon_mode st =
     ebind (arg_at st (optind st)) (\<lambda>a.
     ebind (char_at a (charind st)) (\<lambda>c.
     ebind (scan_options s colon_mode off (-1) (st\<lparr>optopt := c\<rparr>)) (\<lambda>(jumped, option, st1).
       if jumped then getopt_done option st1
       else if option = -1
       then getopt_done (schar (CHR ''?'')) (complain '': illegal option -- '' st1)
       else getopt_done option st1)))"

subsection \<open>Permutation\<close>

text \<open>One round: element \<open>i\<close> moves to position \<open>e\<close>, the ones between move down.\<close>

definition move_to :: "nat \<Rightarrow> nat \<Rightarrow> 'a list \<Rightarrow> fault + 'a list" where
  "move_to i e xs =
     (if i < length xs \<and> e < length xs
      then Inr (if i \<le> e then take i xs @ take (e - i) (drop (i + 1) xs) @ [xs ! i] @ drop (e + 1) xs
                else xs[e := xs ! i])
      else Inl Undefined)"

primrec permute_back :: "nat \<Rightarrow> nat \<Rightarrow> getopt_state \<Rightarrow> fault + getopt_state" where
  "permute_back j 0 st = Inr st"
| "permute_back j (Suc n) st =
     (let i = j + n; e = (if charind st = 0 then optind st - 1 else optind st)
      in ebind (move_to i e (argv st)) (\<lambda>xs.
           permute_back j n (st\<lparr>argv := xs, optind := optind st - 1\<rparr>)))"

text \<open>
  The search for the next option, the recursive call on it, and the arguments before it
  moved behind what it used. \<open>rec\<close> is the call.
\<close>

definition permute_search ::
  "(getopt_state \<Rightarrow> fault + int \<times> getopt_state) \<Rightarrow> getopt_state \<Rightarrow> fault + int \<times> getopt_state" where
  "permute_search rec st =
     (case filter (\<lambda>i. dash_word (argv st ! i)) [optind st + 1 ..< argc st] of
        [] \<Rightarrow> Inr (-1, st)
      | i # _ \<Rightarrow>
          ebind (rec (st\<lparr>optind := i\<rparr>)) (\<lambda>(option, st1).
          ebind (permute_back (optind st) (i - optind st) st1) (\<lambda>st2.
            Inr (option, st2))))"

definition getopt_body ::
  "(getopt_state \<Rightarrow> fault + int \<times> getopt_state) \<Rightarrow> bool \<Rightarrow> string \<Rightarrow> getopt_state
     \<Rightarrow> fault + int \<times> getopt_state" where
  "getopt_body rec posix s st0 =
     (case getopt_mode posix s of
        (off, md, colon_mode) \<Rightarrow>
          let st = st0\<lparr>optarg := None\<rparr>
          in if charind st \<noteq> 0 then getopt_char s off colon_mode st
             else if optind st \<ge> argc st then getopt_done (-1) st
             else if argv st ! optind st = ''--'' then getopt_done (-1) (st\<lparr>optind := optind st + 1\<rparr>)
             else if \<not> dash_word (argv st ! optind st) then
               (if md = CHR ''+'' then Inr (-1, st)
                else if md = CHR ''-'' then
                  Inr (1, st\<lparr>optarg := Some (argv st ! optind st), optind := optind st + 1\<rparr>)
                else permute_search rec st)
             else getopt_char s off colon_mode (st\<lparr>charind := 1\<rparr>))"

text \<open>
  The recursive call is made on an element that is an option, so that it makes no
  further one: \<open>getopt_equation\<close> below is the recursive equation of the code.
\<close>

definition getopt_portable :: "bool \<Rightarrow> string \<Rightarrow> getopt_state \<Rightarrow> fault + int \<times> getopt_state" where
  "getopt_portable posix s = getopt_body (getopt_body (\<lambda>st. Inl Stack_exhausted) posix s) posix s"

subsection \<open>The recursion\<close>

lemma getopt_body_option:
  assumes "optind st < argc st" "dash_word (argv st ! optind st)"
  shows "getopt_body r1 posix s st = getopt_body r2 posix s st"
  using assms by (simp add: getopt_body_def Let_def split: prod.splits)

lemma permute_search_cong:
  assumes "\<And>i. i < argc st \<Longrightarrow> dash_word (argv st ! i) \<Longrightarrow> r1 (st\<lparr>optind := i\<rparr>) = r2 (st\<lparr>optind := i\<rparr>)"
  shows "permute_search r1 st = permute_search r2 st"
proof (cases "filter (\<lambda>i. dash_word (argv st ! i)) [optind st + 1 ..< argc st]")
  case (Cons i js)
  then have "i \<in> set (filter (\<lambda>i. dash_word (argv st ! i)) [optind st + 1 ..< argc st])" by simp
  then have "r1 (st\<lparr>optind := i\<rparr>) = r2 (st\<lparr>optind := i\<rparr>)" using assms by simp
  then show ?thesis using Cons by (simp add: permute_search_def)
qed (simp add: permute_search_def)

lemma getopt_equation: "getopt_portable posix s st = getopt_body (getopt_portable posix s) posix s st"
proof -
  let ?r = "getopt_body (\<lambda>st. Inl Stack_exhausted) posix s"
  have "permute_search ?r st1 = permute_search (getopt_portable posix s) st1" for st1
  proof (rule permute_search_cong)
    fix i assume "i < argc st1" "dash_word (argv st1 ! i)"
    then show "?r (st1\<lparr>optind := i\<rparr>) = getopt_portable posix s (st1\<lparr>optind := i\<rparr>)"
      unfolding getopt_portable_def by (intro getopt_body_option) simp_all
  qed
  then have "getopt_body ?r posix s st = getopt_body (getopt_portable posix s) posix s st"
    by (simp add: getopt_body_def [of ?r] getopt_body_def [of "getopt_portable posix s"] Let_def split: prod.split)
  then show ?thesis by (simp add: getopt_portable_def)
qed

subsection \<open>Scanning\<close>

lemma scan_step:
  "p < length s \<Longrightarrow> s ! p \<noteq> NUL \<Longrightarrow> s ! p \<noteq> optopt st \<Longrightarrow>
     scan_options s cm p option st = scan_options s cm (Suc p) option st"
  "p < length s \<Longrightarrow> optopt st \<noteq> NUL \<Longrightarrow> s ! p = optopt st \<Longrightarrow> char_at s (Suc p) = Inr x \<Longrightarrow> x \<noteq> CHR '':'' \<Longrightarrow>
     scan_options s cm p option st = scan_options s cm (p + 2) (schar (optopt st)) st"
  by (subst scan_options.simps; simp)+

lemma scan_miss:
  assumes "optopt st \<notin> set (drop p s)" "p \<le> length s" "NUL \<notin> set s"
  shows "scan_options s cm p option st = Inr (False, option, st)"
  using assms
proof (induction "length s - p" arbitrary: p)
  case 0
  then show ?case by (simp add: scan_options.simps [of s cm p])
next
  case (Suc n)
  then have p: "p < length s" by simp
  then have "drop p s = s ! p # drop (Suc p) s" by (simp add: Cons_nth_drop_Suc)
  with Suc.prems(1) have "s ! p \<noteq> optopt st" "optopt st \<notin> set (drop (p + 1) s)" by auto
  moreover have "s ! p \<noteq> NUL" using Suc.prems(3) p by (metis nth_mem)
  ultimately show ?case using Suc.hyps p Suc.prems(3) scan_step(1) [of p s st cm option] by simp
qed

lemma scan_skip:
  assumes "optopt st \<notin> set t" "NUL \<notin> set t"
  shows "scan_options (pre @ t @ post) cm (length pre) option st
       = scan_options (pre @ t @ post) cm (length pre + length t) option st"
  using assms
proof (induction t arbitrary: pre)
  case (Cons c t)
  then have "scan_options (pre @ (c # t) @ post) cm (length pre) option st
      = scan_options (pre @ (c # t) @ post) cm (length pre + 1) option st"
    by (subst scan_step(1)) auto
  also have "\<dots> = scan_options (pre @ (c # t) @ post) cm (length pre + length (c # t)) option st"
    using Cons.IH [of "pre @ [c]"] Cons.prems by simp
  finally show ?case .
qed simp

text \<open>
  The outcomes of the scan for an option that is listed once: a plain one, one with its argument
  in the same element, one with its argument in the next element, one without its argument.
\<close>

lemma scan_to:
  assumes "c \<notin> set pre" "NUL \<notin> set pre" "optopt st = c" "off \<le> length pre"
  shows "scan_options (pre @ c # post) cm off option st = scan_options (pre @ c # post) cm (length pre) option st"
proof -
  define a b where "a = take off pre" and "b = drop off pre"
  then have ab: "pre = a @ b" "length a = off" using assms(4) by simp_all
  show ?thesis using scan_skip [of st b a "c # post" cm option] assms unfolding ab(1) by (simp add: ab(2))
qed

lemma scan_plain:
  assumes "c \<notin> set pre" "NUL \<notin> set (pre @ c # x # post)" "optopt st = c" "off \<le> length pre"
    and "x \<noteq> CHR '':''" "c \<notin> set post"
  shows "scan_options (pre @ c # x # post) cm off option st = Inr (False, schar c, st)"
proof -
  let ?s = "pre @ c # x # post"
  have "scan_options ?s cm off option st = scan_options ?s cm (length pre) option st"
    using scan_to [of c pre st off "x # post" cm option] assms by simp
  also have "\<dots> = scan_options ?s cm (length pre + 2) (schar c) st"
    using assms by (subst scan_step(2) [where x = x]) (auto simp: nth_append char_at_def)
  also have "\<dots> = Inr (False, schar c, st)" using assms by (intro scan_miss) simp_all
  finally show ?thesis .
qed

lemma scan_inline:
  assumes "c \<notin> set pre" "NUL \<notin> set (pre @ c # CHR '':'' # post)" "optopt st = c" "off \<le> length pre" "c \<notin> set post"
    and "optind st < argc st" "charind st + 1 < length (argv st ! optind st)" "argv st ! optind st ! (charind st + 1) \<noteq> NUL"
  shows "scan_options (pre @ c # CHR '':'' # post) cm off option st
    = Inr (False, schar c, st\<lparr>optarg := Some (drop (charind st + 1) (argv st ! optind st)),
                             optind := optind st + 1, charind := 0\<rparr>)"
proof -
  let ?s = "pre @ c # CHR '':'' # post"
  let ?st = "st\<lparr>optarg := Some (drop (charind st + 1) (argv st ! optind st)), optind := optind st + 1, charind := 0\<rparr>"
  have nn: "c \<noteq> NUL" using assms(2) by auto
  have "scan_options ?s cm off option st = scan_options ?s cm (length pre) option st"
    using scan_to [of c pre st off "CHR '':'' # post" cm option] assms by simp
  also have "\<dots> = scan_options ?s cm (length pre + 2) (schar c) ?st"
    using assms nn by (simp add: scan_options.simps [of _ cm "length pre"] nth_append char_at_def arg_at_def)
  also have "\<dots> = Inr (False, schar c, ?st)" using assms by (intro scan_miss) simp_all
  finally show ?thesis .
qed

lemma scan_separate:
  assumes "c \<notin> set pre" "NUL \<notin> set (pre @ c # CHR '':'' # x # post)" "optopt st = c" "off \<le> length pre" "c \<notin> set post"
    and "x \<noteq> CHR '':''" "optind st + 1 < argc st" "charind st + 1 = length (argv st ! optind st)"
  shows "scan_options (pre @ c # CHR '':'' # x # post) cm off option st
    = Inr (False, schar c, st\<lparr>charind := 0, optarg := Some (argv st ! (optind st + 1)), optind := optind st + 2\<rparr>)"
proof -
  let ?s = "pre @ c # CHR '':'' # x # post"
  let ?st = "st\<lparr>charind := 0, optarg := Some (argv st ! (optind st + 1)), optind := optind st + 2\<rparr>"
  have nn: "c \<noteq> NUL" using assms(2) by auto
  have "scan_options ?s cm off option st = scan_options ?s cm (length pre) option st"
    using scan_to [of c pre st off "CHR '':'' # x # post" cm option] assms by simp
  also have "\<dots> = scan_options ?s cm (length pre + 3) (schar c) ?st"
    using assms nn
    by (simp add: scan_options.simps [of _ cm "length pre"] nth_append char_at_def arg_at_def numeral_2_eq_2 numeral_3_eq_3)
  also have "\<dots> = Inr (False, schar c, ?st)" using assms by (intro scan_miss) (simp_all add: numeral_3_eq_3)
  finally show ?thesis .
qed

text \<open>An option that is the last character of the option string: the scan goes on behind the final nul.\<close>

lemma scan_last_undefined:
  assumes "c \<notin> set pre" "NUL \<notin> set (pre @ [c])" "optopt st = c" "off \<le> length pre"
  shows "scan_options (pre @ [c]) cm off option st = Inl Undefined"
proof -
  have "scan_options (pre @ [c]) cm off option st = scan_options (pre @ [c]) cm (length pre) option st"
    using scan_to [of c pre st off "[]" cm option] assms by simp
  also have "\<dots> = scan_options (pre @ [c]) cm (length pre + 2) (schar c) st"
    using assms by (subst scan_step(2) [where x = NUL]) (auto simp: char_at_def)
  also have "\<dots> = Inl Undefined" by (simp add: scan_options.simps)
  finally show ?thesis .
qed

subsection \<open>Permutation\<close>

lemma permute_back_lists:
  assumes "argv st = A @ S @ U @ R" "U \<noteq> []"
    and "optind st = length A + length S + length U - (if charind st = 0 then 0 else 1)"
  shows "permute_back (length A) (length S) st = Inr (st\<lparr>argv := A @ U @ S @ R, optind := optind st - length S\<rparr>)"
  using assms
proof (induction S arbitrary: R st rule: rev_induct)
  case Nil
  then show ?case by simp
next
  case (snoc y S)
  let ?i = "length A + length S" and ?e = "if charind st = 0 then optind st - 1 else optind st"
  let ?st = "st\<lparr>argv := A @ S @ U @ y # R, optind := optind st - 1\<rparr>"
  have e: "?e = ?i + length U" using snoc.prems(2,3) by (cases U) auto
  have "move_to ?i ?e (argv st) = Inr (A @ S @ U @ y # R)"
    unfolding e snoc.prems(1) by (simp add: move_to_def nth_append)
  moreover have "permute_back (length A) (length S) ?st
      = Inr (?st\<lparr>argv := A @ U @ S @ y # R, optind := optind ?st - length S\<rparr>)"
    using snoc.prems(2,3) by (intro snoc.IH) auto
  ultimately show ?case by simp
qed

lemma complain_simps [simp]:
  "argv (complain m st) = argv st" "charind (complain m st) = charind st" "optind (complain m st) = optind st"
  by (simp_all add: complain_def)

text \<open>A call that handles a character goes on within the element, or to one behind it.\<close>

lemma scan_moves:
  "scan_options s cm p option st = Inr (j, opt, st1) \<Longrightarrow>
     argv st1 = argv st \<and> (charind st1 = charind st \<and> optind st1 = optind st \<or> charind st1 = 0 \<and> optind st < optind st1)"
proof (induction s cm p option st rule: scan_options.induct)
  case (1 s cm p option st)
  note step = "1.prems" [unfolded scan_options.simps [of s cm p option st]]
  show ?case
  proof (cases "p \<ge> length s \<or> s ! p = NUL \<or> s ! p \<noteq> optopt st")
    case True
    then show ?thesis using step "1.IH"(1) by (auto split: if_splits)
  next
    case False
    then have f: "\<not> length s < p" "p \<noteq> length s" "optopt st \<noteq> NUL" "s ! p = optopt st" by auto
    then obtain c1 where c1: "char_at s (Suc p) = Inr c1" using step by (auto simp: exec)
    show ?thesis
    proof (cases "c1 = CHR '':''")
      case n: False
      then show ?thesis using step f c1 "1.IH"(2) [of c1] by simp
    next
      case colon: True
      then obtain a d where a: "arg_at st (optind st) = Inr a" "char_at a (Suc (charind st)) = Inr d"
        using step f c1 by (auto simp: exec)
      show ?thesis
      proof (cases "d = NUL")
        case n: False
        then show ?thesis using step f c1 colon a "1.IH"(3) [of c1 a d] by auto
      next
        case nul: True
        then obtain c2 where c2: "char_at s (Suc (Suc p)) = Inr c2" using step f c1 colon a by (auto simp: exec)
        let ?st = "st\<lparr>charind := 0, optind := optind st + 1\<rparr>"
        consider (missing) "c2 \<noteq> CHR '':''" "argc st \<le> Suc (optind st)"
          | (taken) "c2 \<noteq> CHR '':''" "\<not> argc st \<le> Suc (optind st)" | (optional) "c2 = CHR '':''" by blast
        then show ?thesis
        proof cases
          case missing
          then show ?thesis using step f c1 colon a nul c2 by (auto simp: Let_def)
        next
          case taken
          then show ?thesis using step f c1 colon a nul c2 "1.IH"(4) [of c1 a d c2 ?st] by (auto simp: Let_def)
        next
          case optional
          then show ?thesis using step f c1 colon a nul c2 "1.IH"(5) [of c1 a d c2] by simp
        qed
      qed
    qed
  qed
qed

definition moved :: "getopt_state \<Rightarrow> getopt_state \<Rightarrow> bool" where
  "moved st st1 \<longleftrightarrow> argv st1 = argv st
     \<and> (if charind st1 = 0 then optind st < optind st1 \<and> optind st1 \<le> argc st1
        else optind st1 = optind st \<and> charind st < charind st1)"

lemma getopt_done_moved:
  assumes "getopt_done option st = Inr (opt, st1)" "argv st = argv st0" "optind st0 < argc st0"
    and "charind st \<noteq> 0 \<and> charind st0 \<le> charind st \<and> optind st = optind st0 \<or> charind st = 0 \<and> optind st0 < optind st"
  shows "moved st0 st1"
proof (cases "charind st = 0")
  case True
  then show ?thesis using assms by (auto simp: getopt_done_def moved_def split: if_splits)
next
  case False
  with assms obtain a d where "arg_at st (optind st) = Inr a" "char_at a (Suc (charind st)) = Inr d"
    by (auto simp: getopt_done_def exec)
  then show ?thesis using assms False by (auto simp: getopt_done_def moved_def split: if_splits)
qed

lemma getopt_char_moved:
  assumes "getopt_char s off cm st = Inr (opt, st1)" "charind st \<noteq> 0"
  shows "moved st st1 \<and> optind st < argc st"
proof -
  from assms(1) obtain a c where a: "arg_at st (optind st) = Inr a" "char_at a (charind st) = Inr c"
    by (auto simp: getopt_char_def exec)
  with assms(1) obtain j option st2 where
    sc: "scan_options s cm off (-1) (st\<lparr>optopt := c\<rparr>) = Inr (j, option, st2)"
    by (cases "scan_options s cm off (-1) (st\<lparr>optopt := c\<rparr>)") (auto simp: getopt_char_def)
  with a assms(1) have d: "\<exists>option1. getopt_done option1 st2 = Inr (opt, st1)
       \<or> getopt_done option1 (complain '': illegal option -- '' st2) = Inr (opt, st1)"
    by (simp add: getopt_char_def split: if_splits) blast+
  have l: "optind st < argc st" using a by (simp add: arg_at_def split: if_splits)
  note m = scan_moves [OF sc]
  from d m assms(2) l have "moved st st1" by (elim exE disjE) (erule getopt_done_moved; auto)+
  with l show ?thesis by simp
qed

text \<open>The call on an element that is an option, whether it is \<open>--\<close> or not.\<close>

lemma getopt_option_moved:
  assumes "getopt_body r posix s st = Inr (opt, st1)" "optind st < argc st" "dash_word (argv st ! optind st)" "charind st = 0"
  shows "moved st st1"
proof (cases "argv st ! optind st = ''--''")
  case True
  then show ?thesis using assms
    by (auto simp: getopt_body_def getopt_done_def moved_def Let_def split: prod.splits)
next
  case False
  with assms obtain off cm where "getopt_char s off cm (st\<lparr>optarg := None, charind := 1\<rparr>) = Inr (opt, st1)"
    by (auto simp: getopt_body_def Let_def split: prod.splits)
  from getopt_char_moved [OF this] assms(4) show ?thesis by (auto simp: moved_def split: if_splits)
qed

text \<open>The first index that satisfies a predicate.\<close>

lemma filter_upt_first:
  assumes "filter P [a..<b] = i # js"
  shows "a \<le> i" "i < b" "P i" "\<And>k. a \<le> k \<Longrightarrow> k < i \<Longrightarrow> \<not> P k"
proof -
  obtain us vs where u: "[a..<b] = us @ i # vs" "\<forall>k \<in> set us. \<not> P k" "P i"
    using assms by (auto simp: filter_eq_Cons_iff)
  have m: "i \<in> set [a..<b]" unfolding u(1) by simp
  then show "a \<le> i" "i < b" "P i" using u(3) by auto
  fix k assume k: "a \<le> k" "k < i"
  have "sorted_wrt (<) (us @ i # vs)" unfolding u(1) [symmetric] by (rule sorted_wrt_upt)
  then have "\<forall>x \<in> set (i # vs). i \<le> x" by (auto simp: sorted_wrt_append)
  moreover have "k \<in> set (us @ i # vs)" unfolding u(1) [symmetric] using k m by simp
  ultimately show "\<not> P k" using k u(2) by fastforce
qed

text \<open>
  What a call that finds arguments before the next option does to the argument
  vector: \<open>S\<close> are the arguments, \<open>U\<close> the elements the option uses, and the two are exchanged.
\<close>

lemma permute_search_exact:
  assumes "permute_search (getopt_portable posix s) st = Inr (opt, st1)" "charind st = 0" "optind st < argc st"
  shows "argv st1 = argv st \<and> optind st1 = optind st \<and> opt = -1
    \<or> (\<exists>S U R. argv st = take (optind st) (argv st) @ S @ U @ R \<and> S \<noteq> [] \<and> U \<noteq> [] \<and> dash_word (hd U)
         \<and> (\<forall>a \<in> set (tl S). \<not> dash_word a)
         \<and> argv st1 = take (optind st) (argv st) @ U @ S @ R
         \<and> optind st1 = optind st + length U - (if charind st1 = 0 then 0 else 1))"
proof (cases "filter (\<lambda>i. dash_word (argv st ! i)) [optind st + 1 ..< argc st]")
  case Nil
  then show ?thesis using assms(1) by (simp add: permute_search_def)
next
  case (Cons i js)
  note u = filter_upt_first [OF Cons]
  then have i: "optind st < i" "i < argc st" by simp_all
  from Cons assms(1) obtain st2 where r: "getopt_portable posix s (st\<lparr>optind := i\<rparr>) = Inr (opt, st2)"
    and p: "permute_back (optind st) (i - optind st) st2 = Inr st1"
    by (auto simp: permute_search_def exec)
  have m: "moved (st\<lparr>optind := i\<rparr>) st2"
    using getopt_option_moved [OF r [unfolded getopt_portable_def]] i u(3) assms(2) by simp
  let ?xs = "argv st" and ?j = "optind st"
  define n where "n = (if charind st2 = 0 then optind st2 else i + 1)"
  define S where "S = drop ?j (take i ?xs)"
  define U where "U = drop i (take n ?xs)"
  define R where "R = drop n ?xs"
  have n: "i < n" "n \<le> length ?xs" "optind st2 = n - (if charind st2 = 0 then 0 else 1)"
    using m i by (auto simp: moved_def n_def split: if_splits)
  have len: "length S = i - ?j" "length U = n - i" using i n by (simp_all add: S_def U_def)
  have xs: "?xs = take ?j ?xs @ S @ U @ R"
    unfolding S_def U_def R_def using i n
    by (metis append.assoc append_take_drop_id drop_take le_add_diff_inverse less_imp_le_nat take_add)
  have "permute_back (length (take ?j ?xs)) (length S) st2
      = Inr (st2\<lparr>argv := take ?j ?xs @ U @ S @ R, optind := optind st2 - length S\<rparr>)"
  proof (rule permute_back_lists)
    show "argv st2 = take ?j ?xs @ S @ U @ R" using m xs by (simp add: moved_def)
  qed (use n i len in \<open>auto simp: moved_def\<close>)
  with p i len(1) assms(3) have st1: "st1 = st2\<lparr>argv := take ?j ?xs @ U @ S @ R, optind := optind st2 - length S\<rparr>"
    by simp
  have "hd U = ?xs ! i" using i n by (simp add: U_def hd_drop_conv_nth)
  moreover have "\<forall>a \<in> set (tl S). \<not> dash_word a"
  proof
    fix a assume "a \<in> set (tl S)"
    then obtain k where k: "k < length S - 1" "a = S ! Suc k" by (auto simp: in_set_conv_nth nth_tl)
    then have "a = ?xs ! (?j + Suc k)" "?j + Suc k < i" using i len(1) by (auto simp: S_def)
    then show "\<not> dash_word a" using u(4) by simp
  qed
  moreover have "S \<noteq> []" "U \<noteq> []" using len i n by auto
  ultimately show ?thesis using xs u(3) st1 n len i by (intro disjI2 exI [of _ S] exI [of _ U] exI [of _ R]) auto
qed

text \<open>So the search keeps the arguments, and an option it finds is behind the old position.\<close>

lemma permute_search_moved:
  assumes "permute_search (getopt_portable posix s) st = Inr (opt, st1)" "charind st = 0" "optind st < argc st"
  shows "mset (argv st1) = mset (argv st) \<and> optind st1 \<le> argc st1
     \<and> (opt = -1 \<or> optind st < optind st1 \<or> optind st1 = optind st \<and> charind st < charind st1)"
  using permute_search_exact [OF assms]
proof (elim disjE exE conjE)
  fix S U R assume xs: "argv st = take (optind st) (argv st) @ S @ U @ R" and U: "U \<noteq> []"
    and ys: "argv st1 = take (optind st) (argv st) @ U @ S @ R"
    and oi: "optind st1 = optind st + length U - (if charind st1 = 0 then 0 else 1)"
  have "mset (argv st1) = mset (take (optind st) (argv st) @ S @ U @ R)" unfolding ys by simp
  then have "mset (argv st1) = mset (argv st)" using xs by simp
  moreover have "optind st1 \<le> argc st1"
    using oi assms(3) arg_cong [OF ys, of length] by (auto split: if_splits)
  moreover have "optind st < optind st1 \<or> optind st1 = optind st \<and> charind st < charind st1"
    using oi U assms(2) by (cases U) (auto split: if_splits)
  ultimately show ?thesis by simp
qed (use assms in auto)

subsection \<open>Properties\<close>


definition demo_getopt :: "string list \<Rightarrow> getopt_state" where
  "demo_getopt args = \<lparr>argv = ''remctl'' # args, optind = 1, opterr = True, optopt = NUL, optarg = None,
     charind = 0, complaints = []\<rparr>"

lemma demo_getopt_run:
  "getopt_portable False ''p:dh'' (demo_getopt [''host'', ''-p'', ''4373'', ''cmd''])
     = Inr (schar (CHR ''p''), (demo_getopt [''-p'', ''4373'', ''host'', ''cmd''])
         \<lparr>optind := 3, optopt := CHR ''p'', optarg := Some ''4373''\<rparr>)"
  by (simp add: getopt_portable_def getopt_body_def getopt_mode_def demo_getopt_def dash_word_def permute_search_def
      getopt_char_def arg_at_def char_at_def scan_options.simps getopt_done_def move_to_def upt_conv_Cons schar_def Let_def)


text \<open>The last option of the option string of the client program: its scan leaves the string.\<close>

lemma getopt_last_option:
  "getopt_portable False ''+b:dhp:s:t:v'' (demo_getopt [''-v'']) = Inl Undefined"
  by (simp add: getopt_portable_def getopt_body_def getopt_mode_def demo_getopt_def dash_word_def
      getopt_char_def arg_at_def char_at_def scan_options.simps Let_def)

text \<open>With \<open>POSIXLY_CORRECT\<close> a missing argument is reported as if the option string began with a colon.\<close>

lemma getopt_posix_colon:
  "\<exists>st1. getopt_portable True ''p:dh'' (demo_getopt [''-p'']) = Inr (schar (CHR '':''), st1)"
  by (simp add: getopt_portable_def getopt_body_def getopt_mode_def demo_getopt_def dash_word_def
      getopt_char_def arg_at_def char_at_def scan_options.simps getopt_done_def complain_def Let_def)

end
